(* ===== verification/Prelude.thy ===== *)
theory Prelude
  imports Main "HOL-Library.Word" "HOL-Library.Finite_Map"
begin

text \<open>
  Shared vocabulary of the development: the machine types of the gate, the
  standard-library arithmetic it relies on (wrapping, saturating and checked
  operations at the width of the source), big-endian byte strings, the result
  type, and the generic facts about lists, finite maps and words that the
  component theories use.
\<close>

unbundle bit_operations_syntax

named_theorems inv_intros \<open>facts that establish or preserve the invariant of a state machine\<close>

section \<open>Machine types\<close>

type_synonym byte = "8 word"
type_synonym bytes = "byte list"
type_synonym u16 = "16 word"
type_synonym u32 = "32 word"
type_synonym u64 = "64 word"
type_synonym u128 = "128 word"
type_synonym i32 = "32 word"
type_synonym usize = nat
type_synonym instant = nat
type_synonym duration = nat

abbreviation usize_max :: nat where
  "usize_max \<equiv> 2 ^ 64 - 1"

abbreviation nanos_per_sec :: nat where
  "nanos_per_sec \<equiv> 1000000000"

text \<open>
  An \<^verbatim>\<open>Instant\<close> is a count of nanoseconds of the monotonic clock and a
  \<^verbatim>\<open>Duration\<close> a count of nanoseconds. \<^verbatim>\<open>saturating_duration_since\<close> is the
  truncating subtraction of \<^typ>\<open>nat\<close>.
\<close>

definition saturating_duration_since :: "instant \<Rightarrow> instant \<Rightarrow> duration" where
  "saturating_duration_since now earlier = now - earlier"

definition from_secs :: "nat \<Rightarrow> duration" where
  "from_secs s = s * nanos_per_sec"

definition from_millis :: "nat \<Rightarrow> duration" where
  "from_millis ms = ms * 1000000"

definition as_secs :: "duration \<Rightarrow> nat" where
  "as_secs d = d div nanos_per_sec"

text \<open>
  A \<^verbatim>\<open>usize\<close> counter is a \<^typ>\<open>nat\<close> below \<open>2 ^ 64\<close>. The release profile leaves
  overflow checks off, so \<^verbatim>\<open>+= 1\<close> and \<^verbatim>\<open>-= 1\<close> wrap.
\<close>

definition usize_inc :: "usize \<Rightarrow> usize" where
  "usize_inc n = (n + 1) mod 2 ^ 64"

definition usize_dec :: "usize \<Rightarrow> usize" where
  "usize_dec n = (if n = 0 then usize_max else n - 1)"

lemma usize_dec_inc [simp]: "n < usize_max \<Longrightarrow> usize_dec (usize_inc n) = n"
  by (simp add: usize_dec_def usize_inc_def)

lemma usize_inc_eq [simp]: "n < usize_max \<Longrightarrow> usize_inc n = Suc n"
  by (simp add: usize_inc_def)

lemma usize_dec_eq [simp]: "0 < n \<Longrightarrow> usize_dec n = n - 1"
  by (simp add: usize_dec_def)

text \<open>\<^verbatim>\<open>usize::checked_add\<close>.\<close>

definition checked_add :: "usize \<Rightarrow> usize \<Rightarrow> usize option" where
  "checked_add a b = (if a + b < 2 ^ 64 then Some (a + b) else None)"

lemma checked_add_Some [simp]: "checked_add a b = Some c \<longleftrightarrow> c = a + b \<and> a + b < 2 ^ 64"
  by (auto simp: checked_add_def)

section \<open>Results\<close>

text \<open>\<^verbatim>\<open>Result<T, E>\<close> is the sum type with the error on the left; \<open>bind_result\<close> is \<^verbatim>\<open>?\<close>.\<close>

definition bind_result :: "'e + 'a \<Rightarrow> ('a \<Rightarrow> 'e + 'b) \<Rightarrow> 'e + 'b" where
  "bind_result r f = (case r of Inl e \<Rightarrow> Inl e | Inr x \<Rightarrow> f x)"

lemma bind_result_simps [simp]:
  "bind_result (Inl e) f = Inl e"
  "bind_result (Inr x) f = f x"
  by (simp_all add: bind_result_def)

lemma bind_result_Inr: "bind_result r f = Inr y \<longleftrightarrow> (\<exists>x. r = Inr x \<and> f x = Inr y)"
  by (cases r) auto

lemma bind_result_Inl: "bind_result r f = Inl e \<longleftrightarrow> r = Inl e \<or> (\<exists>x. r = Inr x \<and> f x = Inl e)"
  by (cases r) auto

lemma bind_result_cong [fundef_cong]:
  "r = r' \<Longrightarrow> (\<And>x. r' = Inr x \<Longrightarrow> f x = f' x) \<Longrightarrow> bind_result r f = bind_result r' f'"
  by (cases r') auto

section \<open>Big-endian integers\<close>

definition be16 :: "u16 \<Rightarrow> bytes" where
  "be16 w = [ucast (drop_bit 8 w), ucast w]"

definition u16_from_be :: "byte \<Rightarrow> byte \<Rightarrow> u16" where
  "u16_from_be hi lo = push_bit 8 (ucast hi) OR ucast lo"

lemma length_be16 [simp]: "length (be16 w) = 2"
  by (simp add: be16_def)

lemma u16_from_be_be16 [simp]: "u16_from_be (ucast (drop_bit 8 w)) (ucast w) = (w :: u16)"
  unfolding u16_from_be_def
  by (rule bit_word_eqI) (auto simp: bit_simps)

lemma u16_from_be_nth [simp]: "u16_from_be (be16 w ! 0) (be16 w ! Suc 0) = w"
  by (simp add: be16_def)

text \<open>\<^verbatim>\<open>octets()\<close> of an address of \<open>8 * n\<close> bits and the address of its octets.\<close>

fun be_bytes :: "nat \<Rightarrow> 'a::len word \<Rightarrow> bytes" where
  "be_bytes 0 w = []"
| "be_bytes (Suc n) w = ucast (drop_bit (8 * n) w) # be_bytes n w"

fun be_word :: "bytes \<Rightarrow> 'a::len word" where
  "be_word [] = 0"
| "be_word (b # bs) = push_bit (8 * length bs) (ucast b) OR be_word bs"

lemma length_be_bytes [simp]: "length (be_bytes n w) = n"
  by (induction n) auto

lemma be_word_be_bytes_take:
  fixes w :: "'a::len word"
  shows "be_word (be_bytes n w) = take_bit (8 * n) w"
proof (induction n)
  case (Suc n)
  have "push_bit (8 * n) (ucast (ucast (drop_bit (8 * n) w) :: byte)) OR take_bit (8 * n) w
      = take_bit (8 * Suc n) w"
    by (rule bit_word_eqI) (auto simp: bit_simps)
  with Suc show ?case by simp
qed simp

lemma be_word_be_bytes [simp]:
  fixes w :: "'a::len word"
  assumes "LENGTH('a) = 8 * n"
  shows "be_word (be_bytes n w) = w"
  using assms by (simp add: be_word_be_bytes_take take_bit_word_eq_self)

section \<open>Lists and finite maps\<close>

lemma nth_append_take_drop: "length xs = n \<Longrightarrow> drop n (xs @ ys) = ys \<and> take n (xs @ ys) = xs"
  by auto

definition fm_len :: "('k, 'v) fmap \<Rightarrow> nat" where
  "fm_len m = fcard (fmdom m)"

lemma fm_len_empty [simp]: "fm_len fmempty = 0"
  by (simp add: fm_len_def)

lemma fm_len_upd_old [simp]: "fmlookup m k = Some v \<Longrightarrow> fm_len (fmupd k v' m) = fm_len m"
  by (simp add: fm_len_def finsert_absorb fmdomI)

lemma fm_len_upd_new [simp]: "fmlookup m k = None \<Longrightarrow> fm_len (fmupd k v' m) = Suc (fm_len m)"
  by (simp add: fm_len_def fcard_finsert_disjoint fmdom_notI)

text \<open>\<^verbatim>\<open>HashMap::retain\<close>: the entries whose value satisfies the predicate.\<close>

definition fm_retain :: "('v \<Rightarrow> bool) \<Rightarrow> ('k, 'v) fmap \<Rightarrow> ('k, 'v) fmap" where
  "fm_retain keep m = fmfilter (\<lambda>k. case fmlookup m k of None \<Rightarrow> False | Some v \<Rightarrow> keep v) m"

lemma fm_retain_lookup [simp]:
  "fmlookup (fm_retain keep m) k =
     (case fmlookup m k of None \<Rightarrow> None | Some v \<Rightarrow> if keep v then Some v else None)"
  by (auto simp: fm_retain_def split: option.splits)

lemma fm_len_retain: "fm_len (fm_retain keep m) \<le> fm_len m"
  unfolding fm_len_def fm_retain_def by (auto intro!: fcard_mono)

section \<open>Reachability\<close>

inductive reachable :: "('s \<Rightarrow> bool) \<Rightarrow> ('s \<Rightarrow> 's \<Rightarrow> bool) \<Rightarrow> 's \<Rightarrow> bool"
  for init :: "'s \<Rightarrow> bool" and step :: "'s \<Rightarrow> 's \<Rightarrow> bool" where
  reach_init: "init s \<Longrightarrow> reachable init step s"
| reach_step: "reachable init step s \<Longrightarrow> step s t \<Longrightarrow> reachable init step t"

text \<open>The contract of every state machine of the development: an inductive invariant.\<close>

locale invariant_system =
  fixes init :: "'s \<Rightarrow> bool" and step :: "'s \<Rightarrow> 's \<Rightarrow> bool" and inv :: "'s \<Rightarrow> bool"
  assumes starts: "init s \<Longrightarrow> inv s"
    and keeps: "inv s \<Longrightarrow> step s t \<Longrightarrow> inv t"
begin

lemma always: "reachable init step s \<Longrightarrow> inv s"
  by (induction rule: reachable.induct) (auto intro: starts keeps)

lemma onwards: "step\<^sup>*\<^sup>* s t \<Longrightarrow> inv s \<Longrightarrow> inv t"
  by (induction rule: rtranclp_induct) (auto intro: keeps)

end

end
