(* ===== verification/Varint.thy ===== *)
theory Varint
  imports Prelude
begin

text \<open>
  protocol.rs, VarInts: the parser error type, \<^verbatim>\<open>varint\<close>, \<^verbatim>\<open>put_varint\<close> and \<^verbatim>\<open>frame\<close>, with
  the facts that decoding inverts encoding, that every strict prefix of an encoding
  is reported as incomplete, and how many bytes an encoding takes.
\<close>

datatype perror = Eof | Io | VarInt | Oversized | Invalid | Unsupported | Deadline | Slow

section \<open>VarInts\<close>

function varint_loop :: "nat \<Rightarrow> u32 \<Rightarrow> bytes \<Rightarrow> perror + (i32 \<times> nat) option" where
  "varint_loop i value data =
     (if i < 5 then
        if i < length data then
          let b = data ! i in
          if i = 4 \<and> b AND 0xF0 \<noteq> 0 then Inl VarInt
          else let value = value OR push_bit (7 * i) (ucast (b AND 0x7F)) in
            if b AND 0x80 = 0 then Inr (Some (value, i + 1))
            else varint_loop (i + 1) value data
        else Inr None
      else Inl VarInt)"
  by pat_completeness auto
termination
  by (relation "measure (\<lambda>(i, v, d). 5 - i)") auto

declare varint_loop.simps [simp del]

definition varint :: "bytes \<Rightarrow> perror + (i32 \<times> nat) option" where
  "varint data = varint_loop 0 0 data"

function put_varint_loop :: "u32 \<Rightarrow> bytes" where
  "put_varint_loop v =
     (let b = ucast (v AND 127); v' = drop_bit 7 v in
      if v' \<noteq> 0 then (b OR 128) # put_varint_loop v' else [b])"
  by pat_completeness auto
termination
proof (relation "measure unat")
  fix v x xa
  assume "xa = drop_bit 7 v" "xa \<noteq> (0 :: u32)"
  then have "unat xa = unat v div 128"
    by (simp add: drop_bit_eq_div unat_div)
  moreover from this have "unat v \<noteq> 0"
    using \<open>xa \<noteq> 0\<close> by (metis div_0 unsigned_eq_0_iff)
  ultimately show "(xa, v) \<in> measure unat" by simp
qed auto

declare put_varint_loop.simps [simp del]

text \<open>\<^verbatim>\<open>put_varint(value, out)\<close> appends to \<open>out\<close>; \<^verbatim>\<open>value as u32\<close> keeps the bits.\<close>

definition put_varint :: "i32 \<Rightarrow> bytes \<Rightarrow> bytes" where
  "put_varint value out = out @ put_varint_loop value"

text \<open>\<^verbatim>\<open>len as i32\<close> truncates.\<close>

definition frame :: "bytes \<Rightarrow> bytes" where
  "frame body = put_varint (of_nat (length body)) [] @ body"

subsection \<open>Septets\<close>

lemma bit_byte_128: "bit (128 :: byte) n \<longleftrightarrow> n = 7"
proof -
  have "(128 :: byte) = push_bit 7 1" by simp
  then show ?thesis by (simp only: bit_push_bit_iff bit_1_iff) auto
qed

lemma bit_byte_240: "bit (240 :: byte) n \<longleftrightarrow> 4 \<le> n \<and> n < 8"
proof -
  have "(240 :: byte) = push_bit 4 (mask 4)" by (simp add: mask_eq_exp_minus_1)
  then show ?thesis by (simp only: bit_push_bit_iff bit_mask_iff) auto
qed

lemma word_7f: "(v :: 'a::len word) AND 127 = take_bit 7 v"
  using take_bit_eq_mask [of 7 v] by (simp add: mask_eq_exp_minus_1)

lemma septet_join: "take_bit 7 v OR push_bit 7 (drop_bit 7 v) = (v :: u32)"
proof (rule bit_word_eqI)
  fix n
  assume "n < LENGTH(32)"
  then show "bit (take_bit 7 v OR push_bit 7 (drop_bit 7 v)) n = bit v n"
    by (cases "n < 7")
      (simp_all add: bit_or_iff bit_take_bit_iff bit_push_bit_iff bit_drop_bit_eq)
qed

lemma septet_low: "ucast ((ucast (take_bit 7 v) :: byte) AND 127) = take_bit 7 (v :: u32)"
  unfolding word_7f by (rule bit_word_eqI) (auto simp: bit_simps)

lemma septet_low_more: "ucast (((ucast (take_bit 7 v) :: byte) OR 128) AND 127) = take_bit 7 (v :: u32)"
  unfolding word_7f
  by (rule bit_word_eqI) (auto simp: bit_take_bit_iff bit_or_iff bit_ucast_iff bit_byte_128)

lemma septet_high: "(ucast (take_bit 7 v) :: byte) AND 128 = 0" for v :: u32
  by (rule bit_word_eqI)
    (simp only: bit_take_bit_iff bit_and_iff bit_ucast_iff bit_byte_128 bit_0_eq, simp)

lemma septet_high_more: "(x OR 128) AND 128 \<noteq> (0 :: byte)"
proof
  assume "(x OR 128) AND 128 = (0 :: byte)"
  then have "bit ((x OR 128) AND 128) 7 = bit (0 :: byte) 7" by simp
  then show False by (simp only: bit_and_iff bit_or_iff bit_byte_128) simp
qed

lemma septet_nibble: "drop_bit 4 v = 0 \<Longrightarrow> (ucast (take_bit 7 v) :: byte) AND 240 = 0" for v :: u32
proof (rule bit_word_eqI)
  fix n
  assume v: "drop_bit 4 v = 0"
  have "\<not> bit v n" if "4 \<le> n"
  proof -
    have "bit v n = bit (drop_bit 4 v) (n - 4)" using that by (simp add: bit_drop_bit_eq)
    then show ?thesis using v by simp
  qed
  then show "bit ((ucast (take_bit 7 v) :: byte) AND 240) n = bit 0 n"
    by (simp only: bit_and_iff bit_ucast_iff bit_take_bit_iff bit_byte_240) auto
qed

lemma drop_bit_zero_iff: "drop_bit n (v :: u32) = 0 \<longleftrightarrow> unat v < 2 ^ n"
proof -
  have "drop_bit n v = 0 \<longleftrightarrow> drop_bit n (unat v) = 0"
    by (metis unat_drop_bit_eq unsigned_eq_0_iff)
  then show ?thesis by (simp only: drop_bit_eq_div div_eq_0_iff) simp
qed

subsection \<open>Decoding what was encoded\<close>

lemma put_varint_loop_nonempty [simp]: "put_varint_loop v \<noteq> []"
  by (subst put_varint_loop.simps) (simp add: Let_def)

lemma put_varint_loop_last:
  "drop_bit 7 v = 0 \<Longrightarrow> put_varint_loop v = [ucast (take_bit 7 v)]"
  by (subst put_varint_loop.simps) (simp add: Let_def word_7f)

lemma put_varint_loop_more:
  "drop_bit 7 v \<noteq> 0 \<Longrightarrow> put_varint_loop v = (ucast (take_bit 7 v) OR 128) # put_varint_loop (drop_bit 7 v)"
  by (subst put_varint_loop.simps) (simp add: Let_def word_7f)

lemma varint_loop_put_varint:
  assumes "length pre = i" "i \<le> 4" "unat v < 2 ^ (32 - 7 * i)"
  shows "varint_loop i acc (pre @ put_varint_loop v @ rest)
       = Inr (Some (acc OR push_bit (7 * i) v, i + length (put_varint_loop v)))"
  using assms
proof (induction v arbitrary: i acc pre rule: put_varint_loop.induct)
  case (1 v)
  show ?case
  proof (cases "drop_bit 7 v = 0")
    case True
    then have v: "take_bit 7 v = v" using septet_join [of v] by simp
    have "i = 4 \<Longrightarrow> (ucast (take_bit 7 v) :: byte) AND 240 = 0"
      using "1.prems" by (intro septet_nibble) (simp add: drop_bit_zero_iff)
    then show ?thesis
      using "1.prems" septet_low [of v] septet_high [of v]
      by (subst varint_loop.simps) (auto simp: put_varint_loop_last [OF True] nth_append Let_def v)
  next
    case False
    let ?acc = "acc OR push_bit (7 * i) (take_bit 7 v)"
    let ?pre = "pre @ [ucast (take_bit 7 v) OR 128]"
    have i: "i < 4"
      using False "1.prems" by (cases "i = 4") (auto simp: drop_bit_zero_iff)
    have "unat (drop_bit 7 v) = unat v div 2 ^ 7"
      by (simp only: unat_drop_bit_eq) (simp only: drop_bit_eq_div)
    also have "\<dots> < 2 ^ (32 - 7 * (i + 1))"
    proof -
      have "2 ^ (32 - 7 * i) = (2 ^ (32 - 7 * (i + 1)) * 2 ^ 7 :: nat)"
        using i by (subst power_add [symmetric]) simp
      then show ?thesis using "1.prems"(3) by (simp add: div_less_iff_less_mult)
    qed
    finally have small: "unat (drop_bit 7 v) < 2 ^ (32 - 7 * (i + 1))" .
    have "varint_loop i acc (pre @ put_varint_loop v @ rest)
        = varint_loop (i + 1) ?acc (?pre @ put_varint_loop (drop_bit 7 v) @ rest)"
      using "1.prems" i septet_low_more [of v] septet_high_more
      by (subst varint_loop.simps) (auto simp: put_varint_loop_more [OF False] nth_append Let_def)
    also have "\<dots> = Inr (Some (?acc OR push_bit (7 * (i + 1)) (drop_bit 7 v),
        i + 1 + length (put_varint_loop (drop_bit 7 v))))"
      using "1.prems" i small False by (intro "1.IH") auto
    also have "?acc OR push_bit (7 * (i + 1)) (drop_bit 7 v)
        = acc OR push_bit (7 * i) (take_bit 7 v OR push_bit 7 (drop_bit 7 v))"
      by (simp add: push_bit_or or.assoc algebra_simps)
    finally show ?thesis
      by (simp add: septet_join put_varint_loop_more [OF False])
  qed
qed

lemma varint_put_varint:
  "varint (put_varint_loop v @ rest) = Inr (Some (v, length (put_varint_loop v)))"
proof -
  have "unat v < 2 ^ LENGTH(32)" by (rule unsigned_less)
  then show ?thesis
    using varint_loop_put_varint [of "[]" 0 v 0 rest] by (simp add: varint_def)
qed

lemma varint_loop_incomplete:
  assumes "length pre = i" "i \<le> 4" "unat v < 2 ^ (32 - 7 * i)" "j < length (put_varint_loop v)"
  shows "varint_loop i acc (pre @ take j (put_varint_loop v)) = Inr None"
  using assms
proof (induction v arbitrary: i acc pre j rule: put_varint_loop.induct)
  case (1 v)
  show ?case
  proof (cases "j = 0")
    case True
    with "1.prems" show ?thesis by (subst varint_loop.simps) simp
  next
    case j: False
    have more: "drop_bit 7 v \<noteq> 0"
      using j "1.prems"(4) by (auto simp: put_varint_loop_last)
    let ?acc = "acc OR push_bit (7 * i) (take_bit 7 v)"
    let ?pre = "pre @ [ucast (take_bit 7 v) OR 128]"
    have i: "i < 4"
      using more "1.prems" by (cases "i = 4") (auto simp: drop_bit_zero_iff)
    have "2 ^ (32 - 7 * i) = (2 ^ (32 - 7 * (i + 1)) * 2 ^ 7 :: nat)"
      using i by (subst power_add [symmetric]) simp
    then have "unat v div 2 ^ 7 < 2 ^ (32 - 7 * (i + 1))"
      using "1.prems"(3) by (simp add: div_less_iff_less_mult)
    then have small: "unat (drop_bit 7 v) < 2 ^ (32 - 7 * (i + 1))"
      by (simp only: unat_drop_bit_eq) (simp only: drop_bit_eq_div)
    have "varint_loop i acc (pre @ take j (put_varint_loop v))
        = varint_loop (i + 1) ?acc (?pre @ take (j - 1) (put_varint_loop (drop_bit 7 v)))"
      using "1.prems" i j septet_low_more [of v] septet_high_more
      by (subst varint_loop.simps)
        (auto simp: put_varint_loop_more [OF more] nth_append Let_def take_Cons')
    also have "\<dots> = Inr None"
      using "1.prems" i small more j
      by (intro "1.IH") (auto simp: put_varint_loop_more [OF more])
    finally show ?thesis .
  qed
qed

lemma varint_incomplete:
  "j < length (put_varint_loop v) \<Longrightarrow> varint (take j (put_varint_loop v)) = Inr None"
proof -
  assume j: "j < length (put_varint_loop v)"
  have "unat v < 2 ^ LENGTH(32)" by (rule unsigned_less)
  then show ?thesis
    using varint_loop_incomplete [of "[]" 0 v j 0] j by (simp add: varint_def)
qed

lemma length_put_varint_le:
  "unat v < 2 ^ (7 * Suc k) \<Longrightarrow> length (put_varint_loop v) \<le> Suc k"
proof (induction k arbitrary: v)
  case 0
  then have "drop_bit 7 v = 0" by (simp add: drop_bit_zero_iff)
  then show ?case by (simp add: put_varint_loop_last)
next
  case (Suc k)
  show ?case
  proof (cases "drop_bit 7 v = 0")
    case True
    then show ?thesis by (simp add: put_varint_loop_last)
  next
    case False
    have "7 * Suc (Suc k) = 7 * Suc k + 7" by simp
    then have "unat v < 2 ^ (7 * Suc k) * 2 ^ 7"
      using Suc.prems by (simp only: power_add)
    then have "unat v div 2 ^ 7 < 2 ^ (7 * Suc k)"
      by (simp only: div_less_iff_less_mult zero_less_power zero_less_numeral)
    then have "unat (drop_bit 7 v) < 2 ^ (7 * Suc k)"
      by (simp only: unat_drop_bit_eq) (simp only: drop_bit_eq_div)
    from Suc.IH [OF this] False show ?thesis by (simp add: put_varint_loop_more)
  qed
qed

lemma length_put_varint_le5: "length (put_varint_loop v) \<le> 5"
proof (rule length_put_varint_le [of v 4, simplified])
  have "unat v < 2 ^ LENGTH(32)" by (rule unsigned_less)
  then show "unat v < 34359738368" by simp
qed

text \<open>What a successful decode consumed.\<close>

lemma varint_loop_consumed:
  "varint_loop i acc data = Inr (Some (n, k)) \<Longrightarrow> i < k \<and> k \<le> 5 \<and> k \<le> length data"
  by (induction i acc data rule: varint_loop.induct)
    (subst (asm) varint_loop.simps, fastforce simp: Let_def split: if_splits)

lemma varint_consumed: "varint data = Inr (Some (n, k)) \<Longrightarrow> 0 < k \<and> k \<le> 5 \<and> k \<le> length data"
  unfolding varint_def by (drule varint_loop_consumed) simp

section \<open>Properties\<close>

text \<open>
  VarInt round trip: for every \<^verbatim>\<open>i32\<close>, decoding what \<^verbatim>\<open>put_varint\<close> wrote returns the
  value and the number of bytes written, whatever follows; the encoding has at most
  five bytes, and every strict prefix of it is reported as incomplete rather than as
  an error or a shorter value.
\<close>

theorem varint_roundtrip:
  "varint (put_varint v [] @ rest) = Inr (Some (v, length (put_varint v []))) \<and>
   length (put_varint v []) \<le> 5 \<and>
   (\<forall>j < length (put_varint v []). varint (take j (put_varint v [])) = Inr None)"
  by (simp add: put_varint_def varint_put_varint length_put_varint_le5 varint_incomplete)

theorem varint_roundtrip_witness:
  "varint (put_varint (- 1) [] @ [5]) = Inr (Some (- 1, length (put_varint (- 1) []))) \<and>
   length (put_varint (- 1) []) \<le> 5 \<and> varint (take 0 (put_varint (- 1) [])) = Inr None"
proof -
  have "0 < length (put_varint (- 1) [])" by (simp add: put_varint_def)
  with varint_roundtrip [of "- 1" "[5]"] show ?thesis by blast
qed

end
