(* ===== verification/Framing.thy ===== *)
theory Framing
  imports Varint
begin

text \<open>
  protocol.rs, framing: \<^verbatim>\<open>Frame\<close>, \<^verbatim>\<open>read_bounded\<close> and \<^verbatim>\<open>read_frame\<close> over an abstract
  asynchronous reader. The reader and the clock belong to the runtime library: they
  are the parameter record \<open>reader_ops\<close>, and what the code relies on is the contract of
  the locales \<open>byte_source\<close> and \<open>prompt_source\<close>.
\<close>

section \<open>Frames\<close>

record frame_rec =
  fr_wire :: bytes
  fr_body_offset :: usize

definition frame_body :: "frame_rec \<Rightarrow> bytes" where
  "frame_body f = drop (fr_body_offset f) (fr_wire f)"

text \<open>
  The reader: \<open>rd_now\<close> is \<^verbatim>\<open>Instant::now()\<close>, \<open>rd_read until n\<close> is
  \<^verbatim>\<open>timeout_at(until, r.read(out))\<close> with a buffer of \<open>n\<close> bytes. Both may change the
  state \<open>'w\<close> of the outside world.
\<close>

datatype read_outcome = ReadTimeout | ReadError | ReadData bytes

record 'w reader_ops =
  rd_now :: "'w \<Rightarrow> instant \<times> 'w"
  rd_read :: "instant \<Rightarrow> nat \<Rightarrow> 'w \<Rightarrow> read_outcome \<times> 'w"

text \<open>\<^verbatim>\<open>read_bounded\<close> with \<open>n\<close> bytes of the buffer still empty; the bytes read are returned.\<close>

function read_bounded ::
    "'w reader_ops \<Rightarrow> nat \<Rightarrow> instant \<Rightarrow> duration \<Rightarrow> 'w \<Rightarrow> (perror + bytes) \<times> 'w" where
  "read_bounded ops n absolute progress w =
     (if n = 0 then (Inr [], w)
      else case rd_now ops w of (now, w) \<Rightarrow>
        if now \<ge> absolute then (Inl Deadline, w)
        else let until = min absolute (now + progress) in
          case rd_read ops until n w of
            (ReadTimeout, w) \<Rightarrow> (Inl (if until = absolute then Deadline else Slow), w)
          | (ReadError, w) \<Rightarrow> (Inl Io, w)
          | (ReadData bs, w) \<Rightarrow>
              if bs = [] then (Inl Eof, w)
              else (case read_bounded ops (n - length bs) absolute progress w of
                  (Inl e, w) \<Rightarrow> (Inl e, w)
                | (Inr rest, w) \<Rightarrow> (Inr (bs @ rest), w)))"
  by pat_completeness auto
termination
  by (relation "measure (\<lambda>(ops, n, a, p, w). n)") auto

declare read_bounded.simps [simp del]

text \<open>
  The prefix loop of \<^verbatim>\<open>read_frame\<close>: the bytes of the length so far, the remaining byte
  budget (a mutable reference of the caller, so it is returned on every path).
\<close>

function read_prefix ::
    "'w reader_ops \<Rightarrow> bytes \<Rightarrow> usize \<Rightarrow> instant \<Rightarrow> duration \<Rightarrow> duration \<Rightarrow> 'w
      \<Rightarrow> (perror + bytes \<times> nat) \<times> usize \<times> 'w" where
  "read_prefix ops prefix remaining deadline progress first_progress w =
     (if remaining = 0 then (Inl Oversized, remaining, w)
      else let wait = (if length prefix = 0 then first_progress else progress) in
        case read_bounded ops 1 deadline wait w of
          (Inl e, w) \<Rightarrow> (Inl e, remaining, w)
        | (Inr b, w) \<Rightarrow>
            let remaining' = remaining - 1; prefix = prefix @ b in
            case varint prefix of
              Inl e \<Rightarrow> (Inl e, remaining', w)
            | Inr (Some (n, _)) \<Rightarrow>
                if sint n \<le> 0 then (Inl Invalid, remaining', w)
                else (Inr (prefix, unat n), remaining', w)
            | Inr None \<Rightarrow>
                if length prefix = 3 then (Inl VarInt, remaining', w)
                else read_prefix ops prefix remaining' deadline progress first_progress w)"
  by pat_completeness auto
termination
  by (relation "measure (\<lambda>(ops, prefix, remaining, d, p, f, w). remaining)") auto

declare read_prefix.simps [simp del]

definition read_frame ::
    "'w reader_ops \<Rightarrow> usize \<Rightarrow> usize \<Rightarrow> instant \<Rightarrow> duration \<Rightarrow> duration \<Rightarrow> 'w
      \<Rightarrow> (perror + frame_rec) \<times> usize \<times> 'w" where
  "read_frame ops max_len remaining deadline progress first_progress w =
     (case read_prefix ops [] remaining deadline progress first_progress w of
        (Inl e, remaining, w) \<Rightarrow> (Inl e, remaining, w)
      | (Inr (prefix, len), remaining, w) \<Rightarrow>
          if len > max_len \<or> len > remaining then (Inl Oversized, remaining, w)
          else let remaining = remaining - len in
            case read_bounded ops len deadline progress w of
              (Inl e, w) \<Rightarrow> (Inl e, remaining, w)
            | (Inr body, w) \<Rightarrow>
                (Inr \<lparr>fr_wire = prefix @ body, fr_body_offset = length prefix\<rparr>, remaining, w))"

lemma read_bounded_0 [simp]: "read_bounded ops 0 absolute progress w = (Inr [], w)"
  by (simp add: read_bounded.simps)

lemma read_bounded_errors: "read_bounded ops n absolute progress w = (Inl e, w') \<Longrightarrow> e \<in> {Deadline, Slow, Io, Eof}"
proof (induction n arbitrary: w rule: less_induct)
  case (less n)
  have "e \<in> {Deadline, Slow, Io, Eof}"
    if "0 < n" "bs \<noteq> []" "read_bounded ops (n - length bs) absolute progress w1 = (Inl e, w')" for bs w1
    using that less.IH [of "n - length bs" w1] by simp
  with less.prems show ?case
    by (auto simp: read_bounded.simps [of ops n] Let_def split: if_splits prod.splits read_outcome.splits sum.splits)
qed

section \<open>The contract of the reader\<close>

text \<open>
  \<open>pending w\<close> is what the peer has sent and the gate has not read. Reading the clock
  takes no bytes; a read returns a prefix of the pending bytes that fits the buffer;
  a read that times out or fails took nothing (the runtime documents \<^verbatim>\<open>read\<close> as cancel safe).
\<close>

locale byte_source =
  fixes ops :: "'w reader_ops" and pending :: "'w \<Rightarrow> bytes"
  assumes now_pending: "rd_now ops w = (t, w') \<Longrightarrow> pending w' = pending w"
    and read_data: "rd_read ops until n w = (ReadData bs, w') \<Longrightarrow> length bs \<le> n \<and> pending w = bs @ pending w'"
    and read_timeout: "rd_read ops until n w = (ReadTimeout, w') \<Longrightarrow> pending w' = pending w"
    and read_error: "rd_read ops until n w = (ReadError, w') \<Longrightarrow> pending w' = pending w"
begin

lemma read_bounded_consumed:
  "read_bounded ops n absolute progress w = (r, w') \<Longrightarrow>
     \<exists>used. pending w = used @ pending w' \<and>
       (case r of Inl e \<Rightarrow> length used < n | Inr bs \<Rightarrow> bs = used \<and> length used = n)"
proof (induction n arbitrary: w r w' rule: less_induct)
  case (less n)
  obtain t w1 where now: "rd_now ops w = (t, w1)" by fastforce
  obtain o1 w2 where rd: "rd_read ops (min absolute (t + progress)) n w1 = (o1, w2)" by fastforce
  have p1: "pending w1 = pending w" using now_pending [OF now] .
  consider "n = 0" | "0 < n" "absolute \<le> t" | "0 < n" "t < absolute" "o1 = ReadTimeout"
    | "0 < n" "t < absolute" "o1 = ReadError" | "0 < n" "t < absolute" "o1 = ReadData []"
    | b bs where "0 < n" "t < absolute" "o1 = ReadData (b # bs)"
    by (metis neq0_conv not_le list.exhaust read_outcome.exhaust)
  then show ?case
  proof cases
    case (6 b bs)
    obtain r1 w3 where rec: "read_bounded ops (n - length (b # bs)) absolute progress w2 = (r1, w3)" by fastforce
    have d: "length (b # bs) \<le> n" "pending w1 = (b # bs) @ pending w2"
      using read_data [of _ n w1 "b # bs" w2] rd 6 by auto
    have step: "r = map_sum id ((@) (b # bs)) r1" "w' = w3"
      using less.prems 6 now rd rec by (auto simp: read_bounded.simps [of ops n] Let_def split: sum.splits)
    have "n - length (b # bs) < n" using 6 by simp
    from less.IH [OF this rec] obtain used where u: "pending w2 = used @ pending w3"
      "case r1 of Inl e \<Rightarrow> length used < n - length (b # bs)
         | Inr x \<Rightarrow> x = used \<and> length used = n - length (b # bs)" by blast
    show ?thesis
      using d u step p1 by (intro exI [of _ "(b # bs) @ used"]) (cases r1; auto)
  qed (use less.prems now rd p1 read_timeout read_error read_data [of _ n w1 "[]" w2]
       in \<open>auto simp: read_bounded.simps [of ops n] Let_def\<close>)
qed

lemma read_bounded_Inr:
  "read_bounded ops n absolute progress w = (Inr bs, w') \<Longrightarrow> length bs = n \<and> pending w = bs @ pending w'"
  using read_bounded_consumed by fastforce

text \<open>
  The prefix loop debits one unit of the budget per byte it reads, stops after at most
  three bytes, and hands on a length that is positive.
\<close>

lemma read_prefix_consumed:
  assumes "read_prefix ops prefix remaining deadline progress first_progress w = (r, remaining', w')"
    and "length prefix < 3"
  shows "\<exists>used. pending w = used @ pending w' \<and> remaining = remaining' + length used \<and> length prefix + length used \<le> 3 \<and>
     (\<forall>p len. r = Inr (p, len) \<longrightarrow> p = prefix @ used \<and> 0 < len \<and>
        (\<exists>n k. varint p = Inr (Some (n, k)) \<and> len = unat n))"
  using assms
proof (induction remaining arbitrary: prefix w r)
  case 0
  then show ?case by (auto simp: read_prefix.simps [of ops _ 0])
next
  case (Suc m)
  let ?wait = "if length prefix = 0 then first_progress else progress"
  obtain r1 w1 where rb: "read_bounded ops 1 deadline ?wait w = (r1, w1)" by fastforce
  from read_bounded_consumed [OF rb] obtain u where u: "pending w = u @ pending w1"
    "case r1 of Inl e \<Rightarrow> length u < 1 | Inr bs \<Rightarrow> bs = u \<and> length u = 1" by blast
  note step = Suc.prems(1) [unfolded read_prefix.simps [of ops prefix "Suc m"] Let_def rb]
  show ?case
  proof (cases r1)
    case (Inl e)
    with step u Suc.prems(2) show ?thesis by (auto intro!: exI [of _ "[]"])
  next
    case r1: (Inr bs)
    with u have bs: "bs = u" "length u = 1" by auto
    show ?thesis
    proof (cases "varint (prefix @ u) = Inr None \<and> length (prefix @ u) \<noteq> 3")
      case True
      then have rec: "read_prefix ops (prefix @ u) m deadline progress first_progress w1 = (r, remaining', w')"
        using step r1 bs by simp
      have "length (prefix @ u) < 3" using True Suc.prems(2) bs by simp
      from Suc.IH [OF rec this] obtain v where
        "pending w1 = v @ pending w'" "m = remaining' + length v" "length (prefix @ u) + length v \<le> 3"
        "\<forall>p len. r = Inr (p, len) \<longrightarrow> p = (prefix @ u) @ v \<and> 0 < len \<and>
           (\<exists>n k. varint p = Inr (Some (n, k)) \<and> len = unat n)" by blast
      then show ?thesis using u bs by (intro exI [of _ "u @ v"]) auto
    next
      case False
      then show ?thesis
        using step r1 bs u(1) Suc.prems(2)
        by (intro exI [of _ u])
          (auto split: sum.splits option.splits if_splits simp: unat_gt_0 intro: ccontr)
    qed
  qed
qed

lemma read_frame_ok:
  assumes "read_frame ops max_len remaining deadline progress first_progress w = (Inr f, remaining', w')"
  shows "pending w = fr_wire f @ pending w' \<and> remaining = remaining' + length (fr_wire f) \<and>
    0 < length (frame_body f) \<and> length (frame_body f) \<le> max_len \<and> fr_body_offset f \<le> 3 \<and>
    (\<exists>n k. varint (take (fr_body_offset f) (fr_wire f)) = Inr (Some (n, k)) \<and> length (frame_body f) = unat n)"
proof -
  from assms obtain p len r1 w1 body where pre:
      "read_prefix ops [] remaining deadline progress first_progress w = (Inr (p, len), r1, w1)"
    and len: "len \<le> max_len" "len \<le> r1"
    and body: "read_bounded ops len deadline progress w1 = (Inr body, w')"
    and f: "f = \<lparr>fr_wire = p @ body, fr_body_offset = length p\<rparr>" "remaining' = r1 - len"
    by (auto simp: read_frame_def Let_def not_less split: sum.splits prod.splits if_splits)
  from read_prefix_consumed [OF pre] obtain n k where
    "pending w = p @ pending w1" "remaining = r1 + length p" "length p \<le> 3" "0 < len"
    "varint p = Inr (Some (n, k))" "len = unat n" by auto
  with read_bounded_Inr [OF body] len f show ?thesis by (auto simp: frame_body_def)
qed

text \<open>Whatever the outcome, what was read is covered by the budget that was debited.\<close>

lemma read_frame_budget:
  assumes "read_frame ops max_len remaining deadline progress first_progress w = (r, remaining', w')"
  shows "\<exists>used. pending w = used @ pending w' \<and> length used + remaining' \<le> remaining \<and>
    (r = Inl Oversized \<longrightarrow> length used \<le> 3)"
proof -
  obtain q r1 w1 where pre:
      "read_prefix ops [] remaining deadline progress first_progress w = (q, r1, w1)"
    by (metis prod_cases3)
  from read_prefix_consumed [OF pre] obtain u where
    u: "pending w = u @ pending w1" "remaining = r1 + length u" "length u \<le> 3" by auto
  show ?thesis
  proof (cases "\<exists>p len. q = Inr (p, len) \<and> len \<le> max_len \<and> len \<le> r1")
    case True
    then obtain p len where q: "q = Inr (p, len)" "len \<le> max_len" "len \<le> r1" by blast
    obtain b w2 where rb: "read_bounded ops len deadline progress w1 = (b, w2)" by fastforce
    from read_bounded_consumed [OF rb] obtain v where
      v: "pending w1 = v @ pending w2" "case b of Inl e \<Rightarrow> length v < len | Inr bs \<Rightarrow> bs = v \<and> length v = len" by blast
    have "r \<noteq> Inl Oversized"
      using assms pre q rb
      by (auto simp: read_frame_def Let_def dest: read_bounded_errors split: sum.splits if_splits)
    with assms pre q rb u v show ?thesis
      by (intro exI [of _ "u @ v"]) (auto simp: read_frame_def Let_def split: sum.splits)
  next
    case False
    with assms pre u show ?thesis
      by (intro exI [of _ u]) (auto simp: read_frame_def split: sum.splits if_splits)
  qed
qed

end

text \<open>
  A peer whose bytes are already there: the clock stays before \<open>limit\<close>, and a read on a
  non-empty stream returns at least one byte before its deadline.
\<close>

locale prompt_source = byte_source +
  fixes limit :: instant
  assumes prompt_now: "fst (rd_now ops w) < limit"
    and prompt_read: "0 < n \<Longrightarrow> pending w \<noteq> [] \<Longrightarrow> \<exists>b bs w'. rd_read ops until n w = (ReadData (b # bs), w')"
begin

lemma read_bounded_prompt:
  assumes "limit \<le> absolute" "n \<le> length (pending w)"
  shows "\<exists>w'. read_bounded ops n absolute progress w = (Inr (take n (pending w)), w') \<and> pending w' = drop n (pending w)"
  using assms(2)
proof (induction n arbitrary: w rule: less_induct)
  case (less n)
  show ?case
  proof (cases "n = 0")
    case False
    obtain t w1 where now: "rd_now ops w = (t, w1)" by fastforce
    have p1: "pending w1 = pending w" using now_pending [OF now] .
    have t: "t < absolute" using prompt_now [of w] now assms(1) by simp
    have "pending w1 \<noteq> []" using False less.prems p1 by auto
    then obtain b bs w2 where rd: "rd_read ops (min absolute (t + progress)) n w1 = (ReadData (b # bs), w2)"
      using prompt_read False by blast
    from read_data [OF rd] have d: "length (b # bs) \<le> n" "pending w1 = (b # bs) @ pending w2" by auto
    have "n - length (b # bs) < n" "n - length (b # bs) \<le> length (pending w2)"
      using False d less.prems p1 by auto
    from less.IH [OF this] obtain w3 where
      "read_bounded ops (n - length (b # bs)) absolute progress w2 = (Inr (take (n - length (b # bs)) (pending w2)), w3)"
      "pending w3 = drop (n - length (b # bs)) (pending w2)" by blast
    with False now t rd d p1 show ?thesis
      by (auto simp: read_bounded.simps [of ops n] Let_def take_Cons' drop_Cons')
  qed simp
qed

lemma read_prefix_prompt:
  assumes "limit \<le> deadline" "0 < sint v" "length (put_varint_loop v) \<le> 3"
    and "prefix @ todo = put_varint_loop v" "todo \<noteq> []" "pending w = todo @ rest" "length todo \<le> remaining"
  shows "\<exists>w'. read_prefix ops prefix remaining deadline progress first_progress w
      = (Inr (put_varint_loop v, unat v), remaining - length todo, w') \<and> pending w' = rest"
  using assms(4-)
proof (induction todo arbitrary: prefix remaining w)
  case (Cons b todo)
  let ?wait = "if length prefix = 0 then first_progress else progress"
  have "(1 :: nat) \<le> length (pending w)" using Cons.prems by simp
  from read_bounded_prompt [OF assms(1) this, of ?wait] obtain w1 where
    rb: "read_bounded ops 1 deadline ?wait w = (Inr [b], w1)" and p1: "pending w1 = todo @ rest"
    using Cons.prems(3) by auto
  have r: "remaining \<noteq> 0" using Cons.prems by auto
  show ?case
  proof (cases "todo = []")
    case True
    then have pre: "prefix @ [b] = put_varint_loop v" using Cons.prems by simp
    have "varint (prefix @ [b]) = Inr (Some (v, length (put_varint_loop v)))"
      using varint_put_varint [of v "[]"] pre by simp
    with r rb p1 True pre assms(2) show ?thesis
      by (auto simp: read_prefix.simps [of ops prefix] Let_def)
  next
    case False
    have len: "length (prefix @ [b]) < length (put_varint_loop v)"
      using False by (auto simp flip: Cons.prems(1))
    have "prefix @ [b] = take (length (prefix @ [b])) (put_varint_loop v)"
      by (simp flip: Cons.prems(1))
    then have vi: "varint (prefix @ [b]) = Inr None" using varint_incomplete [OF len] by metis
    have "(prefix @ [b]) @ todo = put_varint_loop v" "length todo \<le> remaining - 1"
      using Cons.prems by auto
    from Cons.IH [OF this(1) False p1 this(2)] obtain w2 where
      "read_prefix ops (prefix @ [b]) (remaining - 1) deadline progress first_progress w1
        = (Inr (put_varint_loop v, unat v), remaining - 1 - length todo, w2)" "pending w2 = rest" by blast
    with r rb vi len assms(3) show ?thesis
      by (auto simp: read_prefix.simps [of ops prefix] Let_def)
  qed
qed simp

lemma read_frame_prompt:
  assumes "limit \<le> deadline" "0 < length body" "length body < 2 ^ 21" "length body \<le> max_len"
    and "pending w = frame body @ rest" "length (frame body) \<le> remaining"
  shows "\<exists>f w'. read_frame ops max_len remaining deadline progress first_progress w
      = (Inr f, remaining - length (frame body), w') \<and> fr_wire f = frame body \<and> frame_body f = body \<and> pending w' = rest"
proof -
  let ?v = "of_nat (length body) :: u32"
  have v: "unat ?v = length body" "0 < sint ?v"
    using assms(2,3) by (simp_all add: unsigned_of_nat take_bit_nat_eq_self signed_of_nat signed_take_bit_int_eq_self)
  have fr: "frame body = put_varint_loop ?v @ body" by (simp add: frame_def put_varint_def)
  have "length (put_varint_loop ?v) \<le> 3"
    using length_put_varint_le [of ?v 2] v assms(3) by simp
  from read_prefix_prompt [OF assms(1) v(2) this, of "[]" "put_varint_loop ?v" w "body @ rest" remaining progress first_progress]
  obtain w1 where pre: "read_prefix ops [] remaining deadline progress first_progress w
      = (Inr (put_varint_loop ?v, length body), remaining - length (put_varint_loop ?v), w1)"
    and p1: "pending w1 = body @ rest"
    using assms(5,6) v(1) by (auto simp: fr)
  have "length body \<le> length (pending w1)" using p1 by simp
  from read_bounded_prompt [OF assms(1) this, of progress] p1 obtain w2 where
    rb: "read_bounded ops (length body) deadline progress w1 = (Inr body, w2)" "pending w2 = rest" by auto
  with pre assms(4,6) show ?thesis
    by (auto simp: read_frame_def Let_def frame_body_def fr)
qed

end

section \<open>The in-memory reader\<close>

text \<open>
  The reader of the unit tests: a byte string that arrives in pieces. The state is the
  unread bytes and the sizes in which the transport delivers them; the paused clock of
  the test runtime stands still.
\<close>

definition mem_read :: "instant \<Rightarrow> nat \<Rightarrow> bytes \<times> nat list \<Rightarrow> read_outcome \<times> bytes \<times> nat list" where
  "mem_read until n s = (case s of (data, sizes) \<Rightarrow>
     let k = min n (max 1 (case sizes of [] \<Rightarrow> 1 | k # _ \<Rightarrow> k))
     in (ReadData (take k data), drop k data, tl sizes))"

definition mem_ops :: "(bytes \<times> nat list) reader_ops" where
  "mem_ops = \<lparr>rd_now = (\<lambda>s. (0, s)), rd_read = mem_read\<rparr>"

interpretation mem: byte_source mem_ops fst
  by unfold_locales (auto simp: mem_ops_def mem_read_def Let_def split: prod.splits)

interpretation mem: prompt_source mem_ops fst 1
proof unfold_locales
  fix n :: nat and w :: "bytes \<times> nat list" and until :: instant
  show "fst (rd_now mem_ops w) < 1" by (simp add: mem_ops_def)
  assume "0 < n" "fst w \<noteq> []"
  then show "\<exists>b bs w'. rd_read mem_ops until n w = (ReadData (b # bs), w')"
    by (cases w; cases "fst w"; cases n)
      (auto simp: mem_ops_def mem_read_def Let_def take_Cons' max_def split: list.splits)
qed

section \<open>Properties\<close>

text \<open>
  C28: A frame that \<^verbatim>\<open>read_frame\<close> returns is byte for byte what the peer sent, and the
  stream stands right behind it. The byte budget is debited by exactly the size of the
  frame, the body is non-empty and within the phase's maximum, and its length is what
  a length field of at most three bytes announced.
\<close>

theorem read_frame_sound:
  assumes "byte_source ops pending"
    and "read_frame ops max_len remaining deadline progress first_progress w = (Inr f, remaining', w')"
  shows "pending w = fr_wire f @ pending w' \<and> remaining = remaining' + length (fr_wire f) \<and>
    0 < length (frame_body f) \<and> length (frame_body f) \<le> max_len \<and> fr_body_offset f \<le> 3 \<and>
    (\<exists>n k. varint (take (fr_body_offset f) (fr_wire f)) = Inr (Some (n, k)) \<and> length (frame_body f) = unat n)"
  using byte_source.read_frame_ok [OF assms] .

lemma mem_frame_example:
  "\<exists>f w'. read_frame mem_ops 256 512 1 0 0 (frame [7, 7] @ [9], [1, 1]) = (Inr f, 512 - length (frame [7, 7]), w') \<and>
     fr_wire f = frame [7, 7] \<and> frame_body f = [7, 7] \<and> fst w' = [9]"
  by (rule mem.read_frame_prompt) (simp_all add: frame_def put_varint_def put_varint_loop.simps)

theorem read_frame_sound_witness:
  "\<exists>f w'. read_frame mem_ops 256 512 1 0 0 (frame [7, 7] @ [9], [1, 1]) = (Inr f, 512 - length (frame [7, 7]), w') \<and>
     frame [7, 7] @ [9] = fr_wire f @ fst w' \<and> length (frame_body f) \<le> 256"
proof -
  obtain f w' where "read_frame mem_ops 256 512 1 0 0 (frame [7, 7] @ [9], [1, 1]) = (Inr f, 512 - length (frame [7, 7]), w')"
    using mem_frame_example by blast
  with read_frame_sound [OF mem.byte_source_axioms this] show ?thesis by auto
qed

text \<open>
  On every outcome, including errors and timeouts, the bytes taken from the peer
  are covered by what the call debited from the connection's byte budget; a frame
  refused as oversized costs at most the three bytes of its length field, its body is
  never read.
\<close>

theorem read_frame_within_budget:
  assumes "byte_source ops pending"
    and "read_frame ops max_len remaining deadline progress first_progress w = (r, remaining', w')"
  shows "\<exists>used. pending w = used @ pending w' \<and> length used + remaining' \<le> remaining \<and>
    (r = Inl Oversized \<longrightarrow> length used \<le> 3)"
  using byte_source.read_frame_budget [OF assms] .

theorem read_frame_within_budget_witness:
  "\<exists>r remaining' w' used. read_frame mem_ops 1 512 1 0 0 (frame [7, 7] @ [9], [1]) = (r, remaining', w') \<and>
     frame [7, 7] @ [9] = used @ fst w' \<and> length used + remaining' \<le> 512"
proof -
  obtain r remaining' w' where rf: "read_frame mem_ops 1 512 1 0 0 (frame [7, 7] @ [9], [1]) = (r, remaining', w')"
    by (metis prod_cases3)
  with read_frame_within_budget [OF mem.byte_source_axioms rf] show ?thesis by auto
qed

text \<open>
  C38: Framing round trip: a body that \<^verbatim>\<open>frame\<close> wrapped is read back intact, under any
  split of the stream into chunks, as long as the peer is prompt, the body fits the
  phase and the budget and its length fits three VarInt bytes; what follows it in the
  stream is left for the next frame.
\<close>

theorem read_frame_roundtrip:
  assumes "prompt_source ops pending limit" "limit \<le> deadline"
    and "0 < length body" "length body < 2 ^ 21" "length body \<le> max_len"
    and "pending w = frame body @ rest" "length (frame body) \<le> remaining"
  shows "\<exists>f w'. read_frame ops max_len remaining deadline progress first_progress w
      = (Inr f, remaining - length (frame body), w') \<and> fr_wire f = frame body \<and> frame_body f = body \<and> pending w' = rest"
  using prompt_source.read_frame_prompt [OF assms] .

theorem read_frame_roundtrip_witness:
  "\<exists>f w'. read_frame mem_ops 256 512 1 0 0 (frame [7] @ [9], [3]) = (Inr f, 512 - length (frame [7]), w') \<and>
     fr_wire f = frame [7] \<and> frame_body f = [7] \<and> fst w' = [9]"
  by (rule read_frame_roundtrip [OF mem.prompt_source_axioms])
    (simp_all add: frame_def put_varint_def put_varint_loop.simps)

end
