(* ===== verification/Utf8.thy ===== *)
theory Utf8
  imports Prelude
begin

text \<open>
  The standard-library string operations the packet parsers use on \<^verbatim>\<open>&str\<close>: UTF-8
  validation and decoding to scalar values, control characters, the UTF-16 length,
  ASCII case folding. A \<^verbatim>\<open>&str\<close> is its bytes.
\<close>

definition is_cont :: "byte \<Rightarrow> bool" where
  "is_cont c \<longleftrightarrow> 0x80 \<le> c \<and> c \<le> 0xBF"

definition cont_bits :: "byte \<Rightarrow> nat" where
  "cont_bits c = unat c - 0x80"

text \<open>
  \<^verbatim>\<open>str::from_utf8\<close> accepts exactly the well-formed byte sequences of the Unicode
  standard: no overlong forms, no surrogates, nothing above U+10FFFF.
\<close>

fun utf8_decode :: "bytes \<Rightarrow> nat list option" where
  "utf8_decode [] = Some []"
| "utf8_decode (a # s) =
     (if a < 0x80 then map_option ((#) (unat a)) (utf8_decode s)
      else case s of
        [] \<Rightarrow> None
      | b # s \<Rightarrow>
          if 0xC2 \<le> a \<and> a \<le> 0xDF then
            (if is_cont b
             then map_option ((#) ((unat a - 0xC0) * 64 + cont_bits b)) (utf8_decode s) else None)
          else (case s of
            [] \<Rightarrow> None
          | c # s \<Rightarrow>
              if 0xE0 \<le> a \<and> a \<le> 0xEF then
                (if is_cont b \<and> is_cont c \<and> (a = 0xE0 \<longrightarrow> 0xA0 \<le> b) \<and> (a = 0xED \<longrightarrow> b \<le> 0x9F)
                 then map_option ((#) ((unat a - 0xE0) * 4096 + cont_bits b * 64 + cont_bits c)) (utf8_decode s)
                 else None)
              else (case s of
                [] \<Rightarrow> None
              | d # s \<Rightarrow>
                  if 0xF0 \<le> a \<and> a \<le> 0xF4 \<and> is_cont b \<and> is_cont c \<and> is_cont d \<and>
                     (a = 0xF0 \<longrightarrow> 0x90 \<le> b) \<and> (a = 0xF4 \<longrightarrow> b \<le> 0x8F)
                  then map_option ((#) ((unat a - 0xF0) * 262144 + cont_bits b * 4096 + cont_bits c * 64 + cont_bits d))
                         (utf8_decode s)
                  else None)))"

definition utf8_valid :: "bytes \<Rightarrow> bool" where
  "utf8_valid s \<longleftrightarrow> utf8_decode s \<noteq> None"

text \<open>\<^verbatim>\<open>chars()\<close> of a valid string.\<close>

definition str_chars :: "bytes \<Rightarrow> nat list" where
  "str_chars s = (case utf8_decode s of Some cs \<Rightarrow> cs | None \<Rightarrow> [])"

text \<open>\<^verbatim>\<open>char::is_control\<close>: the general category Cc.\<close>

definition is_control :: "nat \<Rightarrow> bool" where
  "is_control c \<longleftrightarrow> c < 0x20 \<or> 0x7F \<le> c \<and> c \<le> 0x9F"

text \<open>\<^verbatim>\<open>encode_utf16().count()\<close>.\<close>

definition utf16_count :: "bytes \<Rightarrow> nat" where
  "utf16_count s = sum_list (map (\<lambda>c. if c \<ge> 0x10000 then 2 else 1) (str_chars s))"

text \<open>\<^verbatim>\<open>split('\0').next()\<close> and \<^verbatim>\<open>contains('\0')\<close>: a zero byte is always the character U+0000.\<close>

definition str_base :: "bytes \<Rightarrow> bytes" where
  "str_base s = takeWhile (\<lambda>b. b \<noteq> 0) s"

definition str_has_nul :: "bytes \<Rightarrow> bool" where
  "str_has_nul s \<longleftrightarrow> 0 \<in> set s"

definition ascii_lower :: "byte \<Rightarrow> byte" where
  "ascii_lower b = (if 65 \<le> b \<and> b \<le> 90 then b + 32 else b)"

definition eq_ignore_ascii_case :: "bytes \<Rightarrow> bytes \<Rightarrow> bool" where
  "eq_ignore_ascii_case s t \<longleftrightarrow> map ascii_lower s = map ascii_lower t"

definition is_ascii_alphanumeric :: "byte \<Rightarrow> bool" where
  "is_ascii_alphanumeric b \<longleftrightarrow> 48 \<le> b \<and> b \<le> 57 \<or> 65 \<le> b \<and> b \<le> 90 \<or> 97 \<le> b \<and> b \<le> 122"

text \<open>An ASCII string is valid and its characters are its bytes.\<close>

lemma utf8_decode_ascii: "\<forall>b\<in>set s. b < 0x80 \<Longrightarrow> utf8_decode s = Some (map unat s)"
  by (induction s) auto

lemma utf8_valid_ascii: "\<forall>b\<in>set s. b < 0x80 \<Longrightarrow> utf8_valid s"
  by (simp add: utf8_valid_def utf8_decode_ascii)

end
