(* ===== verification/Net.thy ===== *)
theory Net
  imports Prelude
begin

text \<open>
  Addresses. \<^verbatim>\<open>IpAddr\<close> and \<^verbatim>\<open>SocketAddr\<close> of the standard library, the gate's
  own \<^verbatim>\<open>normalize\<close> and \<^verbatim>\<open>subnet\<close> (limiter.rs), and the interface of the
  \<^verbatim>\<open>ipnet\<close> crate that the runtime policy and the PROXY v2 trust check rely on.
  The crate is not part of the repository: its operations are the parameter
  record \<open>ipnet_ops\<close>, its documented behaviour the locale \<open>ipnet_crate\<close>.
\<close>

section \<open>Addresses\<close>

datatype ip_addr = IpV4 u32 | IpV6 u128

datatype socket_addr = SockV4 u32 u16 | SockV6 u128 u16 u32 u32

fun sock_ip :: "socket_addr \<Rightarrow> ip_addr" where
  "sock_ip (SockV4 a p) = IpV4 a"
| "sock_ip (SockV6 a p f s) = IpV6 a"

fun sock_port :: "socket_addr \<Rightarrow> u16" where
  "sock_port (SockV4 a p) = p"
| "sock_port (SockV6 a p f s) = p"

text \<open>\<^verbatim>\<open>SocketAddr::new\<close> sets flow information and scope id to zero.\<close>

fun sock_new :: "ip_addr \<Rightarrow> u16 \<Rightarrow> socket_addr" where
  "sock_new (IpV4 a) p = SockV4 a p"
| "sock_new (IpV6 a) p = SockV6 a p 0 0"

lemma sock_new_sel [simp]: "sock_ip (sock_new i p) = i" "sock_port (sock_new i p) = p"
  by (cases i; simp)+

fun is_ipv6 :: "ip_addr \<Rightarrow> bool" where
  "is_ipv6 (IpV4 a) = False"
| "is_ipv6 (IpV6 a) = True"

definition is_ipv4 :: "ip_addr \<Rightarrow> bool" where
  "is_ipv4 a = (\<not> is_ipv6 a)"

fun is_unspecified :: "ip_addr \<Rightarrow> bool" where
  "is_unspecified (IpV4 a) = (a = 0)"
| "is_unspecified (IpV6 a) = (a = 0)"

fun is_multicast :: "ip_addr \<Rightarrow> bool" where
  "is_multicast (IpV4 a) = (drop_bit 28 a = 0xE)"
| "is_multicast (IpV6 a) = (drop_bit 120 a = 0xFF)"

fun is_loopback :: "ip_addr \<Rightarrow> bool" where
  "is_loopback (IpV4 a) = (drop_bit 24 a = 127)"
| "is_loopback (IpV6 a) = (a = 1)"

text \<open>\<^verbatim>\<open>Ipv6Addr::to_ipv4_mapped\<close>: the addresses \<^verbatim>\<open>::ffff:a.b.c.d\<close>.\<close>

definition to_ipv4_mapped :: "u128 \<Rightarrow> u32 option" where
  "to_ipv4_mapped v = (if drop_bit 32 v = 0xFFFF then Some (ucast v) else None)"

definition normalize :: "ip_addr \<Rightarrow> ip_addr" where
  "normalize ip = (case ip of
     IpV6 v \<Rightarrow> (case to_ipv4_mapped v of Some a \<Rightarrow> IpV4 a | None \<Rightarrow> ip)
   | IpV4 _ \<Rightarrow> ip)"

definition subnet :: "ip_addr \<Rightarrow> nat \<Rightarrow> nat \<Rightarrow> ip_addr" where
  "subnet ip v4 v6 = (case ip of
     IpV4 v \<Rightarrow> IpV4 (v AND (if v4 = 0 then 0 else push_bit (32 - v4) (- 1)))
   | IpV6 v \<Rightarrow> IpV6 (v AND (if v6 = 0 then 0 else push_bit (128 - v6) (- 1))))"

text \<open>The mapped address of an IPv4 address, for statements about dual-stack peers.\<close>

definition mapped :: "u32 \<Rightarrow> u128" where
  "mapped a = push_bit 32 0xFFFF OR ucast a"

lemma mapped_parts:
  fixes x :: u128 and a :: u32
  shows "drop_bit 32 (push_bit 32 x OR ucast a) = take_bit 96 x" (is ?hi)
    and "ucast (push_bit 32 x OR ucast a :: u128) = a" (is ?lo)
proof -
  show ?hi by (rule bit_word_eqI) (auto simp: bit_simps dest: bit_imp_le_length)
  show ?lo by (rule bit_word_eqI) (auto simp: bit_simps)
qed

lemma to_ipv4_mapped_mapped [simp]: "to_ipv4_mapped (mapped a) = Some a"
  unfolding to_ipv4_mapped_def mapped_def mapped_parts by simp

lemma normalize_idem [simp]: "normalize (normalize ip) = normalize ip"
  by (auto simp: normalize_def split: ip_addr.splits option.splits)

section \<open>Netmasks\<close>

definition netmask :: "nat \<Rightarrow> 'a::len word" where
  "netmask p = push_bit (LENGTH('a) - p) (- 1)"

lemma netmask_zero [simp]: "netmask 0 = (0 :: 'a::len word)"
  by (simp add: netmask_def)

lemmas netmask_eval = netmask_def mask_eq_exp_minus_1

lemma netmask_32: "push_bit (32 - p) (- 1) = (netmask p :: u32)"
  and netmask_128: "push_bit (128 - p) (- 1) = (netmask p :: u128)"
  by (simp_all add: netmask_def)

lemma subnet_netmask:
  "subnet (IpV4 v) p q = IpV4 (v AND netmask p)"
  "subnet (IpV6 w) p q = IpV6 (w AND netmask q)"
  by (simp_all add: subnet_def netmask_32 netmask_128 del: push_bit_minus_one_eq_not_mask)

text \<open>A source and everything in its configured prefix share one prefix identity.\<close>

lemma subnet_idem [simp]: "subnet (subnet ip p q) p q = subnet ip p q"
  by (cases ip) (simp_all add: subnet_netmask and.assoc)

lemma bit_netmask: "bit (netmask p :: 'a::len word) i \<longleftrightarrow> LENGTH('a) - p \<le> i \<and> i < LENGTH('a)"
  by (auto simp: netmask_def bit_simps)

lemma and_netmask_shift:
  fixes a :: "'a::len word"
  shows "a AND netmask p = push_bit (LENGTH('a) - p) (drop_bit (LENGTH('a) - p) a)"
  by (rule bit_word_eqI) (auto simp: bit_netmask bit_simps)

lemma drop_and_netmask:
  fixes a :: "'a::len word"
  shows "drop_bit (LENGTH('a) - p) (a AND netmask p) = drop_bit (LENGTH('a) - p) a"
  by (rule bit_word_eqI) (auto simp: bit_netmask bit_simps dest: bit_imp_le_length)

lemma and_netmask_eq_iff:
  fixes a b :: "'a::len word"
  shows "a AND netmask p = b AND netmask p \<longleftrightarrow> drop_bit (LENGTH('a) - p) a = drop_bit (LENGTH('a) - p) b"
  by (metis and_netmask_shift drop_and_netmask)

lemma subnet_eq_iff:
  "subnet (IpV4 a) p q = subnet (IpV4 b) p q \<longleftrightarrow> drop_bit (32 - p) a = drop_bit (32 - p) b"
  "subnet (IpV6 v) p q = subnet (IpV6 w) p q \<longleftrightarrow> drop_bit (128 - q) v = drop_bit (128 - q) w"
  by (simp_all add: subnet_netmask and_netmask_eq_iff)

section \<open>The ipnet crate\<close>

datatype ('a, 'b) ip_net = NetV4 'a | NetV6 'b

record ('a, 'b) ipnet_ops =
  net_contains :: "('a, 'b) ip_net \<Rightarrow> ip_addr \<Rightarrow> bool"
  prefix_len4 :: "'a \<Rightarrow> nat"
  network4 :: "'a \<Rightarrow> u32"
  prefix_len6 :: "'b \<Rightarrow> nat"
  network6 :: "'b \<Rightarrow> u128"

definition net_prefix_len :: "('a, 'b) ipnet_ops \<Rightarrow> ('a, 'b) ip_net \<Rightarrow> nat" where
  "net_prefix_len ops n = (case n of NetV4 a \<Rightarrow> prefix_len4 ops a | NetV6 b \<Rightarrow> prefix_len6 ops b)"

fun net_is_ipv6 :: "('a, 'b) ip_net \<Rightarrow> bool" where
  "net_is_ipv6 (NetV4 a) = False"
| "net_is_ipv6 (NetV6 b) = True"

text \<open>
  What the crate documents: the prefix length is at most the address width, and a
  network contains exactly the addresses of its family whose leading bits are the
  network address.
\<close>

locale ipnet_crate =
  fixes ops :: "('a, 'b) ipnet_ops"
  assumes prefix_len4_le: "prefix_len4 ops a \<le> 32"
    and prefix_len6_le: "prefix_len6 ops b \<le> 128"
    and contains4: "net_contains ops (NetV4 a) (IpV4 v) \<longleftrightarrow> v AND netmask (prefix_len4 ops a) = network4 ops a"
    and contains6: "net_contains ops (NetV6 b) (IpV6 w) \<longleftrightarrow> w AND netmask (prefix_len6 ops b) = network6 ops b"
    and contains46: "\<not> net_contains ops (NetV4 a) (IpV6 w)"
    and contains64: "\<not> net_contains ops (NetV6 b) (IpV4 v)"
begin

lemmas contains_laws = contains4 contains6 contains46 contains64

text \<open>A zero-length prefix matches its whole family when its network address is zero.\<close>

lemma contains_all4: "prefix_len4 ops a = 0 \<Longrightarrow> network4 ops a = 0 \<Longrightarrow> net_contains ops (NetV4 a) (IpV4 v)"
  by (simp add: contains4)

text \<open>Membership only depends on the enclosing subnet of the same length.\<close>

lemma contains_subnet4:
  "net_contains ops (NetV4 a) (subnet (IpV4 v) (prefix_len4 ops a) q) \<longleftrightarrow> net_contains ops (NetV4 a) (IpV4 v)"
  by (simp add: contains4 subnet_netmask and.assoc)

end

text \<open>CIDR blocks as address and prefix length: the crate's own representation.\<close>

datatype cidr4 = Cidr4 u32 nat

datatype cidr6 = Cidr6 u128 nat

fun cidr4_len :: "cidr4 \<Rightarrow> nat" where
  "cidr4_len (Cidr4 a p) = min 32 p"

fun cidr4_network :: "cidr4 \<Rightarrow> u32" where
  "cidr4_network (Cidr4 a p) = a AND netmask (min 32 p)"

fun cidr6_len :: "cidr6 \<Rightarrow> nat" where
  "cidr6_len (Cidr6 a p) = min 128 p"

fun cidr6_network :: "cidr6 \<Rightarrow> u128" where
  "cidr6_network (Cidr6 a p) = a AND netmask (min 128 p)"

fun cidr_contains :: "(cidr4, cidr6) ip_net \<Rightarrow> ip_addr \<Rightarrow> bool" where
  "cidr_contains (NetV4 n) (IpV4 v) = (v AND netmask (cidr4_len n) = cidr4_network n)"
| "cidr_contains (NetV6 n) (IpV6 v) = (v AND netmask (cidr6_len n) = cidr6_network n)"
| "cidr_contains (NetV4 n) (IpV6 v) = False"
| "cidr_contains (NetV6 n) (IpV4 v) = False"

definition cidr_ops :: "(cidr4, cidr6) ipnet_ops" where
  "cidr_ops = \<lparr>net_contains = cidr_contains, prefix_len4 = cidr4_len, network4 = cidr4_network,
     prefix_len6 = cidr6_len, network6 = cidr6_network\<rparr>"

lemma cidr_ops_sel [simp]:
  "net_contains cidr_ops = cidr_contains" "prefix_len4 cidr_ops = cidr4_len"
  "network4 cidr_ops = cidr4_network" "prefix_len6 cidr_ops = cidr6_len"
  "network6 cidr_ops = cidr6_network"
  by (simp_all add: cidr_ops_def)

interpretation cidr: ipnet_crate cidr_ops
proof unfold_locales
  fix a :: cidr4 and b :: cidr6
  show "prefix_len4 cidr_ops a \<le> 32" by (cases a) simp
  show "prefix_len6 cidr_ops b \<le> 128" by (cases b) simp
qed simp_all

end
