(* ===== verification/Float64.thy ===== *)
theory Float64
  imports Prelude "HOL-Library.Log_Nat"
begin

text \<open>
  The \<^verbatim>\<open>f64\<close> arithmetic of the token buckets and churn scores: IEEE 754 binary64
  values with round-to-nearest, ties to even, gradual underflow and overflow to
  infinity. A finite value is the rational it denotes (the sign of zero is not
  kept: no operation of the gate observes it). Every arithmetic operation is the
  exact rational operation followed by \<open>f64_round\<close>, so that theorems about
  buckets hold for the rounded arithmetic the program performs.
\<close>

section \<open>Rounding\<close>

text \<open>\<open>ilog2 x\<close> is the exponent \<open>k\<close> with \<open>2 ^ k \<le> x < 2 ^ (k + 1)\<close>, for positive \<open>x\<close>.\<close>

definition ilog2 :: "rat \<Rightarrow> int" where
  "ilog2 x = (case quotient_of x of (p, q) \<Rightarrow>
     let k = bitlen p - bitlen q in if 2 powi k \<le> x then k else k - 1)"

definition round_half_even :: "rat \<Rightarrow> int" where
  "round_half_even y = (let f = \<lfloor>y\<rfloor>; d = y - of_int f in
     if d < 1 / 2 then f else if d > 1 / 2 then f + 1 else if even f then f else f + 1)"

text \<open>The exponent of the last place: 53 significant bits, never below \<open>2 ^ -1074\<close>.\<close>

definition ulp_exp :: "rat \<Rightarrow> int" where
  "ulp_exp x = max (-1074) (ilog2 x - 52)"

definition round_pos :: "rat \<Rightarrow> rat" where
  "round_pos x = (if x = 0 then 0
     else of_int (round_half_even (x / 2 powi ulp_exp x)) * 2 powi ulp_exp x)"

definition f64_round :: "rat \<Rightarrow> rat" where
  "f64_round x = (if x < 0 then - round_pos (- x) else round_pos x)"

lemma bitlen_powi_bounds:
  assumes "0 < (p :: int)"
  shows "2 powi (bitlen p - 1) \<le> (of_int p :: rat)" and "(of_int p :: rat) < 2 powi bitlen p"
proof -
  from bitlen_bounds [OF assms] have b: "2 ^ nat (bitlen p - 1) \<le> p" "p < 2 ^ nat (bitlen p)"
    by auto
  have pos: "0 < bitlen p"
    using assms bitlen_nonneg [of p] bitlen_eq_zero_iff [of p] by linarith
  from b(1) have "(of_int (2 ^ nat (bitlen p - 1)) :: rat) \<le> of_int p"
    by (rule of_int_le_iff [THEN iffD2])
  with pos show "2 powi (bitlen p - 1) \<le> (of_int p :: rat)"
    by (simp add: power_int_nonneg_exp)
  from b(2) have "(of_int p :: rat) < of_int (2 ^ nat (bitlen p))"
    by (rule of_int_less_iff [THEN iffD2])
  with pos show "(of_int p :: rat) < 2 powi bitlen p"
    by (simp add: power_int_nonneg_exp)
qed

lemma ilog2_bounds:
  assumes "0 < x"
  shows "2 powi ilog2 x \<le> x" and "x < 2 powi (ilog2 x + 1)"
proof -
  obtain p q where pq: "quotient_of x = (p, q)" by (cases "quotient_of x")
  have q: "0 < q" using quotient_of_denom_pos [OF pq] .
  have x: "x = of_int p / of_int q" using quotient_of_div [OF pq] .
  have p: "0 < p" using assms q by (simp add: x zero_less_divide_iff)
  let ?k = "bitlen p - bitlen q"
  have "x < 2 powi bitlen p / 2 powi (bitlen q - 1)"
    unfolding x using bitlen_powi_bounds [OF p] bitlen_powi_bounds [OF q] q p
    by (intro frac_less) auto
  then have up: "x < 2 powi (?k + 1)"
    by (simp add: power_int_diff power_int_add field_simps)
  have "2 powi (bitlen p - 1) / 2 powi bitlen q \<le> x"
    unfolding x using bitlen_powi_bounds [OF p] bitlen_powi_bounds [OF q] q p
    by (intro frac_le) auto
  then have lo: "2 powi (?k - 1) \<le> x"
    by (simp add: power_int_diff power_int_add field_simps)
  show "2 powi ilog2 x \<le> x" using lo by (simp add: ilog2_def pq Let_def)
  show "x < 2 powi (ilog2 x + 1)" using up by (simp add: ilog2_def pq Let_def)
qed

lemma powi2_less_iff: "(2 powi a :: rat) < 2 powi b \<longleftrightarrow> a < b"
  by (meson linorder_not_le one_less_numeral_iff order_less_imp_not_less power_int_strict_increasing
      power_int_increasing one_le_numeral semiring_norm(76))

lemma ilog2_mono: "0 < x \<Longrightarrow> x \<le> y \<Longrightarrow> ilog2 x \<le> ilog2 y"
  using ilog2_bounds [of x] ilog2_bounds [of y] powi2_less_iff [of "ilog2 x" "ilog2 y + 1"] by force

lemma round_half_even_bounds: "\<lfloor>y\<rfloor> \<le> round_half_even y" "round_half_even y \<le> \<lfloor>y\<rfloor> + 1"
  by (auto simp: round_half_even_def Let_def)

lemma round_half_even_int [simp]: "round_half_even (of_int n) = n"
  by (simp add: round_half_even_def)

lemma round_half_even_mono: "y \<le> z \<Longrightarrow> round_half_even y \<le> round_half_even z"
proof (cases "\<lfloor>y\<rfloor> = \<lfloor>z\<rfloor>")
  case True
  then show "y \<le> z \<Longrightarrow> ?thesis" by (auto simp: round_half_even_def Let_def)
next
  case False
  assume "y \<le> z"
  with False have "\<lfloor>y\<rfloor> + 1 \<le> \<lfloor>z\<rfloor>" using floor_mono by fastforce
  then show ?thesis using round_half_even_bounds [of y] round_half_even_bounds [of z] by linarith
qed

lemma round_half_even_le: "y \<le> of_int n \<Longrightarrow> round_half_even y \<le> n"
  using round_half_even_mono [of y "of_int n"] by simp

lemma round_half_even_ge: "of_int n \<le> y \<Longrightarrow> n \<le> round_half_even y"
  using round_half_even_mono [of "of_int n" y] by simp

lemma round_pos_zero [simp]: "round_pos 0 = 0"
  by (simp add: round_pos_def)

lemma round_pos_nonneg: "0 \<le> x \<Longrightarrow> 0 \<le> round_pos x"
  by (auto simp: round_pos_def intro!: mult_nonneg_nonneg round_half_even_ge)

lemma round_pos_le_pow:
  assumes "0 < x" "x \<le> 2 powi k" "ulp_exp x \<le> k"
  shows "round_pos x \<le> 2 powi k"
proof -
  let ?e = "ulp_exp x"
  have "x / 2 powi ?e \<le> of_int (2 ^ nat (k - ?e))"
    using assms by (simp add: field_simps flip: power_int_add power_int_nonneg_exp)
  then have "round_half_even (x / 2 powi ?e) \<le> 2 ^ nat (k - ?e)"
    by (rule round_half_even_le)
  then have "(of_int (round_half_even (x / 2 powi ?e)) :: rat) \<le> of_int (2 ^ nat (k - ?e))"
    by (rule of_int_le_iff [THEN iffD2])
  also have "\<dots> = 2 powi (k - ?e)" using assms by (simp add: power_int_nonneg_exp)
  finally have "of_int (round_half_even (x / 2 powi ?e)) * 2 powi ?e \<le> (2 powi (k - ?e) * 2 powi ?e :: rat)"
    by (rule mult_right_mono) simp
  with assms show ?thesis by (simp add: round_pos_def flip: power_int_add)
qed

lemma round_pos_ge_pow:
  assumes "0 < x" "2 powi k \<le> x" "ulp_exp x \<le> k"
  shows "2 powi k \<le> round_pos x"
proof -
  let ?e = "ulp_exp x"
  have "of_int (2 ^ nat (k - ?e)) \<le> x / 2 powi ?e"
    using assms by (simp add: field_simps flip: power_int_add power_int_nonneg_exp)
  then have "2 ^ nat (k - ?e) \<le> round_half_even (x / 2 powi ?e)"
    by (rule round_half_even_ge)
  then have "(of_int (2 ^ nat (k - ?e)) :: rat) \<le> of_int (round_half_even (x / 2 powi ?e))"
    by (rule of_int_le_iff [THEN iffD2])
  then have "(2 powi (k - ?e) * 2 powi ?e :: rat) \<le> of_int (round_half_even (x / 2 powi ?e)) * 2 powi ?e"
    using assms by (intro mult_right_mono) (simp_all add: power_int_nonneg_exp)
  with assms show ?thesis by (simp add: round_pos_def flip: power_int_add)
qed

lemma round_pos_mono:
  assumes "0 < x" "x \<le> y"
  shows "round_pos x \<le> round_pos y"
proof (cases "ulp_exp x = ulp_exp y")
  case True
  have "round_half_even (x / 2 powi ulp_exp y) \<le> round_half_even (y / 2 powi ulp_exp y)"
    using assms by (intro round_half_even_mono divide_right_mono) auto
  with True assms show ?thesis by (simp add: round_pos_def mult_right_mono)
next
  case False
  have y: "0 < y" using assms by simp
  have le: "ulp_exp x \<le> ulp_exp y"
    using ilog2_mono [OF assms] by (simp add: ulp_exp_def)
  with False have lt: "ulp_exp x < ulp_exp y" by simp
  then have k: "ulp_exp y = ilog2 y - 52" by (auto simp: ulp_exp_def)
  from lt k have "ilog2 x < ilog2 y" by (auto simp: ulp_exp_def)
  then have "2 powi (ilog2 x + 1) \<le> (2 powi ilog2 y :: rat)"
    by (intro power_int_increasing) auto
  with ilog2_bounds [OF assms(1)] have "x \<le> 2 powi ilog2 y" by simp
  then have "round_pos x \<le> 2 powi ilog2 y"
    using assms lt k by (intro round_pos_le_pow) auto
  also have "\<dots> \<le> round_pos y"
    using ilog2_bounds [OF y] k y by (intro round_pos_ge_pow) auto
  finally show ?thesis .
qed

lemma f64_round_zero [simp]: "f64_round 0 = 0"
  by (simp add: f64_round_def)

lemma f64_round_nonneg: "0 \<le> x \<Longrightarrow> 0 \<le> f64_round x"
  by (simp add: f64_round_def round_pos_nonneg)

lemma f64_round_mono: "x \<le> y \<Longrightarrow> f64_round x \<le> f64_round y"
proof -
  assume le: "x \<le> y"
  consider "0 < x" | "x = 0" | "x < 0" "0 \<le> y" | "x < 0" "y < 0" by linarith
  then show ?thesis
  proof cases
    case 1
    with le show ?thesis by (simp add: f64_round_def round_pos_mono)
  next
    case 2
    with le show ?thesis by (simp add: f64_round_def round_pos_nonneg)
  next
    case 3
    then show ?thesis
      using round_pos_nonneg [of "- x"] round_pos_nonneg [of y] by (simp add: f64_round_def)
  next
    case 4
    with le show ?thesis by (simp add: f64_round_def round_pos_mono)
  qed
qed

text \<open>Values with at most 53 significant bits are exact; in particular, small naturals.\<close>

lemma round_pos_of_nat:
  assumes "n < 2 ^ 53"
  shows "round_pos (of_nat n) = of_nat n"
proof (cases "n = 0")
  case False
  let ?x = "of_nat n :: rat" and ?e = "ulp_exp (of_nat n)"
  have x: "0 < ?x" using False by simp
  have "?x < of_nat (2 ^ 53)" using assms of_nat_less_iff by blast
  then have "2 powi ilog2 ?x < (2 powi 53 :: rat)"
    using ilog2_bounds(1) [OF x] by (simp add: power_int_nonneg_exp)
  then have "ilog2 ?x < 53" by (simp only: powi2_less_iff)
  then have e: "?e \<le> 0" by (simp add: ulp_exp_def)
  have m: "?x / 2 powi ?e = of_int (int n * 2 ^ nat (- ?e))"
    using e by (simp add: power_int_def field_simps)
  have "round_pos ?x = ?x / 2 powi ?e * 2 powi ?e"
    using x unfolding round_pos_def m by (simp only: round_half_even_int) simp
  then show ?thesis by simp
qed simp

lemma f64_round_of_nat [simp]: "n < 2 ^ 53 \<Longrightarrow> f64_round (of_nat n) = of_nat n"
  by (simp add: f64_round_def round_pos_of_nat)

lemma f64_round_numeral [simp]: "numeral n < (2 ^ 53 :: nat) \<Longrightarrow> f64_round (numeral n) = numeral n"
  using f64_round_of_nat [of "numeral n"] by simp

lemma f64_round_one [simp]: "f64_round 1 = 1"
  using f64_round_of_nat [of 1] by simp

section \<open>Values and operations\<close>

datatype f64 = Fin rat | PInf | NInf | NaN

definition f64_of_rat :: "rat \<Rightarrow> f64" where
  "f64_of_rat x = (let r = f64_round x in
     if r \<ge> 2 ^ 1024 then PInf else if r \<le> - (2 ^ 1024) then NInf else Fin r)"

text \<open>\<^verbatim>\<open>is_finite\<close> and the integer casts \<^verbatim>\<open>as f64\<close>.\<close>

definition is_finite :: "f64 \<Rightarrow> bool" where
  "is_finite x = (case x of Fin _ \<Rightarrow> True | _ \<Rightarrow> False)"

definition f64_of_nat :: "nat \<Rightarrow> f64" where
  "f64_of_nat n = f64_of_rat (of_nat n)"

instantiation f64 :: "{zero, one, plus, minus, times, inverse, uminus, ord}"
begin

definition zero_f64 :: f64 where
  "zero_f64 = Fin 0"

definition one_f64 :: f64 where
  "one_f64 = Fin 1"

fun uminus_f64 :: "f64 \<Rightarrow> f64" where
  "uminus_f64 (Fin a) = Fin (- a)"
| "uminus_f64 PInf = NInf"
| "uminus_f64 NInf = PInf"
| "uminus_f64 NaN = NaN"

fun plus_f64 :: "f64 \<Rightarrow> f64 \<Rightarrow> f64" where
  "plus_f64 (Fin a) (Fin b) = f64_of_rat (a + b)"
| "plus_f64 NaN y = NaN"
| "plus_f64 x NaN = NaN"
| "plus_f64 PInf NInf = NaN"
| "plus_f64 NInf PInf = NaN"
| "plus_f64 PInf y = PInf"
| "plus_f64 x PInf = PInf"
| "plus_f64 NInf y = NInf"
| "plus_f64 x NInf = NInf"

definition minus_f64 :: "f64 \<Rightarrow> f64 \<Rightarrow> f64" where
  "minus_f64 x y = x + (- y)"

text \<open>The sign of a non-NaN value, and the infinity of a sign.\<close>

fun times_f64 :: "f64 \<Rightarrow> f64 \<Rightarrow> f64" where
  "times_f64 (Fin a) (Fin b) = f64_of_rat (a * b)"
| "times_f64 NaN y = NaN"
| "times_f64 x NaN = NaN"
| "times_f64 (Fin a) y = (if a = 0 then NaN else if a > 0 then y else - y)"
| "times_f64 x (Fin b) = (if b = 0 then NaN else if b > 0 then x else - x)"
| "times_f64 x y = (if x = y then PInf else NInf)"

fun divide_f64 :: "f64 \<Rightarrow> f64 \<Rightarrow> f64" where
  "divide_f64 (Fin a) (Fin b) =
     (if b \<noteq> 0 then f64_of_rat (a / b) else if a = 0 then NaN else if a > 0 then PInf else NInf)"
| "divide_f64 NaN y = NaN"
| "divide_f64 x NaN = NaN"
| "divide_f64 (Fin a) y = Fin 0"
| "divide_f64 x (Fin b) = (if b \<ge> 0 then x else - x)"
| "divide_f64 x y = NaN"

definition inverse_f64 :: "f64 \<Rightarrow> f64" where
  "inverse_f64 x = divide (Fin 1) x"

text \<open>IEEE comparison: false as soon as one side is a NaN.\<close>

fun less_eq_f64 :: "f64 \<Rightarrow> f64 \<Rightarrow> bool" where
  "less_eq_f64 (Fin a) (Fin b) \<longleftrightarrow> a \<le> b"
| "less_eq_f64 NaN y \<longleftrightarrow> False"
| "less_eq_f64 x NaN \<longleftrightarrow> False"
| "less_eq_f64 x PInf \<longleftrightarrow> True"
| "less_eq_f64 NInf y \<longleftrightarrow> True"
| "less_eq_f64 x y \<longleftrightarrow> False"

definition less_f64 :: "f64 \<Rightarrow> f64 \<Rightarrow> bool" where
  "less_f64 x y \<longleftrightarrow> x \<le> y \<and> \<not> y \<le> x"

instance ..

end

definition f64_eq :: "f64 \<Rightarrow> f64 \<Rightarrow> bool" where
  "f64_eq x y \<longleftrightarrow> x \<le> y \<and> y \<le> x"

text \<open>\<^verbatim>\<open>f64::min\<close> and \<^verbatim>\<open>f64::max\<close> return the other argument when one is a NaN.\<close>

definition f64_min :: "f64 \<Rightarrow> f64 \<Rightarrow> f64" where
  "f64_min x y = (if x = NaN then y else if y = NaN then x else if x \<le> y then x else y)"

definition f64_max :: "f64 \<Rightarrow> f64 \<Rightarrow> f64" where
  "f64_max x y = (if x = NaN then y else if y = NaN then x else if x \<le> y then y else x)"

text \<open>\<^verbatim>\<open>Duration::as_secs_f64\<close>.\<close>

definition as_secs_f64 :: "duration \<Rightarrow> f64" where
  "as_secs_f64 d = f64_of_nat (d div nanos_per_sec) + f64_of_nat (d mod nanos_per_sec) / f64_of_nat nanos_per_sec"

section \<open>Facts about non-negative values\<close>

text \<open>\<open>0 \<le> x\<close> excludes NaN and the negative infinity; the buckets only hold such values.\<close>

lemmas f64_simps = zero_f64_def one_f64_def less_f64_def f64_eq_def minus_f64_def

lemma f64_le_const [simp]:
  "0 \<le> Fin a \<longleftrightarrow> 0 \<le> a" "1 \<le> Fin a \<longleftrightarrow> 1 \<le> a" "0 \<le> PInf" "1 \<le> PInf"
  "\<not> 0 \<le> NaN" "\<not> 1 \<le> NaN" "\<not> 0 \<le> NInf" "\<not> 1 \<le> NInf"
  by (simp_all add: f64_simps)

lemma f64_cases_nonneg:
  assumes "0 \<le> (x :: f64)"
  obtains (Fin) a where "x = Fin a" "0 \<le> a" | (PInf) "x = PInf"
  using assms by (cases x) (auto simp: f64_simps)

lemma f64_refl [simp]: "0 \<le> (x :: f64) \<Longrightarrow> x \<le> x"
  by (erule f64_cases_nonneg) auto

lemma f64_trans: "(x :: f64) \<le> y \<Longrightarrow> y \<le> z \<Longrightarrow> x \<le> z"
  by (cases x; cases y; cases z) auto

lemma f64_linear: "0 \<le> (x :: f64) \<Longrightarrow> 0 \<le> y \<Longrightarrow> x \<le> y \<or> y \<le> x"
  by (auto elim!: f64_cases_nonneg)

lemma f64_of_rat_nonneg [simp]: "0 \<le> x \<Longrightarrow> 0 \<le> f64_of_rat x"
proof -
  assume "0 \<le> x"
  then have "0 \<le> f64_round x" by (rule f64_round_nonneg)
  moreover have "- (2 ^ 1024) < (0 :: rat)" by simp
  ultimately have "\<not> f64_round x \<le> - (2 ^ 1024)" by linarith
  with \<open>0 \<le> f64_round x\<close> show ?thesis by (simp add: f64_of_rat_def Let_def f64_simps)
qed

lemmas f64_of_rat_nonneg_Fin [simp] = f64_of_rat_nonneg [unfolded zero_f64_def]

lemma f64_of_nat_nonneg [simp]: "0 \<le> f64_of_nat n"
  by (simp add: f64_of_nat_def)

lemma f64_of_rat_le:
  assumes "x \<le> of_nat k" "0 \<le> x" "k < 2 ^ 53"
  shows "f64_of_rat x \<le> Fin (of_nat k)"
proof -
  have k: "f64_round x \<le> of_nat k"
    using f64_round_mono [OF assms(1)] assms(3) by simp
  have "(of_nat k :: rat) < of_nat (2 ^ 1024)"
    unfolding of_nat_less_iff using assms(3) by (rule less_trans) simp
  with k f64_round_nonneg [OF assms(2)] show ?thesis
    by (simp add: f64_of_rat_def Let_def)
qed

lemma f64_of_nat_exact [simp]: "n < 2 ^ 53 \<Longrightarrow> f64_of_nat n = Fin (of_nat n)"
proof -
  assume n: "n < 2 ^ 53"
  have "(of_nat n :: rat) < of_nat (2 ^ 1024)"
    unfolding of_nat_less_iff using n by (rule less_trans) simp
  then show ?thesis using n by (simp add: f64_of_nat_def f64_of_rat_def Let_def)
qed

lemma f64_add_nonneg: "0 \<le> (x :: f64) \<Longrightarrow> 0 \<le> y \<Longrightarrow> 0 \<le> x + y"
  by (erule f64_cases_nonneg; erule f64_cases_nonneg) (auto simp: f64_simps)

lemma f64_mult_nonneg: "0 \<le> x \<Longrightarrow> 0 < b \<Longrightarrow> 0 \<le> x * Fin b"
  by (erule f64_cases_nonneg) (auto simp: f64_simps)

lemma f64_divide_nonneg: "0 \<le> x \<Longrightarrow> 0 < b \<Longrightarrow> 0 \<le> x / Fin b"
  by (erule f64_cases_nonneg) (auto simp: f64_simps)

lemma as_secs_f64_nonneg [simp]: "0 \<le> as_secs_f64 d"
  unfolding as_secs_f64_def by (intro f64_add_nonneg) (simp_all add: f64_divide_nonneg)

lemma as_secs_f64_zero [simp]: "as_secs_f64 0 = 0"
  by (simp add: as_secs_f64_def f64_of_rat_def Let_def f64_simps)

lemma f64_zero_mult [simp]: "0 * Fin b = 0"
  by (simp add: f64_of_rat_def Let_def f64_simps)

lemma f64_min_le: "0 \<le> x \<Longrightarrow> 0 \<le> y \<Longrightarrow> f64_min x y \<le> y"
  using f64_linear [of x y] by (auto simp: f64_min_def)

lemma f64_min_le1: "0 \<le> x \<Longrightarrow> 0 \<le> y \<Longrightarrow> f64_min x y \<le> x"
  using f64_linear [of x y] by (auto simp: f64_min_def)

lemma f64_min_nonneg: "0 \<le> x \<Longrightarrow> 0 \<le> y \<Longrightarrow> 0 \<le> f64_min x y"
  by (auto simp: f64_min_def)

lemma f64_max_ge: "y \<noteq> NaN \<Longrightarrow> y \<le> f64_max x y"
  by (cases x; cases y) (auto simp: f64_max_def)

lemma f64_not_nan: "0 \<le> x \<Longrightarrow> x \<noteq> NaN"
  by (auto simp: f64_simps)

text \<open>Spending one token never goes below zero and lowers an integral upper bound by one.\<close>

lemma f64_minus_one_nonneg: "1 \<le> x \<Longrightarrow> 0 \<le> x - (1 :: f64)"
  by (cases x) (auto simp: minus_f64_def one_f64_def)

lemma f64_minus_one_le:
  assumes "1 \<le> x" "x \<le> Fin (of_nat (Suc k))" "k < 2 ^ 53"
  shows "x - 1 \<le> Fin (of_nat k)"
  using assms f64_of_rat_le [of _ k] by (cases x) (auto simp: f64_simps)

text \<open>Refilling by zero is a re-rounding, which keeps integral upper bounds.\<close>

lemma f64_add_zero_le:
  assumes "0 \<le> x" "x \<le> Fin (of_nat k)" "k < 2 ^ 53"
  shows "x + 0 \<le> Fin (of_nat k)"
  using assms f64_of_rat_le [of _ k] by (cases x) (auto simp: f64_simps)

text \<open>Exponential decay: the exponent is non-positive and the factor at most one.\<close>

lemma f64_of_nat_u64:
  assumes "0 < n" "n < 2 ^ 64"
  obtains b where "f64_of_nat n = Fin b" "0 < b"
proof -
  have top: "f64_round (2 ^ 64) = (2 ^ 64 :: rat)" by code_simp
  have "1 \<le> f64_round (of_nat n)" using f64_round_mono [of 1 "of_nat n"] assms(1) by simp
  moreover have "(of_nat n :: rat) \<le> of_nat (2 ^ 64)" unfolding of_nat_le_iff using assms(2) by simp
  then have "f64_round (of_nat n) \<le> 2 ^ 64" using f64_round_mono [of "of_nat n" "2 ^ 64"] top by simp
  moreover have "(2 ^ 64 :: rat) < 2 ^ 1024" "- (2 ^ 1024) < (1 :: rat)" by simp_all
  ultimately show thesis using that [of "f64_round (of_nat n)"] by (auto simp: f64_of_nat_def f64_of_rat_def Let_def)
qed

lemma f64_of_rat_nonpos: "x \<le> 0 \<Longrightarrow> f64_of_rat x \<le> 0"
proof -
  assume "x \<le> 0"
  then have "f64_round x \<le> 0" using f64_round_mono [of x 0] by simp
  moreover have "(0 :: rat) < 2 ^ 1024" by simp
  ultimately show ?thesis by (auto simp: f64_of_rat_def Let_def f64_simps)
qed

lemma f64_neg_div_nonpos:
  assumes "0 \<le> x" "0 < n" "n < 2 ^ 64"
  shows "- x / f64_of_nat n \<le> 0"
proof -
  obtain b where b: "f64_of_nat n = Fin b" "0 < b" using assms(2,3) by (rule f64_of_nat_u64)
  from assms(1) show ?thesis
  proof (cases rule: f64_cases_nonneg)
    case (Fin a)
    then have "f64_of_rat (- a / b) \<le> 0" by (intro f64_of_rat_nonpos) (use b in \<open>simp add: divide_nonpos_pos\<close>)
    with Fin b show ?thesis by simp
  qed (use b in \<open>simp add: f64_simps\<close>)
qed

lemma f64_mult_unit:
  assumes "0 \<le> s" "s \<le> Fin m" "0 \<le> p" "p \<le> 1"
  shows "0 \<le> s * p"
  using assms by (cases s; cases p) (auto simp: f64_simps)

lemma f64_of_rat_mono: "x \<le> y \<Longrightarrow> f64_of_rat x \<le> f64_of_rat y"
  using f64_round_mono [of x y] by (auto simp: f64_of_rat_def Let_def)

end
