(* ===== verification/Config_Types.thy ===== *)
theory Config_Types
  imports Net Float64
begin

text \<open>
  The configuration structs of config.rs. Field names carry a prefix per struct
  (\<open>lim_\<close> for \<^verbatim>\<open>Limits\<close>, \<open>to_\<close> for \<^verbatim>\<open>Timeouts\<close>, \<open>pr_\<close> for \<^verbatim>\<open>Protocol\<close>, \<open>ca_\<close> for
  \<^verbatim>\<open>Cache\<close>, \<open>cfg_\<close> for \<^verbatim>\<open>Config\<close>), because the source reuses names such as
  \<^verbatim>\<open>backend\<close> and \<^verbatim>\<open>handshake\<close>. A \<^verbatim>\<open>String\<close> is its UTF-8 bytes; schema names, which
  are only compared with literals, are \<^typ>\<open>string\<close>. The type of JSON values is a
  parameter \<open>'j\<close>, the types of networks \<open>'a\<close> and \<open>'b\<close>.
\<close>

record rate =
  per_second :: f64
  burst :: f64

definition rate_valid :: "rate \<Rightarrow> bool" where
  "rate_valid r \<longleftrightarrow> is_finite (per_second r) \<and> is_finite (burst r) \<and> 0 \<le> per_second r \<and>
     per_second r \<le> Fin 1000000000 \<and> 0 \<le> burst r \<and> burst r \<le> Fin 1000000000 \<and>
     (f64_eq (per_second r) 0 \<and> f64_eq (burst r) 0 \<or> 0 < per_second r \<and> 1 \<le> burst r)"

record rates =
  rate_connect :: rate
  rate_handshake :: rate
  rate_status :: rate
  rate_login :: rate

definition rates_list :: "rates \<Rightarrow> rate list" where
  "rates_list r = [rate_connect r, rate_handshake r, rate_status r, rate_login r]"

record limits =
  lim_total_sockets :: usize
  lim_prelogin :: usize
  lim_status_connections :: usize
  lim_status_ip :: usize
  lim_separate_status_budget :: bool
  lim_preserve_burst :: bool
  lim_admitted :: usize
  lim_backend :: usize
  lim_connections_ip :: usize
  lim_connections_prefix :: usize
  lim_prelogin_ip :: usize
  lim_prelogin_prefix :: usize
  lim_ip_entries :: usize
  lim_prefix_entries :: usize
  lim_idle_entry_seconds :: nat
  lim_ipv4_prefix :: nat
  lim_ipv6_prefix :: nat
  lim_ip :: rates
  lim_prefix :: rates
  lim_global :: rates
  lim_mode_multipliers :: "f64 list"
  lim_churn_score_threshold :: f64
  lim_churn_prefix_score_threshold :: f64
  lim_churn_half_life_seconds :: nat
  lim_churn_window_seconds :: nat
  lim_penalty_seconds :: nat

record timeouts =
  to_first_progress_ms :: nat
  to_progress_ms :: nat
  to_handshake_ms :: nat
  to_login_ms :: nat
  to_status_ms :: nat
  to_backend_ms :: nat
  to_shutdown_seconds :: nat
  to_relay_stall_ms :: nat
  to_half_close_ms :: nat
  to_client_idle_ms :: nat

record protocol =
  pr_min_protocol :: i32
  pr_max_protocol :: i32
  pr_max_frame :: usize
  pr_max_initial_bytes :: usize
  pr_max_host_bytes :: usize
  pr_allow_host_suffix :: bool
  pr_allowed_hosts :: "bytes list"
  pr_allowed_ports :: "u16 list"
  pr_strict_username :: bool
  pr_login_schemas :: "(i32, string) fmap"
  pr_future_login_schema :: string

definition default_future_login_schema :: string where
  "default_future_login_schema = ''uuid''"

definition default_min_protocol :: i32 where
  "default_min_protocol = 757"

definition default_max_protocol :: i32 where
  "default_max_protocol = 776"

record 'j cache_cfg =
  ca_host :: bytes
  ca_port :: u16
  ca_protocol :: i32
  ca_ttl_seconds :: nat
  ca_max_response_bytes :: usize
  ca_fallback :: 'j

record ('a, 'b) incoming_proxy_v2 =
  ipx_enabled :: bool
  ipx_trusted_proxies :: "('a, 'b) ip_net list"

record backend_protection =
  bp_max_connecting :: usize
  bp_failure_threshold :: nat
  bp_cooldown_ms :: nat
  bp_attempts :: rate

record upload =
  bytes_per_second :: nat
  burst_bytes :: nat
  enforce :: bool

record ('a, 'b, 'j) config =
  cfg_listen :: socket_addr
  cfg_backend :: socket_addr
  cfg_metrics :: socket_addr
  cfg_proxy_v2 :: bool
  cfg_incoming_proxy_v2 :: "('a, 'b) incoming_proxy_v2"
  cfg_allow_backend_identity_loss :: bool
  cfg_ipv6 :: bool
  cfg_observe :: bool
  cfg_runtime_file :: bytes
  cfg_workers :: usize
  cfg_relay_buffer :: usize
  cfg_upload :: upload
  cfg_backend_protection :: backend_protection
  cfg_limits :: limits
  cfg_timeouts :: timeouts
  cfg_protocol :: protocol
  cfg_cache :: "'j cache_cfg"

section \<open>Validated rates\<close>

lemma rate_valid_finite:
  assumes "rate_valid r"
  obtains p b where "per_second r = Fin p" "burst r = Fin b" "0 \<le> p" "p \<le> 1000000000"
    "0 \<le> b" "b \<le> 1000000000" "p = 0 \<and> b = 0 \<or> 0 < p \<and> 1 \<le> b"
  using assms that
  by (cases "per_second r"; cases "burst r")
    (auto simp: rate_valid_def is_finite_def f64_simps)

lemma rates_list_length [simp]: "length (rates_list r) = 4"
  by (simp add: rates_list_def)

definition rates_valid :: "rates \<Rightarrow> bool" where
  "rates_valid r \<longleftrightarrow> list_all rate_valid (rates_list r)"

section \<open>The shipped configuration\<close>

text \<open>The sections of config/gate.json, as concrete inputs.\<close>

definition shipped_protocol :: protocol where
  "shipped_protocol = \<lparr>pr_min_protocol = 757, pr_max_protocol = 776, pr_max_frame = 16384,
     pr_max_initial_bytes = 32768, pr_max_host_bytes = 1024, pr_allow_host_suffix = True,
     pr_allowed_hosts = [], pr_allowed_ports = [], pr_strict_username = False,
     pr_login_schemas = fmempty, pr_future_login_schema = ''uuid''\<rparr>"

definition no_rate :: rate where
  "no_rate = \<lparr>per_second = 0, burst = 0\<rparr>"

definition no_rates :: rates where
  "no_rates = \<lparr>rate_connect = no_rate, rate_handshake = no_rate, rate_status = no_rate, rate_login = no_rate\<rparr>"

definition shipped_limits :: limits where
  "shipped_limits = \<lparr>lim_total_sockets = 10000, lim_prelogin = 512, lim_status_connections = 128,
     lim_status_ip = 0, lim_separate_status_budget = True, lim_preserve_burst = True,
     lim_admitted = 4096, lim_backend = 4097, lim_connections_ip = 0, lim_connections_prefix = 0,
     lim_prelogin_ip = 0, lim_prelogin_prefix = 0, lim_ip_entries = 65536, lim_prefix_entries = 16384,
     lim_idle_entry_seconds = 120, lim_ipv4_prefix = 24, lim_ipv6_prefix = 64,
     lim_ip = no_rates, lim_prefix = no_rates, lim_global = no_rates,
     lim_mode_multipliers = [1, f64_of_rat (8 / 10), f64_of_rat (1 / 2), f64_of_rat (1 / 10)],
     lim_churn_score_threshold = 0, lim_churn_prefix_score_threshold = 0,
     lim_churn_half_life_seconds = 30, lim_churn_window_seconds = 3, lim_penalty_seconds = 10\<rparr>"

definition shipped_timeouts :: timeouts where
  "shipped_timeouts = \<lparr>to_first_progress_ms = 3000, to_progress_ms = 3000, to_handshake_ms = 10000,
     to_login_ms = 10000, to_status_ms = 5000, to_backend_ms = 3000, to_shutdown_seconds = 60,
     to_relay_stall_ms = 0, to_half_close_ms = 0, to_client_idle_ms = 0\<rparr>"

end
