(* ===== verification/Packets.thy ===== *)
theory Packets
  imports Varint Utf8 Config_Types
begin

text \<open>
  protocol.rs, packets: the borrowing \<^verbatim>\<open>Cursor\<close> and the parsers for Handshake, Login
  Start, Status Request and Ping, with the size bounds the read phases impose.
  A cursor operation returns the advanced cursor; on an error the parser returns at
  once, so the cursor of a failed operation is never observed.
\<close>

section \<open>The cursor\<close>

record cursor =
  cur_data :: bytes
  cur_pos :: usize

definition cursor_new :: "bytes \<Rightarrow> cursor" where
  "cursor_new data = \<lparr>cur_data = data, cur_pos = 0\<rparr>"

definition cursor_int :: "cursor \<Rightarrow> perror + i32 \<times> cursor" where
  "cursor_int c = (case varint (drop (cur_pos c) (cur_data c)) of
     Inl e \<Rightarrow> Inl e
   | Inr None \<Rightarrow> Inl Invalid
   | Inr (Some (n, used)) \<Rightarrow> Inr (n, c\<lparr>cur_pos := cur_pos c + used\<rparr>))"

definition cursor_bytes :: "nat \<Rightarrow> cursor \<Rightarrow> perror + bytes \<times> cursor" where
  "cursor_bytes n c =
     (if n > length (cur_data c) - cur_pos c then Inl Invalid
      else Inr (take n (drop (cur_pos c) (cur_data c)), c\<lparr>cur_pos := cur_pos c + n\<rparr>))"

definition cursor_boolean :: "cursor \<Rightarrow> perror + bool \<times> cursor" where
  "cursor_boolean c = bind_result (cursor_bytes 1 c) (\<lambda>(b, c).
     if hd b = 0 then Inr (False, c) else if hd b = 1 then Inr (True, c) else Inl Invalid)"

definition cursor_blob :: "nat \<Rightarrow> cursor \<Rightarrow> perror + bytes \<times> cursor" where
  "cursor_blob max_len c = bind_result (cursor_int c) (\<lambda>(n, c).
     if sint n < 0 \<or> unat n > max_len then Inl Oversized else cursor_bytes (unat n) c)"

definition cursor_string :: "nat \<Rightarrow> cursor \<Rightarrow> perror + bytes \<times> cursor" where
  "cursor_string max_len c = bind_result (cursor_blob max_len c) (\<lambda>(s, c).
     if utf8_valid s then Inr (s, c) else Inl Invalid)"

definition cursor_finish :: "cursor \<Rightarrow> perror + unit" where
  "cursor_finish c = (if cur_pos c = length (cur_data c) then Inr () else Inl Invalid)"

section \<open>Packets\<close>

record handshake_rec =
  hs_version :: i32
  hs_state :: i32

definition handshake_max :: "protocol \<Rightarrow> usize" where
  "handshake_max cfg = min (pr_max_frame cfg) (5 + 5 + 5 + pr_max_host_bytes cfg + 2 + 5)"

definition handshake :: "bytes \<Rightarrow> protocol \<Rightarrow> perror + handshake_rec" where
  "handshake data cfg =
     bind_result (cursor_int (cursor_new data)) (\<lambda>(pid, c).
     if pid \<noteq> 0 then Inl Invalid else
     bind_result (cursor_int c) (\<lambda>(version, c).
     bind_result (cursor_string (pr_max_host_bytes cfg) c) (\<lambda>(host, c).
     let base = str_base host in
     if base = [] \<or> list_ex is_control (str_chars base) \<or>
        (\<not> pr_allow_host_suffix cfg \<and> str_has_nul host) \<or>
        (pr_allowed_hosts cfg \<noteq> [] \<and> \<not> list_ex (\<lambda>h. eq_ignore_ascii_case h base) (pr_allowed_hosts cfg))
     then Inl Invalid else
     bind_result (cursor_bytes 2 c) (\<lambda>(b, c).
     let port = u16_from_be (b ! 0) (b ! 1) in
     if port = 0 \<or> (pr_allowed_ports cfg \<noteq> [] \<and> port \<notin> set (pr_allowed_ports cfg)) then Inl Invalid else
     bind_result (cursor_int c) (\<lambda>(state, c).
     if state \<noteq> 1 \<and> state \<noteq> 2 then Inl Invalid
     else if state = 2 \<and> sint version < 0 then Inl Unsupported
     else bind_result (cursor_finish c) (\<lambda>_.
       Inr \<lparr>hs_version = version, hs_state = state\<rparr>))))))"

definition login_schema :: "i32 \<Rightarrow> protocol \<Rightarrow> perror + string" where
  "login_schema version cfg =
     (if sint version < sint (pr_min_protocol cfg) \<or> sint version > sint (pr_max_protocol cfg)
      then Inl Unsupported
      else let schema = (case fmlookup (pr_login_schemas cfg) version of
          Some schema \<Rightarrow> Some schema
        | None \<Rightarrow>
            let v = sint version in
            if 4 \<le> v \<and> v \<le> 758 then Some ''legacy''
            else if v = 759 then Some ''signed''
            else if v = 760 then Some ''signed_uuid''
            else if 761 \<le> v \<and> v \<le> 763 then Some ''optional_uuid''
            else if 764 \<le> v \<and> v \<le> 776 then Some ''uuid''
            else if 777 \<le> v then Some (pr_future_login_schema cfg)
            else None)
        in case schema of
          None \<Rightarrow> Inl Unsupported
        | Some schema \<Rightarrow>
            if schema \<in> set [''legacy'', ''signed'', ''signed_uuid'', ''optional_uuid'', ''uuid'', ''backend'']
            then Inr schema else Inl Unsupported)"

definition login_max :: "i32 \<Rightarrow> protocol \<Rightarrow> perror + usize" where
  "login_max version cfg = bind_result (login_schema version cfg) (\<lambda>schema.
     if schema = ''backend'' then Inr (pr_max_frame cfg)
     else bind_result
       (if schema = ''legacy'' then Inr 0
        else if schema = ''signed'' then Inr (1 + 8 + 5 + 4096 + 5 + 4096)
        else if schema = ''signed_uuid'' then Inr (1 + 8 + 5 + 4096 + 5 + 4096 + 17)
        else if schema = ''optional_uuid'' then Inr 17
        else if schema = ''uuid'' then Inr 16
        else Inl Unsupported)
       (\<lambda>extra. Inr (min (pr_max_frame cfg) (5 + 5 + 64 + extra))))"

text \<open>The two optional tails of Login Start: the signed key and the player UUID.\<close>

definition login_signed_part :: "string \<Rightarrow> cursor \<Rightarrow> perror + cursor" where
  "login_signed_part schema c =
     (if schema = ''signed'' \<or> schema = ''signed_uuid'' then
        bind_result (cursor_boolean c) (\<lambda>(present, c).
          if present then
            bind_result (cursor_bytes 8 c) (\<lambda>(_, c).
            bind_result (cursor_blob 4096 c) (\<lambda>(_, c).
            bind_result (cursor_blob 4096 c) (\<lambda>(_, c). Inr c)))
          else Inr c)
      else Inr c)"

definition login_uuid_part :: "string \<Rightarrow> cursor \<Rightarrow> perror + cursor" where
  "login_uuid_part schema c =
     (if schema = ''signed_uuid'' \<or> schema = ''optional_uuid'' then
        bind_result (cursor_boolean c) (\<lambda>(present, c).
          if present then bind_result (cursor_bytes 16 c) (\<lambda>(_, c). Inr c) else Inr c)
      else if schema = ''uuid'' then bind_result (cursor_bytes 16 c) (\<lambda>(_, c). Inr c)
      else Inr c)"

definition login :: "bytes \<Rightarrow> i32 \<Rightarrow> protocol \<Rightarrow> perror + unit" where
  "login data version cfg =
     bind_result (login_schema version cfg) (\<lambda>schema.
     bind_result (cursor_int (cursor_new data)) (\<lambda>(pid, c).
     if pid \<noteq> 0 then Inl Invalid
     else if schema = ''backend'' then Inr ()
     else bind_result (cursor_string 64 c) (\<lambda>(name, c).
     if name = [] \<or> utf16_count name > 16 \<or> list_ex is_control (str_chars name) \<or>
        (pr_strict_username cfg \<and> \<not> list_all (\<lambda>x. is_ascii_alphanumeric x \<or> x = 95) name)
     then Inl Invalid
     else bind_result (login_signed_part schema c) (\<lambda>c.
          bind_result (login_uuid_part schema c) (\<lambda>c.
          cursor_finish c)))))"

definition status_request :: "bytes \<Rightarrow> perror + unit" where
  "status_request data = bind_result (cursor_int (cursor_new data)) (\<lambda>(pid, c).
     if pid \<noteq> 0 then Inl Invalid else cursor_finish c)"

definition ping :: "bytes \<Rightarrow> perror + unit" where
  "ping data = bind_result (cursor_int (cursor_new data)) (\<lambda>(pid, c).
     if pid \<noteq> 1 then Inl Invalid
     else bind_result (cursor_bytes 8 c) (\<lambda>(_, c). cursor_finish c))"

definition status_handshake_body :: "bytes \<Rightarrow> u16 \<Rightarrow> i32 \<Rightarrow> bytes" where
  "status_handshake_body host port version =
     put_varint (of_nat (length host)) (put_varint version [0]) @ host @ be16 port @ [1]"

definition status_handshake :: "bytes \<Rightarrow> u16 \<Rightarrow> i32 \<Rightarrow> bytes" where
  "status_handshake host port version = frame (status_handshake_body host port version)"

section \<open>Cursor safety\<close>

text \<open>
  \<open>cursor_wf\<close>: the position never passes the end of the borrowed slice, so no slice
  expression of the cursor is out of range. \<open>moved c c' lo hi\<close>: a step to \<open>c'\<close> keeps the
  slice and this invariant and advances by at least \<open>lo\<close> and at most \<open>hi\<close> bytes.
\<close>

definition cursor_wf :: "cursor \<Rightarrow> bool" where
  "cursor_wf c \<longleftrightarrow> cur_pos c \<le> length (cur_data c)"

definition moved :: "cursor \<Rightarrow> cursor \<Rightarrow> nat \<Rightarrow> nat \<Rightarrow> bool" where
  "moved c c' lo hi \<longleftrightarrow> cursor_wf c' \<and> cur_data c' = cur_data c \<and>
     cur_pos c + lo \<le> cur_pos c' \<and> cur_pos c' \<le> cur_pos c + hi"

lemma moved_trans: "moved c c' l h \<Longrightarrow> moved c' c'' l' h' \<Longrightarrow> moved c c'' (l + l') (h + h')"
  by (auto simp: moved_def)

lemma moved_wf: "moved c c' l h \<Longrightarrow> cursor_wf c'"
  by (simp add: moved_def)

lemma moved_weaken: "moved c c' l h \<Longrightarrow> l' \<le> l \<Longrightarrow> h \<le> h' \<Longrightarrow> moved c c' l' h'"
  by (auto simp: moved_def)

lemma cursor_new_wf [simp]: "cursor_wf (cursor_new data)"
  by (simp add: cursor_wf_def cursor_new_def)

lemma cursor_int_moved: "cursor_wf c \<Longrightarrow> cursor_int c = Inr (n, c') \<Longrightarrow> moved c c' 1 5"
  by (auto simp: cursor_int_def cursor_wf_def moved_def dest!: varint_consumed
      split: sum.splits option.splits)

lemma cursor_bytes_moved:
  "cursor_wf c \<Longrightarrow> cursor_bytes n c = Inr (b, c') \<Longrightarrow> moved c c' n n \<and> length b = n"
  by (auto simp: cursor_bytes_def cursor_wf_def moved_def split: if_splits)

lemma cursor_boolean_moved: "cursor_wf c \<Longrightarrow> cursor_boolean c = Inr (b, c') \<Longrightarrow> moved c c' 1 1"
  by (auto simp: cursor_boolean_def bind_result_Inr dest!: cursor_bytes_moved split: if_splits)

lemma cursor_blob_moved:
  assumes "cursor_wf c" "cursor_blob m c = Inr (b, c')"
  shows "moved c c' 1 (5 + m) \<and> length b \<le> m"
proof -
  from assms(2) obtain n c1 where int: "cursor_int c = Inr (n, c1)" and m: "unat n \<le> m"
    and bytes: "cursor_bytes (unat n) c1 = Inr (b, c')"
    by (auto simp: cursor_blob_def bind_result_Inr split: if_splits)
  from cursor_int_moved [OF assms(1) int] have mv: "moved c c1 1 5" .
  from cursor_bytes_moved [OF moved_wf [OF mv] bytes]
  have "moved c1 c' (unat n) (unat n)" and len: "length b = unat n" by auto
  from moved_weaken [OF moved_trans [OF mv this(1)], of 1 "5 + m"] m len show ?thesis by simp
qed

lemma cursor_string_moved:
  "cursor_wf c \<Longrightarrow> cursor_string m c = Inr (s, c') \<Longrightarrow> moved c c' 1 (5 + m) \<and> length s \<le> m \<and> utf8_valid s"
  using cursor_blob_moved by (auto simp: cursor_string_def bind_result_Inr split: if_splits)

lemma cursor_finish_Inr: "cursor_finish c = Inr () \<longleftrightarrow> cur_pos c = length (cur_data c)"
  by (auto simp: cursor_finish_def)

text \<open>A parser that runs from the start of a slice to its end bounds the slice.\<close>

lemma moved_length:
  "moved (cursor_new data) c lo hi \<Longrightarrow> cur_pos c = length (cur_data c) \<Longrightarrow> lo \<le> length data \<and> length data \<le> hi"
  by (auto simp: moved_def cursor_new_def)

section \<open>Bounds of accepted packets\<close>

lemma handshake_cases:
  assumes "handshake data cfg = Inr h"
  obtains c1 c2 host c3 b c4 c5 where
    "cursor_int (cursor_new data) = Inr (0, c1)"
    "cursor_int c1 = Inr (hs_version h, c2)"
    "cursor_string (pr_max_host_bytes cfg) c2 = Inr (host, c3)"
    "str_base host \<noteq> []" "\<not> list_ex is_control (str_chars (str_base host))"
    "cursor_bytes 2 c3 = Inr (b, c4)" "u16_from_be (b ! 0) (b ! 1) \<noteq> 0"
    "cursor_int c4 = Inr (hs_state h, c5)" "cur_pos c5 = length (cur_data c5)"
    "hs_state h = 1 \<or> hs_state h = 2 \<and> 0 \<le> sint (hs_version h)"
  using assms that
  by (auto simp: handshake_def bind_result_Inr cursor_finish_Inr Let_def not_less
      split: if_splits)

lemma handshake_moved:
  assumes "handshake data cfg = Inr h"
  shows "length data \<le> 5 + 5 + 5 + pr_max_host_bytes cfg + 2 + 5"
proof -
  from assms obtain c1 c2 host c3 b c4 c5 where
    s: "cursor_int (cursor_new data) = Inr (0, c1)" "cursor_int c1 = Inr (hs_version h, c2)"
      "cursor_string (pr_max_host_bytes cfg) c2 = Inr (host, c3)"
      "cursor_bytes 2 c3 = Inr (b, c4)" "cursor_int c4 = Inr (hs_state h, c5)"
    and fin: "cur_pos c5 = length (cur_data c5)"
    by (rule handshake_cases)
  have 1: "moved (cursor_new data) c1 1 5" using cursor_new_wf s(1) by (rule cursor_int_moved)
  have 2: "moved c1 c2 1 5" using moved_wf [OF 1] s(2) by (rule cursor_int_moved)
  have 3: "moved c2 c3 1 (5 + pr_max_host_bytes cfg)"
    using cursor_string_moved [OF moved_wf [OF 2] s(3)] by simp
  have 4: "moved c3 c4 2 2" using cursor_bytes_moved [OF moved_wf [OF 3] s(4)] by simp
  have 5: "moved c4 c5 1 5" using moved_wf [OF 4] s(5) by (rule cursor_int_moved)
  from moved_length [OF moved_trans [OF moved_trans [OF moved_trans [OF moved_trans [OF 1 2] 3] 4] 5] fin]
  show ?thesis by simp
qed

definition login_extra :: "string \<Rightarrow> nat" where
  "login_extra schema =
     (if schema = ''signed'' then 1 + 8 + 5 + 4096 + 5 + 4096
      else if schema = ''signed_uuid'' then 1 + 8 + 5 + 4096 + 5 + 4096 + 17
      else if schema = ''optional_uuid'' then 17
      else if schema = ''uuid'' then 16 else 0)"

lemma moved_refl: "cursor_wf c \<Longrightarrow> moved c c 0 0"
  by (simp add: moved_def)

lemma login_signed_part_moved:
  assumes "cursor_wf c" "login_signed_part schema c = Inr c'"
  shows "moved c c' 0 (if schema = ''signed'' \<or> schema = ''signed_uuid'' then 1 + 8 + 5 + 4096 + 5 + 4096 else 0)"
proof (cases "schema = ''signed'' \<or> schema = ''signed_uuid''")
  case True
  with assms(2) obtain p c1 where p: "cursor_boolean c = Inr (p, c1)"
    and rest: "(if p then bind_result (cursor_bytes 8 c1) (\<lambda>(_, c).
              bind_result (cursor_blob 4096 c) (\<lambda>(_, c).
              bind_result (cursor_blob 4096 c) (\<lambda>(_, c). Inr c))) else Inr c1) = Inr c'"
    unfolding login_signed_part_def by (auto simp: bind_result_Inr)
  have 1: "moved c c1 1 1" using assms(1) p by (rule cursor_boolean_moved)
  have "moved c c' 1 (1 + 8 + 5 + 4096 + 5 + 4096)"
  proof (cases p)
    case False
    with rest 1 show ?thesis by (auto elim: moved_weaken)
  next
    case True
    with rest obtain b1 c2 b2 c3 b3 where s: "cursor_bytes 8 c1 = Inr (b1, c2)"
      "cursor_blob 4096 c2 = Inr (b2, c3)" "cursor_blob 4096 c3 = Inr (b3, c')"
      by (auto simp: bind_result_Inr)
    have 2: "moved c1 c2 8 8" using cursor_bytes_moved [OF moved_wf [OF 1] s(1)] by simp
    have 3: "moved c2 c3 1 (5 + 4096)" using cursor_blob_moved [OF moved_wf [OF 2] s(2)] by simp
    have 4: "moved c3 c' 1 (5 + 4096)" using cursor_blob_moved [OF moved_wf [OF 3] s(3)] by simp
    from moved_weaken [OF moved_trans [OF moved_trans [OF moved_trans [OF 1 2] 3] 4]]
    show ?thesis by simp
  qed
  then have "moved c c' 0 (1 + 8 + 5 + 4096 + 5 + 4096)" by (rule moved_weaken) simp_all
  with True show ?thesis by simp
next
  case False
  with assms show ?thesis by (auto simp: login_signed_part_def moved_refl)
qed

lemma login_uuid_part_moved:
  assumes "cursor_wf c" "login_uuid_part schema c = Inr c'"
  shows "moved c c' 0 (if schema = ''signed_uuid'' \<or> schema = ''optional_uuid'' then 17
                       else if schema = ''uuid'' then 16 else 0)"
proof (cases "schema = ''signed_uuid'' \<or> schema = ''optional_uuid''")
  case True
  with assms(2) obtain p c1 where p: "cursor_boolean c = Inr (p, c1)"
    and rest: "(if p then bind_result (cursor_bytes 16 c1) (\<lambda>(_, c). Inr c) else Inr c1) = Inr c'"
    unfolding login_uuid_part_def by (auto simp: bind_result_Inr)
  have 1: "moved c c1 1 1" using assms(1) p by (rule cursor_boolean_moved)
  have "moved c c' 0 17"
  proof (cases p)
    case False
    with rest 1 show ?thesis by (auto elim: moved_weaken)
  next
    case True
    with rest obtain b where "cursor_bytes 16 c1 = Inr (b, c')" by (auto simp: bind_result_Inr)
    then have "moved c1 c' 16 16" using cursor_bytes_moved [OF moved_wf [OF 1]] by simp
    from moved_weaken [OF moved_trans [OF 1 this]] show ?thesis by simp
  qed
  with True show ?thesis by simp
next
  case False
  note no_opt = False
  show ?thesis
  proof (cases "schema = ''uuid''")
    case True
    with assms(2) no_opt obtain b where "cursor_bytes 16 c = Inr (b, c')"
      unfolding login_uuid_part_def by (auto simp: bind_result_Inr)
    from cursor_bytes_moved [OF assms(1) this] have "moved c c' 0 16" by (auto intro: moved_weaken)
    with True no_opt show ?thesis by simp
  next
    case False
    with assms no_opt show ?thesis by (simp add: login_uuid_part_def moved_refl)
  qed
qed

lemma login_moved:
  assumes "login data version cfg = Inr ()" "login_schema version cfg = Inr schema" "schema \<noteq> ''backend''"
  shows "length data \<le> 5 + 5 + 64 + login_extra schema"
proof -
  from assms obtain c1 name c2 c3 c4 where
    s: "cursor_int (cursor_new data) = Inr (0, c1)" "cursor_string 64 c1 = Inr (name, c2)"
      "login_signed_part schema c2 = Inr c3" "login_uuid_part schema c3 = Inr c4"
    and fin: "cur_pos c4 = length (cur_data c4)"
    unfolding login_def by (auto simp: bind_result_Inr cursor_finish_Inr split: if_splits)
  have 1: "moved (cursor_new data) c1 1 5" using cursor_new_wf s(1) by (rule cursor_int_moved)
  have 2: "moved c1 c2 1 (5 + 64)" using cursor_string_moved [OF moved_wf [OF 1] s(2)] by simp
  have 3: "moved c2 c3 0 (if schema = ''signed'' \<or> schema = ''signed_uuid'' then 1 + 8 + 5 + 4096 + 5 + 4096 else 0)"
    using moved_wf [OF 2] s(3) by (rule login_signed_part_moved)
  have 4: "moved c3 c4 0 (if schema = ''signed_uuid'' \<or> schema = ''optional_uuid'' then 17
                       else if schema = ''uuid'' then 16 else 0)"
    using moved_wf [OF 3] s(4) by (rule login_uuid_part_moved)
  from moved_length [OF moved_trans [OF moved_trans [OF moved_trans [OF 1 2] 3] 4] fin]
  show ?thesis by (auto simp: login_extra_def split: if_splits)
qed

lemma login_max_eq:
  "login_schema version cfg = Inr schema \<Longrightarrow>
     login_max version cfg = Inr (if schema = ''backend'' then pr_max_frame cfg
       else min (pr_max_frame cfg) (5 + 5 + 64 + login_extra schema))"
  by (auto simp: login_max_def login_schema_def login_extra_def Let_def split: if_splits option.splits)

section \<open>Running the cursor over a known encoding\<close>

text \<open>\<open>cursor_at pre rest\<close>: the cursor over \<open>pre @ rest\<close> that has consumed \<open>pre\<close>.\<close>

definition cursor_at :: "bytes \<Rightarrow> bytes \<Rightarrow> cursor" where
  "cursor_at pre rest = \<lparr>cur_data = pre @ rest, cur_pos = length pre\<rparr>"

lemma cursor_new_at: "cursor_new data = cursor_at [] data"
  by (simp add: cursor_new_def cursor_at_def)

lemma cursor_int_at: "cursor_int (cursor_at pre (put_varint_loop v @ rest)) = Inr (v, cursor_at (pre @ put_varint_loop v) rest)"
  by (simp add: cursor_int_def cursor_at_def varint_put_varint)

lemma cursor_bytes_at: "length b = n \<Longrightarrow> cursor_bytes n (cursor_at pre (b @ rest)) = Inr (b, cursor_at (pre @ b) rest)"
  by (auto simp: cursor_bytes_def cursor_at_def)

lemma cursor_finish_at [simp]: "cursor_finish (cursor_at pre []) = Inr ()"
  by (simp add: cursor_finish_def cursor_at_def)

text \<open>A length below \<open>2 ^ 31\<close> survives the cast to \<^verbatim>\<open>i32\<close>.\<close>

lemma len_cast:
  assumes "n < 2 ^ 31"
  shows "unat (of_nat n :: i32) = n" and "0 \<le> sint (of_nat n :: i32)"
proof -
  from assms show "unat (of_nat n :: i32) = n"
    by (simp add: unsigned_of_nat take_bit_nat_eq_self)
  from assms have "sint (of_nat n :: i32) = int n"
    by (simp add: signed_of_nat signed_take_bit_int_eq_self)
  then show "0 \<le> sint (of_nat n :: i32)" by simp
qed

lemma cursor_string_at:
  assumes "length s \<le> m" "length s < 2 ^ 31" "utf8_valid s"
  shows "cursor_string m (cursor_at pre (put_varint_loop (of_nat (length s)) @ s @ rest))
       = Inr (s, cursor_at (pre @ put_varint_loop (of_nat (length s)) @ s) rest)"
  using assms len_cast [OF assms(2)]
  by (simp add: cursor_string_def cursor_blob_def cursor_int_at cursor_bytes_at)

lemma put_varint_loop_small: "unat v < 128 \<Longrightarrow> put_varint_loop v = [ucast v]"
proof -
  assume "unat v < 128"
  then have z: "drop_bit 7 v = 0" by (simp add: drop_bit_zero_iff)
  then have "take_bit 7 v = v" using septet_join [of v] by simp
  with z show ?thesis by (simp add: put_varint_loop_last)
qed

lemma cursor_int_at_small:
  "unat v < 128 \<Longrightarrow> cursor_int (cursor_at pre (ucast v # rest)) = Inr (v, cursor_at (pre @ [ucast v]) rest)"
  using cursor_int_at [of pre v rest] by (simp add: put_varint_loop_small)

lemma cursor_int_at_01 [simp]:
  "cursor_int (cursor_at pre (0 # rest)) = Inr (0, cursor_at (pre @ [0]) rest)"
  "cursor_int (cursor_at pre (1 # rest)) = Inr (1, cursor_at (pre @ [1]) rest)"
  using cursor_int_at_small [of 0 pre rest] cursor_int_at_small [of 1 pre rest] by simp_all

section \<open>Properties\<close>

text \<open>
  The handshake packet that the gate's own status poller sends parses back: after
  the length prefix, \<^verbatim>\<open>handshake\<close> returns the announced version and the status state,
  whenever host and port satisfy the configured policy.
\<close>

theorem handshake_of_status_handshake:
  assumes "utf8_valid host" "length host \<le> pr_max_host_bytes cfg" "length host < 2 ^ 31"
    and "str_base host \<noteq> []" "\<not> list_ex is_control (str_chars (str_base host))"
    and "pr_allow_host_suffix cfg \<or> \<not> str_has_nul host"
    and "pr_allowed_hosts cfg = [] \<or> list_ex (\<lambda>h. eq_ignore_ascii_case h (str_base host)) (pr_allowed_hosts cfg)"
    and "port \<noteq> 0" "pr_allowed_ports cfg = [] \<or> port \<in> set (pr_allowed_ports cfg)"
  shows "\<exists>n off. varint (status_handshake host port version) = Inr (Some (n, off)) \<and>
    handshake (drop off (status_handshake host port version)) cfg = Inr \<lparr>hs_version = version, hs_state = 1\<rparr>"
proof -
  let ?body = "status_handshake_body host port version"
  have body: "?body = 0 # put_varint_loop version @ put_varint_loop (of_nat (length host)) @ host @ be16 port @ [1]"
    by (simp add: status_handshake_body_def put_varint_def)
  have b2: "cursor_bytes 2 (cursor_at pre (be16 port @ rest)) = Inr (be16 port, cursor_at (pre @ be16 port) rest)" for pre rest
    by (rule cursor_bytes_at) simp
  have "handshake ?body cfg = Inr \<lparr>hs_version = version, hs_state = 1\<rparr>"
    using assms unfolding body handshake_def
    by (auto simp: cursor_new_at cursor_int_at cursor_string_at b2 Let_def)
  then show ?thesis
    by (simp add: status_handshake_def frame_def put_varint_def varint_put_varint)
qed

theorem handshake_of_status_handshake_witness:
  "\<exists>n off. varint (status_handshake [108, 111, 0, 70] 25565 767) = Inr (Some (n, off)) \<and>
    handshake (drop off (status_handshake [108, 111, 0, 70] 25565 767)) shipped_protocol
      = Inr \<lparr>hs_version = 767, hs_state = 1\<rparr>"
  by (rule handshake_of_status_handshake)
    (simp_all add: shipped_protocol_def utf8_valid_ascii str_base_def str_chars_def is_control_def)

text \<open>
  The read phases never cut off a packet that the parsers accept: the maxima that
  main.rs passes to \<^verbatim>\<open>read_frame\<close> (\<^verbatim>\<open>handshake_max\<close>, \<^verbatim>\<open>login_max\<close>, 5 for the status request
  and 13 for the ping) are upper bounds on the accepted packets within \<^verbatim>\<open>max_frame\<close>.
\<close>

theorem phase_bounds_complete:
  assumes "length data \<le> pr_max_frame cfg"
  shows "(handshake data cfg = Inr h \<longrightarrow> length data \<le> handshake_max cfg) \<and>
    (login data version cfg = Inr () \<longrightarrow> (\<exists>m. login_max version cfg = Inr m \<and> length data \<le> m)) \<and>
    (status_request data = Inr () \<longrightarrow> length data \<le> 5) \<and> (ping data = Inr () \<longrightarrow> length data \<le> 13)"
proof (intro conjI impI)
  assume "handshake data cfg = Inr h"
  with assms handshake_moved [of data cfg h] show "length data \<le> handshake_max cfg"
    by (simp add: handshake_max_def)
next
  assume ok: "login data version cfg = Inr ()"
  then obtain schema where sch: "login_schema version cfg = Inr schema"
    by (auto simp: login_def bind_result_Inr)
  from login_max_eq [OF sch] login_moved [OF ok sch] assms
  show "\<exists>m. login_max version cfg = Inr m \<and> length data \<le> m" by auto
next
  assume "status_request data = Inr ()"
  then obtain n c where "cursor_int (cursor_new data) = Inr (n, c)" "cur_pos c = length (cur_data c)"
    by (auto simp: status_request_def bind_result_Inr cursor_finish_Inr split: if_splits)
  then show "length data \<le> 5"
    using moved_length [OF cursor_int_moved [OF cursor_new_wf]] by blast
next
  assume "ping data = Inr ()"
  then obtain n c b c' where "cursor_int (cursor_new data) = Inr (n, c)" "cursor_bytes 8 c = Inr (b, c')"
    and fin: "cur_pos c' = length (cur_data c')"
    by (auto simp: ping_def bind_result_Inr cursor_finish_Inr split: if_splits)
  then have "moved (cursor_new data) c 1 5" "moved c c' 8 8"
    using cursor_int_moved [OF cursor_new_wf] cursor_bytes_moved moved_wf by blast+
  from moved_length [OF moved_trans [OF this] fin] show "length data \<le> 13" by simp
qed

theorem phase_bounds_complete_witness:
  "length [0 :: byte] \<le> pr_max_frame shipped_protocol \<and> status_request [0] = Inr () \<and> length [0 :: byte] \<le> 5"
proof -
  have "length [0 :: byte] \<le> pr_max_frame shipped_protocol" by (simp add: shipped_protocol_def)
  moreover have "status_request [0] = Inr ()"
    by (simp add: status_request_def cursor_new_at)
  ultimately show ?thesis using phase_bounds_complete [of "[0]" shipped_protocol] by blast
qed

end
