(* ===== verification/Proxy_V2.thy ===== *)
theory Proxy_V2
  imports Varint Config_Types
begin

text \<open>
  PROXY protocol v2: the header the gate writes in front of a relayed connection
  (cache.rs, \<^verbatim>\<open>proxy_header\<close>) and the bounded, fail-closed receiver of the header a
  trusted proxy sends (incoming_proxy.rs). \<^verbatim>\<open>timeout_at(deadline, read_exact(..))\<close> of the
  runtime library is the parameter \<open>exact_read\<close> with the contract \<open>exact_source\<close>.
\<close>

section \<open>The receiver\<close>

definition SIGNATURE :: bytes where
  "SIGNATURE = [13, 10, 13, 10, 0, 13, 10, 81, 85, 73, 84, 10]"

definition MAX_ADDRESS_AND_TLVS :: usize where
  "MAX_ADDRESS_AND_TLVS = 4096"

definition is_trusted :: "('a, 'b) ipnet_ops \<Rightarrow> ip_addr \<Rightarrow> ('a, 'b) incoming_proxy_v2 \<Rightarrow> bool" where
  "is_trusted ops peer cfg =
     (let normalized = normalize peer in
      list_ex (\<lambda>net. net_contains ops net normalized) (ipx_trusted_proxies cfg))"

datatype exact_outcome = ExactTimeout | ExactError | ExactData bytes

type_synonym 'w exact_read = "instant \<Rightarrow> nat \<Rightarrow> 'w \<Rightarrow> exact_outcome \<times> 'w"

definition read_exact_timed :: "'w exact_read \<Rightarrow> instant \<Rightarrow> nat \<Rightarrow> 'w \<Rightarrow> (perror + bytes) \<times> 'w" where
  "read_exact_timed rx deadline n w = (case rx deadline n w of
     (ExactTimeout, w) \<Rightarrow> (Inl Deadline, w)
   | (ExactError, w) \<Rightarrow> (Inl Io, w)
   | (ExactData bs, w) \<Rightarrow> (Inr bs, w))"

definition proxy_addresses :: "nat \<Rightarrow> bytes \<Rightarrow> socket_addr \<times> socket_addr" where
  "proxy_addresses min_len body =
     (if min_len = 12 then
        (sock_new (IpV4 (be_word (take 4 body))) (u16_from_be (body ! 8) (body ! 9)),
         sock_new (IpV4 (be_word (take 4 (drop 4 body)))) (u16_from_be (body ! 10) (body ! 11)))
      else
        (sock_new (IpV6 (be_word (take 16 body))) (u16_from_be (body ! 32) (body ! 33)),
         sock_new (IpV6 (be_word (take 16 (drop 16 body)))) (u16_from_be (body ! 34) (body ! 35))))"

definition proxy_address_ok :: "socket_addr \<Rightarrow> socket_addr \<Rightarrow> bool" where
  "proxy_address_ok src dst \<longleftrightarrow>
     \<not> (is_unspecified (sock_ip src) \<or> is_multicast (sock_ip src) \<or> sock_port src = 0 \<or>
        is_unspecified (sock_ip dst) \<or> sock_port dst = 0)"

text \<open>The checks of the fixed header: the length of the address block and its minimum.\<close>

definition proxy_check_header :: "bytes \<Rightarrow> perror + nat \<times> nat" where
  "proxy_check_header header =
     (if take 12 header \<noteq> SIGNATURE \<or> header ! 12 \<noteq> 0x21 then Inl Invalid
      else bind_result
        (if header ! 13 = 0x11 then Inr 12 else if header ! 13 = 0x21 then Inr 36 else Inl Invalid)
        (\<lambda>min_len. let len = unat (u16_from_be (header ! 14) (header ! 15)) in
           if len < min_len then Inl Invalid
           else if len > MAX_ADDRESS_AND_TLVS then Inl Oversized
           else Inr (min_len, len)))"

definition proxy_read ::
    "('a, 'b) ipnet_ops \<Rightarrow> 'w exact_read \<Rightarrow> socket_addr \<Rightarrow> ('a, 'b) incoming_proxy_v2 \<Rightarrow> instant \<Rightarrow> 'w
      \<Rightarrow> (perror + socket_addr \<times> socket_addr) \<times> 'w" where
  "proxy_read ops rx socket_peer cfg deadline w =
     (if \<not> is_trusted ops (sock_ip socket_peer) cfg then (Inl Invalid, w)
      else case read_exact_timed rx deadline 16 w of
        (Inl e, w) \<Rightarrow> (Inl e, w)
      | (Inr header, w) \<Rightarrow>
          (case proxy_check_header header of
             Inl e \<Rightarrow> (Inl e, w)
           | Inr (min_len, len) \<Rightarrow>
               (case read_exact_timed rx deadline len w of
                  (Inl e, w) \<Rightarrow> (Inl e, w)
                | (Inr body, w) \<Rightarrow>
                    (case proxy_addresses min_len body of (src, dst) \<Rightarrow>
                       if proxy_address_ok src dst then (Inr (src, dst), w) else (Inl Invalid, w)))))"

section \<open>The sender\<close>

text \<open>\<^verbatim>\<open>None\<close> is the \<^verbatim>\<open>InvalidInput\<close> error of an address family mismatch.\<close>

fun proxy_header :: "socket_addr \<Rightarrow> socket_addr \<Rightarrow> bytes option" where
  "proxy_header (SockV4 s sp) (SockV4 d dp) =
     Some (SIGNATURE @ [0x21] @ [0x11] @ be16 12 @ be_bytes 4 s @ be_bytes 4 d @ be16 sp @ be16 dp)"
| "proxy_header (SockV6 s sp sf ss) (SockV6 d dp df ds) =
     Some (SIGNATURE @ [0x21] @ [0x21] @ be16 36 @ be_bytes 16 s @ be_bytes 16 d @ be16 sp @ be16 dp)"
| "proxy_header _ _ = None"

text \<open>What survives the wire: address and port; flow information and scope id do not.\<close>

definition wire_addr :: "socket_addr \<Rightarrow> socket_addr" where
  "wire_addr a = sock_new (sock_ip a) (sock_port a)"

lemma SIGNATURE_length [simp]: "length SIGNATURE = 12"
  by (simp add: SIGNATURE_def)

text \<open>The fixed part and the address block of a header, apart.\<close>

definition proxy_fixed :: "byte \<Rightarrow> u16 \<Rightarrow> bytes" where
  "proxy_fixed family len = SIGNATURE @ [0x21] @ [family] @ be16 len"

lemma proxy_fixed_length [simp]: "length (proxy_fixed family len) = 16"
  by (simp add: proxy_fixed_def)

lemma proxy_fixed_nth [simp]:
  "proxy_fixed family len ! 12 = 0x21" "proxy_fixed family len ! 13 = family"
  "u16_from_be (proxy_fixed family len ! 14) (proxy_fixed family len ! 15) = len"
  by (simp_all add: proxy_fixed_def nth_append)

lemma proxy_check_fixed:
  "proxy_check_header (proxy_fixed 0x11 12) = Inr (12, 12)"
  "proxy_check_header (proxy_fixed 0x21 36) = Inr (36, 36)"
  by (simp_all add: proxy_check_header_def MAX_ADDRESS_AND_TLVS_def) (simp_all add: proxy_fixed_def)

lemma proxy_addresses_block:
  "proxy_addresses 12 (be_bytes 4 s @ be_bytes 4 d @ be16 sp @ be16 dp) = (SockV4 s sp, SockV4 d dp)"
  "proxy_addresses 36 (be_bytes 16 s' @ be_bytes 16 d' @ be16 sp @ be16 dp) = (SockV6 s' sp 0 0, SockV6 d' dp 0 0)"
  by (simp_all add: proxy_addresses_def nth_append)

lemma proxy_header_split:
  assumes "proxy_header src dst = Some hdr"
  obtains family len body where "hdr = proxy_fixed family (of_nat len) @ body" "length body = len"
    "proxy_check_header (proxy_fixed family (of_nat len)) = Inr (len, len)"
    "proxy_addresses len body = (wire_addr src, wire_addr dst)"
  using assms
proof (cases rule: proxy_header.cases [of "(src, dst)"])
  case (1 s sp d dp)
  let ?body = "be_bytes 4 s @ be_bytes 4 d @ be16 sp @ be16 dp"
  have "hdr = proxy_fixed 0x11 (of_nat 12) @ ?body" using assms 1 by (auto simp: proxy_fixed_def)
  moreover have "proxy_addresses 12 ?body = (wire_addr src, wire_addr dst)"
    using 1 by (simp add: proxy_addresses_block wire_addr_def)
  ultimately show ?thesis using proxy_check_fixed(1) by (intro that [of "0x11" 12 ?body]) simp_all
next
  case (2 s sp sf ss d dp df ds)
  let ?body = "be_bytes 16 s @ be_bytes 16 d @ be16 sp @ be16 dp"
  have "hdr = proxy_fixed 0x21 (of_nat 36) @ ?body" using assms 2 by (auto simp: proxy_fixed_def)
  moreover have "proxy_addresses 36 ?body = (wire_addr src, wire_addr dst)"
    using 2 by (simp add: proxy_addresses_block wire_addr_def)
  ultimately show ?thesis using proxy_check_fixed(2) by (intro that [of "0x21" 36 ?body]) simp_all
qed (use assms in auto)

section \<open>The contract of the exact reader\<close>

locale exact_source =
  fixes rx :: "'w exact_read" and pending :: "'w \<Rightarrow> bytes"
  assumes exact_data: "rx deadline n w = (ExactData bs, w') \<Longrightarrow> length bs = n \<and> pending w = bs @ pending w'"
begin

lemma read_exact_timed_data:
  "read_exact_timed rx deadline n w = (Inr bs, w') \<Longrightarrow> length bs = n \<and> pending w = bs @ pending w'"
  by (auto simp: read_exact_timed_def dest: exact_data split: prod.splits exact_outcome.splits)

lemma proxy_read_ok:
  assumes "proxy_read ops rx peer cfg deadline w = (Inr (src, dst), w')"
  shows "is_trusted ops (sock_ip peer) cfg \<and> proxy_address_ok src dst \<and>
    is_ipv6 (sock_ip src) = is_ipv6 (sock_ip dst) \<and>
    (\<exists>header. pending w = header @ pending w' \<and> take 12 header = SIGNATURE \<and> length header \<le> 16 + MAX_ADDRESS_AND_TLVS)"
proof -
  from assms obtain header w1 min_len len body where
    tr: "is_trusted ops (sock_ip peer) cfg"
    and h: "read_exact_timed rx deadline 16 w = (Inr header, w1)"
    and c: "proxy_check_header header = Inr (min_len, len)"
    and b: "read_exact_timed rx deadline len w1 = (Inr body, w')"
    and a: "proxy_addresses min_len body = (src, dst)" "proxy_address_ok src dst"
    unfolding proxy_read_def by (auto split: if_splits prod.splits sum.splits)
  from read_exact_timed_data [OF h] have h': "length header = 16" "pending w = header @ pending w1" by auto
  from read_exact_timed_data [OF b] have b': "length body = len" "pending w1 = body @ pending w'" by auto
  from c have c': "take 12 header = SIGNATURE" "len \<le> MAX_ADDRESS_AND_TLVS"
    by (auto simp: proxy_check_header_def bind_result_Inr Let_def split: if_splits)
  have fam: "is_ipv6 (sock_ip src) = is_ipv6 (sock_ip dst)"
    using a(1) by (auto simp: proxy_addresses_def split: if_splits)
  show ?thesis
    using tr a(2) fam h' b' c' by (auto intro!: exI [of _ "header @ body"])
qed

end

locale prompt_exact = exact_source +
  assumes exact_prompt: "n \<le> length (pending w) \<Longrightarrow> \<exists>w'. rx deadline n w = (ExactData (take n (pending w)), w')"
begin

lemma read_exact_timed_prompt:
  assumes "pending w = bs @ rest" "length bs = n"
  shows "\<exists>w'. read_exact_timed rx deadline n w = (Inr bs, w') \<and> pending w' = rest"
proof -
  from exact_prompt [of n w deadline] assms obtain w' where rx: "rx deadline n w = (ExactData bs, w')" by auto
  from exact_data [OF rx] assms rx show ?thesis by (auto simp: read_exact_timed_def)
qed

lemma proxy_read_header:
  assumes "is_trusted ops (sock_ip peer) cfg" "proxy_header src dst = Some hdr"
    and "proxy_address_ok src dst" "pending w = hdr @ rest"
  shows "\<exists>w'. proxy_read ops rx peer cfg deadline w = (Inr (wire_addr src, wire_addr dst), w') \<and> pending w' = rest"
proof -
  from assms(2) obtain family len body where
    hdr: "hdr = proxy_fixed family (of_nat len) @ body" "length body = len"
    and c: "proxy_check_header (proxy_fixed family (of_nat len)) = Inr (len, len)"
    and a: "proxy_addresses len body = (wire_addr src, wire_addr dst)"
    by (rule proxy_header_split)
  from read_exact_timed_prompt [of w "proxy_fixed family (of_nat len)" "body @ rest" 16 deadline] assms(4) hdr
  obtain w1 where h: "read_exact_timed rx deadline 16 w = (Inr (proxy_fixed family (of_nat len)), w1)"
    and p1: "pending w1 = body @ rest" by auto
  from read_exact_timed_prompt [OF p1 hdr(2), of deadline] obtain w2 where
    b: "read_exact_timed rx deadline len w1 = (Inr body, w2)" "pending w2 = rest" by blast
  have "proxy_address_ok (wire_addr src) (wire_addr dst)"
    using assms(3) by (simp add: proxy_address_ok_def wire_addr_def)
  with assms(1) h c b a show ?thesis by (simp add: proxy_read_def)
qed

end

text \<open>The in-memory stream of the unit tests.\<close>

definition mem_exact :: "bytes exact_read" where
  "mem_exact deadline n data =
     (if n \<le> length data then (ExactData (take n data), drop n data) else (ExactError, data))"

interpretation memx: prompt_exact mem_exact "\<lambda>data. data"
  by unfold_locales (auto simp: mem_exact_def split: if_splits)

section \<open>Properties\<close>

text \<open>
  C39: PROXY v2 round trip: the header that the gate writes for a client is accepted by
  the gate's own receiver from a trusted peer and yields the same client and destination
  (address and port), with the stream positioned right behind the header.
\<close>

theorem proxy_v2_roundtrip:
  assumes "prompt_exact rx pending" "is_trusted ops (sock_ip peer) cfg"
    and "proxy_header src dst = Some hdr" "proxy_address_ok src dst" "pending w = hdr @ rest"
  shows "\<exists>w'. proxy_read ops rx peer cfg deadline w = (Inr (wire_addr src, wire_addr dst), w') \<and> pending w' = rest"
  using prompt_exact.proxy_read_header [OF assms] .

theorem proxy_v2_roundtrip_witness:
  "\<exists>w'. proxy_read cidr_ops mem_exact (SockV4 0xC0000205 456)
      \<lparr>ipx_enabled = True, ipx_trusted_proxies = [NetV4 (Cidr4 0xC0000200 24)]\<rparr> 9
      (the (proxy_header (SockV4 0xCB007107 1234) (SockV4 0xC6336405 25565)) @ [1, 0])
    = (Inr (SockV4 0xCB007107 1234, SockV4 0xC6336405 25565), w') \<and> w' = [1, 0]"
proof -
  let ?src = "SockV4 0xCB007107 1234" and ?dst = "SockV4 0xC6336405 25565"
  let ?cfg = "\<lparr>ipx_enabled = True, ipx_trusted_proxies = [NetV4 (Cidr4 0xC0000200 24)]\<rparr>"
  have "is_trusted cidr_ops (sock_ip (SockV4 0xC0000205 456)) ?cfg"
    by (simp add: is_trusted_def normalize_def netmask_eval)
  moreover have "proxy_header ?src ?dst = Some (the (proxy_header ?src ?dst))" by simp
  moreover have "proxy_address_ok ?src ?dst" by (simp add: proxy_address_ok_def)
  ultimately have "\<exists>w'. proxy_read cidr_ops mem_exact (SockV4 0xC0000205 456) ?cfg 9 (the (proxy_header ?src ?dst) @ [1, 0])
      = (Inr (wire_addr ?src, wire_addr ?dst), w') \<and> w' = [1, 0]"
    using proxy_v2_roundtrip [OF memx.prompt_exact_axioms] by blast
  then show ?thesis by (simp add: wire_addr_def)
qed

text \<open>
  C29: Fail-closed ingress: an identity is accepted only from a configured peer, only
  with a usable source and destination (no unspecified or multicast source, no zero
  port, one address family), and costs at most the fixed header and 4096 bytes of
  addresses and extensions, read from the front of the stream; an untrusted peer is
  refused before a single byte is read.
\<close>

theorem proxy_v2_fail_closed:
  assumes "exact_source rx pending"
  shows "(proxy_read ops rx peer cfg deadline w = (Inr (src, dst), w') \<longrightarrow>
      is_trusted ops (sock_ip peer) cfg \<and> proxy_address_ok src dst \<and>
      is_ipv6 (sock_ip src) = is_ipv6 (sock_ip dst) \<and>
      (\<exists>header. pending w = header @ pending w' \<and> take 12 header = SIGNATURE \<and>
         length header \<le> 16 + MAX_ADDRESS_AND_TLVS)) \<and>
    (\<not> is_trusted ops (sock_ip peer) cfg \<longrightarrow> proxy_read ops rx peer cfg deadline w = (Inl Invalid, w))"
  using exact_source.proxy_read_ok [OF assms, of ops peer cfg deadline w src dst w']
  by (auto simp: proxy_read_def [of ops rx peer cfg deadline w] split del: if_split split: if_splits)

theorem proxy_v2_fail_closed_witness:
  "proxy_read cidr_ops mem_exact (SockV4 0x01020304 456)
      \<lparr>ipx_enabled = True, ipx_trusted_proxies = [NetV4 (Cidr4 0xC0000200 24)]\<rparr> 9 [1, 2] = (Inl Invalid, [1, 2])"
proof -
  have "\<not> is_trusted cidr_ops (sock_ip (SockV4 0x01020304 456))
      \<lparr>ipx_enabled = True, ipx_trusted_proxies = [NetV4 (Cidr4 0xC0000200 24)]\<rparr>"
    by (simp add: is_trusted_def normalize_def netmask_eval)
  then show ?thesis
    using proxy_v2_fail_closed [OF memx.exact_source_axioms] by blast
qed

text \<open>
  Trust follows the client's IPv4 network on dual-stack sockets: an IPv4-mapped
  IPv6 peer is trusted exactly when the embedded IPv4 address is.
\<close>

lemma is_trusted_mapped: "is_trusted ops (IpV6 (mapped a)) cfg = is_trusted ops (IpV4 a) cfg"
  by (simp add: is_trusted_def normalize_def)

end
