(* ===== verification/Metrics.thy ===== *)
theory Metrics
  imports Prelude
begin

text \<open>
  metrics.rs: the vector of atomic 64-bit counters. An operation takes the vector
  and returns the updated one; \<^verbatim>\<open>fetch_add\<close> and \<^verbatim>\<open>fetch_sub\<close> wrap. Indexing past
  the end panics in the source: \<open>metrics_wf\<close> fixes the length to that of \<open>metric_names\<close>,
  and every index the gate uses is a literal below it.
\<close>

type_synonym metrics = "u64 list"

definition metric_names :: "string list" where
  "metric_names = [
    ''tcp_accepts'', ''active_connections'', ''active_prelogin'', ''backend_connections'',
    ''handshake_ok'', ''handshake_invalid'', ''status_requests'', ''login_starts'',
    ''invalid_varint'', ''oversized_packet'', ''unsupported_protocol'', ''handshake_timeout'',
    ''slow_connection'', ''close_before_handshake'', ''rate_limited_ip'', ''rate_limited_prefix'',
    ''rate_limited_global'', ''backend_connect_failures'', ''prelogin_duration_microseconds_sum'',
    ''prelogin_duration_count'', ''resource_limited'', ''identity_table_full'', ''churn'',
    ''status_refresh_failures'', ''status_cache_fallback'', ''relay_errors'', ''accept_errors'',
    ''observed_rate_limit'', ''new_ip_entries'', ''new_prefix_entries'', ''admitted_clients'',
    ''backend_connect_attempts'', ''ip_entries'', ''prefix_entries'', ''mode'', ''observe'',
    ''active_status'', ''status_capacity_limited'',
    ''prelogin_source_limited'', ''upload_budget_exceeded_connections'',
    ''monitored_upload_bytes'', ''monitored_download_bytes'', ''runtime_generation'', ''runtime_rejected_reads'',
    ''status_source_limited'',
    ''relay_stall_timeouts'', ''half_close_timeouts'', ''backend_protection_rejected'', ''backend_circuit_opened'',
    ''client_idle_timeouts'', ''backend_dial_rate_limited'',
    ''runtime_missing_reads'',
    ''proxy_v2_ingress_accepted'',
    ''proxy_v2_ingress_untrusted'',
    ''proxy_v2_ingress_invalid'',
    ''proxy_v2_ingress_timeout'']"

definition PROXY_V2_ACCEPTED :: nat where
  "PROXY_V2_ACCEPTED = 52"

definition PROXY_V2_UNTRUSTED :: nat where
  "PROXY_V2_UNTRUSTED = 53"

definition PROXY_V2_INVALID :: nat where
  "PROXY_V2_INVALID = 54"

definition PROXY_V2_TIMEOUT :: nat where
  "PROXY_V2_TIMEOUT = 55"

definition metrics_new :: metrics where
  "metrics_new = map (\<lambda>_. 0) metric_names"

definition metrics_add :: "metrics \<Rightarrow> nat \<Rightarrow> u64 \<Rightarrow> metrics" where
  "metrics_add m n v = m[n := m ! n + v]"

definition metrics_inc :: "metrics \<Rightarrow> nat \<Rightarrow> metrics" where
  "metrics_inc m n = metrics_add m n 1"

definition metrics_dec :: "metrics \<Rightarrow> nat \<Rightarrow> metrics" where
  "metrics_dec m n = m[n := m ! n - 1]"

definition metrics_set :: "metrics \<Rightarrow> nat \<Rightarrow> u64 \<Rightarrow> metrics" where
  "metrics_set m n v = m[n := v]"

definition metrics_get :: "metrics \<Rightarrow> nat \<Rightarrow> u64" where
  "metrics_get m n = m ! n"

text \<open>A \<^verbatim>\<open>Gauge\<close> increments on creation and decrements when it is dropped.\<close>

definition gauge_new :: "metrics \<Rightarrow> nat \<Rightarrow> metrics" where
  "gauge_new m n = metrics_inc m n"

definition gauge_drop :: "metrics \<Rightarrow> nat \<Rightarrow> metrics" where
  "gauge_drop m n = metrics_dec m n"

definition metrics_wf :: "metrics \<Rightarrow> bool" where
  "metrics_wf m \<longleftrightarrow> length m = 56"

lemma metric_names_length [simp]: "length metric_names = 56"
  by (simp add: metric_names_def)

lemma metrics_new_wf [simp]: "metrics_wf metrics_new"
  by (simp add: metrics_wf_def metrics_new_def)

lemma metrics_wf_ops [simp]:
  "metrics_wf (metrics_add m n v) = metrics_wf m"
  "metrics_wf (metrics_inc m n) = metrics_wf m"
  "metrics_wf (metrics_dec m n) = metrics_wf m"
  "metrics_wf (metrics_set m n v) = metrics_wf m"
  by (simp_all add: metrics_wf_def metrics_add_def metrics_inc_def metrics_dec_def metrics_set_def)

lemma metrics_get_add:
  "metrics_wf m \<Longrightarrow> n < 56 \<Longrightarrow>
     metrics_get (metrics_add m n v) k = (if k = n then metrics_get m n + v else metrics_get m k)"
  by (simp add: metrics_get_def metrics_add_def metrics_wf_def)

lemma metrics_get_inc:
  "metrics_wf m \<Longrightarrow> n < 56 \<Longrightarrow>
     metrics_get (metrics_inc m n) k = (if k = n then metrics_get m n + 1 else metrics_get m k)"
  by (simp add: metrics_inc_def metrics_get_add)

lemma metrics_get_dec:
  "metrics_wf m \<Longrightarrow> n < 56 \<Longrightarrow>
     metrics_get (metrics_dec m n) k = (if k = n then metrics_get m n - 1 else metrics_get m k)"
  by (simp add: metrics_get_def metrics_dec_def metrics_wf_def)

lemma metrics_get_set:
  "metrics_wf m \<Longrightarrow> n < 56 \<Longrightarrow>
     metrics_get (metrics_set m n v) k = (if k = n then v else metrics_get m k)"
  by (simp add: metrics_get_def metrics_set_def metrics_wf_def)

lemmas metrics_gets = metrics_get_add metrics_get_inc metrics_get_dec metrics_get_set

lemma gauge_drop_new: "metrics_wf m \<Longrightarrow> n < 56 \<Longrightarrow> gauge_drop (gauge_new m n) n = m"
  by (simp add: gauge_drop_def gauge_new_def metrics_inc_def metrics_add_def metrics_dec_def metrics_wf_def)

end
