(* ===== verification/Limiter.thy ===== *)
theory Limiter
  imports Config_Types Metrics
begin

text \<open>
  limiter.rs: token buckets, per-identity entries, the sharded bounded tables and the
  admission operations \<^verbatim>\<open>accept\<close>, \<^verbatim>\<open>event\<close>, \<^verbatim>\<open>enter_status\<close>, \<^verbatim>\<open>mark_admitted\<close>, \<^verbatim>\<open>drop\<close> and
  \<^verbatim>\<open>sweep\<close>. The clock reading \<^verbatim>\<open>Instant::now()\<close> of an operation is its argument \<open>now\<close>,
  the metrics vector that all components share is passed in and returned, the random
  hash of a table is a field of it, and the library function \<^verbatim>\<open>2f64.powf\<close>, whose
  precision is unspecified, is the parameter \<open>powf2\<close>.
\<close>

section \<open>Token buckets\<close>

datatype event_kind = EvConnect | EvHandshake | EvStatus | EvLogin

fun event_index :: "event_kind \<Rightarrow> nat" where
  "event_index EvConnect = 0"
| "event_index EvHandshake = 1"
| "event_index EvStatus = 2"
| "event_index EvLogin = 3"

record policy =
  p_mode :: usize
  p_observe :: bool
  p_exempt :: bool

record bucket =
  bk_tokens :: f64
  bk_last :: instant
  bk_rate :: rate

definition bucket_new :: "rate \<Rightarrow> instant \<Rightarrow> bucket" where
  "bucket_new r now = \<lparr>bk_tokens = burst r, bk_last = now, bk_rate = r\<rparr>"

definition bucket_cap :: "rate \<Rightarrow> f64 \<Rightarrow> bool \<Rightarrow> f64" where
  "bucket_cap r factor preserve_burst = f64_max (burst r * (if preserve_burst then 1 else factor)) 1"

definition bucket_available :: "bucket \<Rightarrow> instant \<Rightarrow> f64 \<Rightarrow> bool \<Rightarrow> bool \<times> bucket" where
  "bucket_available b now factor preserve_burst =
     (if f64_eq (per_second (bk_rate b)) 0 then (True, b)
      else let cap = bucket_cap (bk_rate b) factor preserve_burst;
               tokens = f64_min (bk_tokens b +
                 as_secs_f64 (saturating_duration_since now (bk_last b)) * per_second (bk_rate b) * factor) cap;
               b = b\<lparr>bk_tokens := tokens, bk_last := max (bk_last b) now\<rparr>
           in (1 \<le> tokens, b))"

definition bucket_consume :: "bucket \<Rightarrow> bucket" where
  "bucket_consume b =
     (if 0 < per_second (bk_rate b) then b\<lparr>bk_tokens := bk_tokens b - 1\<rparr> else b)"

definition bucket_take :: "bucket \<Rightarrow> instant \<Rightarrow> f64 \<Rightarrow> bool \<Rightarrow> bool \<times> bucket" where
  "bucket_take b now factor preserve_burst =
     (case bucket_available b now factor preserve_burst of (ok, b) \<Rightarrow>
        if \<not> ok then (False, b) else (True, bucket_consume b))"

section \<open>Entries and tables\<close>

record entry =
  en_active :: usize
  en_pending :: usize
  en_status :: usize
  en_touched :: instant
  en_buckets :: "bucket list"
  en_score :: f64
  en_score_at :: instant
  en_penalty_until :: instant

definition entry_new :: "rates \<Rightarrow> instant \<Rightarrow> entry" where
  "entry_new r now = \<lparr>en_active = 0, en_pending = 0, en_status = 0, en_touched = now,
     en_buckets = map (\<lambda>x. bucket_new x now) (rates_list r), en_score = 0,
     en_score_at = now, en_penalty_until = now\<rparr>"

definition entry_decay :: "(f64 \<Rightarrow> f64) \<Rightarrow> entry \<Rightarrow> instant \<Rightarrow> nat \<Rightarrow> entry" where
  "entry_decay powf2 e now half_life =
     e\<lparr>en_score := en_score e * powf2 (- as_secs_f64 (saturating_duration_since now (en_score_at e)) / f64_of_nat half_life),
       en_score_at := now\<rparr>"

definition SHARDS :: nat where
  "SHARDS = 64"

record table =
  tb_shards :: "(ip_addr, entry) fmap list"
  tb_hash :: "ip_addr \<Rightarrow> nat"
  tb_capacity :: usize

definition table_new :: "(ip_addr \<Rightarrow> nat) \<Rightarrow> usize \<Rightarrow> table" where
  "table_new hash capacity =
     \<lparr>tb_shards = replicate SHARDS fmempty, tb_hash = hash, tb_capacity = capacity div SHARDS\<rparr>"

definition table_shard :: "table \<Rightarrow> ip_addr \<Rightarrow> nat" where
  "table_shard t ip = tb_hash t ip mod SHARDS"

text \<open>The locked shard of a key: lookup, insertion and its number of entries.\<close>

definition table_get :: "table \<Rightarrow> ip_addr \<Rightarrow> entry option" where
  "table_get t k = fmlookup (tb_shards t ! table_shard t k) k"

definition table_put :: "table \<Rightarrow> ip_addr \<Rightarrow> entry \<Rightarrow> table" where
  "table_put t k e =
     t\<lparr>tb_shards := (tb_shards t)[table_shard t k := fmupd k e (tb_shards t ! table_shard t k)]\<rparr>"

definition table_len :: "table \<Rightarrow> ip_addr \<Rightarrow> nat" where
  "table_len t k = fm_len (tb_shards t ! table_shard t k)"

definition table_modify :: "table \<Rightarrow> ip_addr \<Rightarrow> (entry \<Rightarrow> entry) \<Rightarrow> table" where
  "table_modify t k f = (case table_get t k of Some e \<Rightarrow> table_put t k (f e) | None \<Rightarrow> t)"

record limiter =
  li_ip :: table
  li_prefix :: table
  li_global :: "bucket list"
  li_cfg :: limits

record ticket =
  tk_ip :: ip_addr
  tk_prefix :: ip_addr
  tk_handshake :: bool
  tk_admitted :: bool
  tk_status_complete :: bool
  tk_server_rejected :: bool
  tk_status :: bool

definition limiter_new :: "limits \<Rightarrow> (ip_addr \<Rightarrow> nat) \<Rightarrow> (ip_addr \<Rightarrow> nat) \<Rightarrow> instant \<Rightarrow> limiter" where
  "limiter_new cfg hash_ip hash_prefix now =
     \<lparr>li_ip = table_new hash_ip (lim_ip_entries cfg),
      li_prefix = table_new hash_prefix (lim_prefix_entries cfg),
      li_global = map (\<lambda>r. bucket_new r now) (rates_list (lim_global cfg)), li_cfg = cfg\<rparr>"

section \<open>Admission\<close>

definition judged :: "metrics \<Rightarrow> bool \<Rightarrow> nat \<Rightarrow> policy \<Rightarrow> bool \<times> metrics" where
  "judged m allowed reason p =
     (if allowed \<or> p_exempt p then (True, m)
      else if p_observe p then (True, metrics_inc m 27)
      else (False, metrics_inc m reason))"

text \<open>One bucket of an entry: refreshed (\<^verbatim>\<open>available\<close>) or spent (\<^verbatim>\<open>consume\<close>) in place.\<close>

definition entry_available :: "entry \<Rightarrow> nat \<Rightarrow> instant \<Rightarrow> f64 \<Rightarrow> bool \<Rightarrow> bool \<times> entry" where
  "entry_available e i now factor preserve_burst =
     (case bucket_available (en_buckets e ! i) now factor preserve_burst of (ok, b) \<Rightarrow>
        (ok \<and> now \<ge> en_penalty_until e, e\<lparr>en_buckets := (en_buckets e)[i := b]\<rparr>))"

definition entry_consume :: "entry \<Rightarrow> nat \<Rightarrow> entry" where
  "entry_consume e i = e\<lparr>en_buckets := (en_buckets e)[i := bucket_consume (en_buckets e ! i)]\<rparr>"

definition global_available :: "limiter \<Rightarrow> nat \<Rightarrow> instant \<Rightarrow> f64 \<Rightarrow> bool \<times> limiter" where
  "global_available l i now factor =
     (case bucket_available (li_global l ! i) now factor (lim_preserve_burst (li_cfg l)) of (ok, b) \<Rightarrow>
        (ok, l\<lparr>li_global := (li_global l)[i := b]\<rparr>))"

definition global_consume :: "limiter \<Rightarrow> nat \<Rightarrow> limiter" where
  "global_consume l i = l\<lparr>li_global := (li_global l)[i := bucket_consume (li_global l ! i)]\<rparr>"

text \<open>
  The entries that an operation works on: an existing one is updated in its table even
  when the operation rejects, a provisional one is discarded.
\<close>

definition put_existing :: "limiter \<Rightarrow> bool \<Rightarrow> ip_addr \<Rightarrow> entry \<Rightarrow> bool \<Rightarrow> ip_addr \<Rightarrow> entry \<Rightarrow> limiter" where
  "put_existing l new_ip ip i new_prefix prefix net =
     l\<lparr>li_ip := (if new_ip then li_ip l else table_put (li_ip l) ip i),
       li_prefix := (if new_prefix then li_prefix l else table_put (li_prefix l) prefix net)\<rparr>"

definition ticket_new :: "ip_addr \<Rightarrow> ip_addr \<Rightarrow> ticket" where
  "ticket_new ip prefix = \<lparr>tk_ip = ip, tk_prefix = prefix, tk_handshake = False, tk_admitted = False,
     tk_status_complete = False, tk_server_rejected = False, tk_status = False\<rparr>"

definition entry_admit :: "entry \<Rightarrow> entry" where
  "entry_admit e = e\<lparr>en_active := usize_inc (en_active e), en_pending := usize_inc (en_pending e)\<rparr>"

text \<open>The commit at the end of \<^verbatim>\<open>accept\<close>: spend the tokens, count the connection, insert new identities.\<close>

definition accept_commit ::
    "limiter \<Rightarrow> metrics \<Rightarrow> policy \<Rightarrow> bool \<Rightarrow> ip_addr \<Rightarrow> entry \<Rightarrow> bool \<Rightarrow> bool \<Rightarrow> ip_addr \<Rightarrow> entry \<Rightarrow> bool \<Rightarrow> bool
      \<Rightarrow> ticket option \<times> limiter \<times> metrics" where
  "accept_commit l m p new_ip ip i ip_ok new_prefix prefix net prefix_ok global_ok =
     (let i = (if \<not> p_exempt p \<and> ip_ok then entry_consume i 0 else i);
          net = (if \<not> p_exempt p \<and> prefix_ok then entry_consume net 0 else net);
          l = (if global_ok then global_consume l 0 else l);
          m = (if new_ip then metrics_inc (metrics_inc m 28) 32 else m);
          m = (if new_prefix then metrics_inc (metrics_inc m 29) 33 else m)
      in (Some (ticket_new ip prefix),
          l\<lparr>li_ip := table_put (li_ip l) ip (entry_admit i),
            li_prefix := table_put (li_prefix l) prefix (entry_admit net)\<rparr>, m))"

definition accept :: "limiter \<Rightarrow> metrics \<Rightarrow> ip_addr \<Rightarrow> policy \<Rightarrow> instant \<Rightarrow> ticket option \<times> limiter \<times> metrics" where
  "accept l m addr p now =
     (let cfg = li_cfg l; ip = normalize addr;
          prefix = subnet ip (lim_ipv4_prefix cfg) (lim_ipv6_prefix cfg);
          new_ip = (table_get (li_ip l) ip = None);
          new_prefix = (table_get (li_prefix l) prefix = None)
      in if new_ip \<and> table_len (li_ip l) ip \<ge> tb_capacity (li_ip l) \<or>
            new_prefix \<and> table_len (li_prefix l) prefix \<ge> tb_capacity (li_prefix l)
         then (None, l, metrics_inc m 21)
         else
           let i = (case table_get (li_ip l) ip of Some e \<Rightarrow> e | None \<Rightarrow> entry_new (lim_ip cfg) now);
               net = (case table_get (li_prefix l) prefix of Some e \<Rightarrow> e | None \<Rightarrow> entry_new (lim_prefix cfg) now);
               i = i\<lparr>en_touched := now\<rparr>; net = net\<lparr>en_touched := now\<rparr>
           in if lim_connections_ip cfg > 0 \<and> en_active i \<ge> lim_connections_ip cfg \<or>
                 lim_connections_prefix cfg > 0 \<and> en_active net \<ge> lim_connections_prefix cfg
              then (None, put_existing l new_ip ip i new_prefix prefix net, metrics_inc m 20)
              else if lim_prelogin_ip cfg > 0 \<and> en_pending i \<ge> lim_prelogin_ip cfg \<or>
                 lim_prelogin_prefix cfg > 0 \<and> en_pending net \<ge> lim_prelogin_prefix cfg
              then (None, put_existing l new_ip ip i new_prefix prefix net, metrics_inc (metrics_inc m 20) 38)
              else
                let factor = lim_mode_multipliers cfg ! p_mode p in
                case entry_available i 0 now factor (lim_preserve_burst cfg) of (ip_ok, i) \<Rightarrow>
                case entry_available net 0 now factor (lim_preserve_burst cfg) of (prefix_ok, net) \<Rightarrow>
                case judged m ip_ok 14 p of (go, m) \<Rightarrow>
                if \<not> go then (None, put_existing l new_ip ip i new_prefix prefix net, m)
                else case judged m prefix_ok 15 p of (go, m) \<Rightarrow>
                if \<not> go then (None, put_existing l new_ip ip i new_prefix prefix net, m)
                else case global_available l 0 now factor of (global_ok, l) \<Rightarrow>
                case judged m global_ok 16 (p\<lparr>p_exempt := False\<rparr>) of (go, m) \<Rightarrow>
                if \<not> go then (None, put_existing l new_ip ip i new_prefix prefix net, m)
                else accept_commit l m p new_ip ip i ip_ok new_prefix prefix net prefix_ok global_ok)"

text \<open>\<^verbatim>\<open>event\<close>: both entries exist, so every update is in place.\<close>

definition event :: "limiter \<Rightarrow> metrics \<Rightarrow> ticket \<Rightarrow> event_kind \<Rightarrow> policy \<Rightarrow> instant \<Rightarrow> bool \<times> limiter \<times> metrics" where
  "event l m t ev p now =
     (let cfg = li_cfg l; factor = lim_mode_multipliers cfg ! p_mode p; index = event_index ev in
      case (table_get (li_ip l) (tk_ip t), table_get (li_prefix l) (tk_prefix t)) of
        (Some i, Some net) \<Rightarrow>
          (let i = i\<lparr>en_touched := now\<rparr>; net = net\<lparr>en_touched := now\<rparr> in
           case entry_available i index now factor (lim_preserve_burst cfg) of (ip_ok, i) \<Rightarrow>
           case judged m ip_ok 14 p of (go, m) \<Rightarrow>
           if \<not> go then (False, put_existing l False (tk_ip t) i False (tk_prefix t) net, m)
           else case entry_available net index now factor (lim_preserve_burst cfg) of (prefix_ok, net) \<Rightarrow>
           case judged m prefix_ok 15 p of (go, m) \<Rightarrow>
           if \<not> go then (False, put_existing l False (tk_ip t) i False (tk_prefix t) net, m)
           else case global_available l index now factor of (global_ok, l) \<Rightarrow>
           case judged m global_ok 16 (p\<lparr>p_exempt := False\<rparr>) of (go, m) \<Rightarrow>
           if \<not> go then (False, put_existing l False (tk_ip t) i False (tk_prefix t) net, m)
           else
             let i = (if \<not> p_exempt p \<and> ip_ok then entry_consume i index else i);
                 net = (if \<not> p_exempt p \<and> prefix_ok then entry_consume net index else net);
                 l = (if global_ok then global_consume l index else l)
             in (True, put_existing l False (tk_ip t) i False (tk_prefix t) net, m))
      | _ \<Rightarrow> (False, l, m))"

section \<open>Tickets\<close>

definition enter_status :: "limiter \<Rightarrow> metrics \<Rightarrow> ticket \<Rightarrow> bool \<times> ticket \<times> limiter \<times> metrics" where
  "enter_status l m t =
     (if tk_status t then (True, t, l, m)
      else case table_get (li_ip l) (tk_ip t) of
        None \<Rightarrow> (False, t, l, m)
      | Some e \<Rightarrow>
          if lim_status_ip (li_cfg l) > 0 \<and> en_status e \<ge> lim_status_ip (li_cfg l)
          then (False, t\<lparr>tk_server_rejected := True\<rparr>, l, metrics_inc (metrics_inc m 20) 44)
          else (True, t\<lparr>tk_status := True\<rparr>,
                l\<lparr>li_ip := table_put (li_ip l) (tk_ip t) (e\<lparr>en_status := usize_inc (en_status e)\<rparr>)\<rparr>, m))"

definition entry_mark :: "entry \<Rightarrow> entry" where
  "entry_mark e = e\<lparr>en_pending := usize_dec (en_pending e)\<rparr>"

definition mark_admitted :: "limiter \<Rightarrow> ticket \<Rightarrow> ticket \<times> limiter" where
  "mark_admitted l t =
     (if tk_admitted t then (t, l)
      else (t\<lparr>tk_admitted := True\<rparr>,
            l\<lparr>li_ip := table_modify (li_ip l) (tk_ip t) entry_mark,
              li_prefix := table_modify (li_prefix l) (tk_prefix t) entry_mark\<rparr>))"

definition ticket_churn :: "ticket \<Rightarrow> bool" where
  "ticket_churn t \<longleftrightarrow> \<not> tk_server_rejected t \<and> \<not> tk_status_complete t \<and> \<not> tk_admitted t"

text \<open>The loop body of \<^verbatim>\<open>Drop for Ticket\<close>, for the IP table (\<open>is_ip\<close>) or the prefix table.\<close>

definition entry_drop :: "(f64 \<Rightarrow> f64) \<Rightarrow> limits \<Rightarrow> ticket \<Rightarrow> instant \<Rightarrow> bool \<Rightarrow> f64 \<Rightarrow> entry \<Rightarrow> entry" where
  "entry_drop powf2 cfg t now is_ip threshold e =
     (let e = e\<lparr>en_active := usize_dec (en_active e), en_touched := now\<rparr>;
          e = (if tk_status t \<and> is_ip then e\<lparr>en_status := usize_dec (en_status e)\<rparr> else e);
          e = (if \<not> tk_admitted t then e\<lparr>en_pending := usize_dec (en_pending e)\<rparr> else e)
      in if ticket_churn t \<and> 0 < threshold then
           let e = entry_decay powf2 e now (lim_churn_half_life_seconds cfg);
               e = e\<lparr>en_score := f64_min (en_score e + (if tk_handshake t then Fin (1 / 4) else 1)) (Fin 1000000)\<rparr>
           in if threshold \<le> en_score e
              then e\<lparr>en_penalty_until := now + from_secs (lim_penalty_seconds cfg)\<rparr> else e
         else e)"

definition ticket_drop :: "(f64 \<Rightarrow> f64) \<Rightarrow> limiter \<Rightarrow> metrics \<Rightarrow> ticket \<Rightarrow> instant \<Rightarrow> limiter \<times> metrics" where
  "ticket_drop powf2 l m t now =
     (let cfg = li_cfg l;
          m = (if ticket_churn t then metrics_inc m 22 else m);
          m = (if \<not> tk_handshake t then metrics_inc m 13 else m)
      in (l\<lparr>li_ip := table_modify (li_ip l) (tk_ip t)
              (entry_drop powf2 cfg t now True (lim_churn_score_threshold cfg)),
            li_prefix := table_modify (li_prefix l) (tk_prefix t)
              (entry_drop powf2 cfg t now False (lim_churn_prefix_score_threshold cfg))\<rparr>, m))"

section \<open>Maintenance\<close>

definition entry_keep :: "limits \<Rightarrow> instant \<Rightarrow> entry \<Rightarrow> bool" where
  "entry_keep cfg now e \<longleftrightarrow> en_active e > 0 \<or> now < en_penalty_until e \<or>
     as_secs (saturating_duration_since now (en_touched e)) < lim_idle_entry_seconds cfg"

text \<open>One shard of one table; the gauge is decremented once per removed entry.\<close>

definition table_sweep :: "limits \<Rightarrow> table \<Rightarrow> metrics \<Rightarrow> nat \<Rightarrow> nat \<Rightarrow> instant \<Rightarrow> table \<times> metrics" where
  "table_sweep cfg t m gauge shard now =
     (let old = tb_shards t ! (shard mod SHARDS); kept = fm_retain (entry_keep cfg now) old in
      (t\<lparr>tb_shards := (tb_shards t)[shard mod SHARDS := kept]\<rparr>,
       ((\<lambda>m. metrics_dec m gauge) ^^ (fm_len old - fm_len kept)) m))"

definition sweep :: "limiter \<Rightarrow> metrics \<Rightarrow> nat \<Rightarrow> instant \<Rightarrow> limiter \<times> metrics" where
  "sweep l m shard now =
     (case table_sweep (li_cfg l) (li_ip l) m 32 shard now of (ip, m) \<Rightarrow>
      case table_sweep (li_cfg l) (li_prefix l) m 33 shard now of (prefix, m) \<Rightarrow>
        (l\<lparr>li_ip := ip, li_prefix := prefix\<rparr>, m))"

end
