(* ===== verification/Limiter_Buckets.thy ===== *)
theory Limiter_Buckets
  imports Limiter
begin

text \<open>
  Facts about the token buckets of limiter.rs. The locale \<open>quota\<close> is the contract of a
  budget that hands out units and does not refill while the clock stands still; it
  bounds the number of grants of any sequence of attempts. The limiter's buckets are
  interpreted here, the dial budget of the backend protection in its own theory.
\<close>

section \<open>Quotas\<close>

text \<open>A sequence of attempts on a budget: the number of grants and the final budget.\<close>

fun tries :: "('t \<Rightarrow> 's \<Rightarrow> bool \<times> 's) \<Rightarrow> 't list \<Rightarrow> 's \<Rightarrow> nat \<times> 's" where
  "tries f [] s = (0, s)"
| "tries f (t # ts) s = (case f t s of (hit, s') \<Rightarrow> case tries f ts s' of (n, s'') \<Rightarrow> (of_bool hit + n, s''))"

locale quota =
  fixes good :: "'s \<Rightarrow> bool"
    and at_most :: "nat \<Rightarrow> 's \<Rightarrow> bool"
    and frozen :: "'t \<Rightarrow> 's \<Rightarrow> bool"
    and attempt :: "'t \<Rightarrow> 's \<Rightarrow> bool \<times> 's"
  assumes attempt_good: "\<lbrakk>good s; attempt t s = (hit, s')\<rbrakk> \<Longrightarrow> good s'"
    and attempt_frozen: "\<lbrakk>good s; attempt t s = (hit, s'); frozen u s\<rbrakk> \<Longrightarrow> frozen u s'"
    and attempt_hit: "\<lbrakk>good s; frozen t s; at_most k s; attempt t s = (True, s')\<rbrakk> \<Longrightarrow> \<exists>j. k = Suc j \<and> at_most j s'"
    and attempt_miss: "\<lbrakk>good s; frozen t s; at_most k s; attempt t s = (False, s')\<rbrakk> \<Longrightarrow> at_most k s'"
begin

lemma tries_at_most:
  assumes "good s" "at_most k s" "\<And>t. t \<in> set ts \<Longrightarrow> frozen t s"
  shows "fst (tries attempt ts s) \<le> k"
  using assms
proof (induction ts arbitrary: s k)
  case (Cons t ts)
  obtain hit s' where a: "attempt t s = (hit, s')" by (cases "attempt t s")
  have s': "good s'" and fr: "\<And>u. u \<in> set ts \<Longrightarrow> frozen u s'"
    using attempt_good [OF Cons.prems(1) a] attempt_frozen [OF Cons.prems(1) a] Cons.prems(3) by auto
  show ?case
  proof (cases hit)
    case True
    then obtain j where "k = Suc j" "at_most j s'"
      using attempt_hit [OF Cons.prems(1) _ Cons.prems(2)] Cons.prems(3) a by auto
    then show ?thesis using Cons.IH [OF s' _ fr] a True by (auto split: prod.split)
  next
    case False
    then have "at_most k s'" using attempt_miss [OF Cons.prems(1) _ Cons.prems(2)] Cons.prems(3) a by auto
    then show ?thesis using Cons.IH [OF s' _ fr] a False by (auto split: prod.split)
  qed
qed simp

lemma tries_good: "good s \<Longrightarrow> good (snd (tries attempt ts s))"
  by (induction ts arbitrary: s) (auto split: prod.split dest: attempt_good, metis snd_conv attempt_good)

end

section \<open>The bucket invariant\<close>

definition bucket_wf :: "bucket \<Rightarrow> bool" where
  "bucket_wf b \<longleftrightarrow> rate_valid (bk_rate b) \<and> 0 \<le> bk_tokens b"

definition factor_ok :: "f64 \<Rightarrow> bool" where
  "factor_ok f \<longleftrightarrow> is_finite f \<and> 0 < f \<and> f \<le> 1"

lemma factor_okE:
  assumes "factor_ok f"
  obtains x where "f = Fin x" "0 < x" "x \<le> 1"
  using assms by (cases f) (auto simp: factor_ok_def is_finite_def f64_simps)

lemma bucket_new_wf [simp]: "rate_valid r \<Longrightarrow> bucket_wf (bucket_new r now)"
  by (auto simp: bucket_wf_def bucket_new_def rate_valid_def)

lemma bucket_new_rate [simp]: "bk_rate (bucket_new r now) = r"
  by (simp add: bucket_new_def)

lemma bucket_cap_ge_one [simp]: "1 \<le> bucket_cap r f pb"
  by (simp add: bucket_cap_def f64_max_ge one_f64_def)

lemma f64_zero_le_one [simp]: "(0 :: f64) \<le> 1"
  by (simp add: f64_simps)

lemma bucket_cap_nonneg [simp]: "0 \<le> bucket_cap r f pb"
  using f64_trans [of 0 1 "bucket_cap r f pb"] by simp

lemma refill_nonneg:
  assumes "rate_valid r" "\<not> f64_eq (per_second r) 0" "factor_ok f"
  shows "0 \<le> as_secs_f64 d * per_second r * f"
proof -
  obtain p b where "per_second r = Fin p" "0 \<le> p"
    using assms(1) by (rule rate_valid_finite)
  with assms(2) have "per_second r = Fin p" "0 < p" by (auto simp: f64_simps)
  moreover obtain x where "f = Fin x" "0 < x" using assms(3) by (rule factor_okE)
  ultimately show ?thesis by (simp add: f64_mult_nonneg)
qed

lemma bucket_available_rate [simp]: "bk_rate (snd (bucket_available b now f pb)) = bk_rate b"
  by (simp add: bucket_available_def Let_def)

lemma bucket_consume_rate [simp]: "bk_rate (bucket_consume b) = bk_rate b"
  by (simp add: bucket_consume_def)

text \<open>A refresh leaves the tokens of a limited bucket between zero and its capacity.\<close>

lemma bucket_available_bounds:
  assumes "bucket_wf b" "factor_ok f"
  shows "bucket_wf (snd (bucket_available b now f pb))"
    and "\<not> f64_eq (per_second (bk_rate b)) 0 \<Longrightarrow>
      bk_tokens (snd (bucket_available b now f pb)) \<le> bucket_cap (bk_rate b) f pb"
  using assms refill_nonneg [of "bk_rate b" f]
  by (simp_all add: bucket_wf_def bucket_available_def Let_def f64_min_nonneg f64_add_nonneg f64_min_le)

lemma bucket_available_iff:
  "fst (bucket_available b now f pb) \<longleftrightarrow>
     f64_eq (per_second (bk_rate b)) 0 \<or> 1 \<le> bk_tokens (snd (bucket_available b now f pb))"
  by (simp add: bucket_available_def Let_def)

text \<open>A token is spent only when one is there, so the tokens never go negative.\<close>

lemma bucket_consume_wf:
  assumes "bucket_wf b" "factor_ok f" "fst (bucket_available b now f pb)"
  shows "bucket_wf (bucket_consume (snd (bucket_available b now f pb)))"
proof -
  let ?b = "snd (bucket_available b now f pb)"
  have wf: "bucket_wf ?b" by (rule bucket_available_bounds(1) [OF assms(1,2)])
  show ?thesis
  proof (cases "0 < per_second (bk_rate b)")
    case True
    then have "1 \<le> bk_tokens ?b"
      using assms(3) by (simp add: bucket_available_iff f64_simps)
    then show ?thesis using wf by (simp add: bucket_wf_def bucket_consume_def f64_minus_one_nonneg)
  qed (use wf in \<open>simp add: bucket_consume_def\<close>)
qed

lemma bucket_take_wf:
  assumes "bucket_wf b" "factor_ok f"
  shows "bucket_wf (snd (bucket_take b now f pb))"
  using bucket_available_bounds(1) [OF assms] bucket_consume_wf [OF assms]
  by (auto simp: bucket_take_def split: prod.split) (metis fst_conv snd_conv)+

lemma bucket_take_rate [simp]: "bk_rate (snd (bucket_take b now f pb)) = bk_rate b"
  using bucket_available_rate [of b now f pb]
  by (cases "bucket_available b now f pb") (simp add: bucket_take_def)

section \<open>Bursts\<close>

definition at_most_tokens :: "nat \<Rightarrow> bucket \<Rightarrow> bool" where
  "at_most_tokens k b \<longleftrightarrow> bk_tokens b \<le> Fin (of_nat k) \<and> k < 2 ^ 53"

definition limited :: "bucket \<Rightarrow> bool" where
  "limited b \<longleftrightarrow> bucket_wf b \<and> \<not> f64_eq (per_second (bk_rate b)) 0"

lemma limited_pos: "limited b \<Longrightarrow> 0 < per_second (bk_rate b)"
proof -
  assume l: "limited b"
  then have "rate_valid (bk_rate b)" by (simp add: limited_def bucket_wf_def)
  then obtain p where "per_second (bk_rate b) = Fin p" "0 \<le> p" by (rule rate_valid_finite)
  with l show ?thesis by (auto simp: limited_def f64_simps)
qed

lemma bucket_take_limited:
  "limited b \<Longrightarrow> factor_ok f \<Longrightarrow> limited (snd (bucket_take b now f pb))"
  using bucket_take_wf [of b f now pb] by (simp add: limited_def)

lemma bucket_take_last:
  "bk_last b \<le> bk_last (snd (bucket_take b now f pb))"
  by (auto simp: bucket_take_def bucket_available_def bucket_consume_def Let_def)

lemma take_spends:
  assumes b: "limited b" "factor_ok f"
    and le: "bk_tokens (snd (bucket_available b now f pb)) \<le> Fin (of_nat k)" "k < 2 ^ 53"
    and take: "bucket_take b now f pb = (hit, b')"
  shows "if hit then \<exists>j. k = Suc j \<and> at_most_tokens j b' else at_most_tokens k b'"
proof (cases "fst (bucket_available b now f pb)")
  case True
  let ?b = "snd (bucket_available b now f pb)"
  have pos: "0 < per_second (bk_rate b)" by (rule limited_pos [OF b(1)])
  have one: "1 \<le> bk_tokens ?b" using True pos by (simp add: bucket_available_iff f64_simps)
  with le have "0 < k" by (cases "bk_tokens ?b") (auto simp: f64_simps)
  then obtain j where j: "k = Suc j" by (cases k) auto
  have "bk_tokens ?b - 1 \<le> Fin (of_nat j)" using f64_minus_one_le [of _ j] one le j by auto
  moreover have "b' = bucket_consume ?b" "hit"
    using take True by (auto simp: bucket_take_def split: prod.splits)
  ultimately show ?thesis
    using pos j le(2) by (simp add: at_most_tokens_def bucket_consume_def)
next
  case False
  then show ?thesis using take le by (auto simp: bucket_take_def at_most_tokens_def split: prod.splits)
qed

lemma available_frozen:
  assumes "limited b" "factor_ok f" "now \<le> bk_last b" "at_most_tokens k b"
  shows "bk_tokens (snd (bucket_available b now f pb)) \<le> Fin (of_nat k)"
proof -
  obtain x where x: "f = Fin x" using assms(2) by (rule factor_okE)
  obtain p where p: "per_second (bk_rate b) = Fin p"
    using assms(1) unfolding limited_def bucket_wf_def by (blast elim: rate_valid_finite)
  have t: "0 \<le> bk_tokens b" using assms(1) by (simp add: limited_def bucket_wf_def)
  have "bk_tokens b + 0 \<le> Fin (of_nat k)"
    using assms(4) t by (auto simp: at_most_tokens_def intro: f64_add_zero_le)
  moreover have "f64_min (bk_tokens b + 0) c \<le> bk_tokens b + 0" if "0 \<le> c" for c
    using that t f64_add_nonneg [of "bk_tokens b" 0] by (simp add: f64_min_le1 f64_simps)
  ultimately have "f64_min (bk_tokens b + 0) c \<le> Fin (of_nat k)" if "0 \<le> c" for c
    using that f64_trans by blast
  then show ?thesis
    using assms(1,3) x p
    by (simp add: limited_def bucket_available_def Let_def saturating_duration_since_def)
qed

lemma bucket_quota:
  assumes "factor_ok f"
  shows "quota limited at_most_tokens (\<lambda>now b. now \<le> bk_last b) (\<lambda>now b. bucket_take b now f pb)"
proof
  show "limited s'" if "limited s" "bucket_take s t f pb = (hit, s')" for s t hit s'
    using bucket_take_limited [OF that(1) assms] that(2) by (metis snd_conv)
  show "u \<le> bk_last s'" if "bucket_take s t f pb = (hit, s')" "u \<le> bk_last s" for s t hit s' u
    using bucket_take_last [of s t f pb] that by simp
qed (use assms take_spends available_frozen in \<open>fastforce simp: at_most_tokens_def\<close>)+

text \<open>At one instant a bucket grants at most its capacity, whatever happened to it before.\<close>

lemma bucket_instant_bound:
  assumes "limited b" "factor_ok f" "bucket_cap (bk_rate b) f pb \<le> Fin (of_nat k)" "k < 2 ^ 53"
  shows "fst (tries (\<lambda>t b. bucket_take b t f pb) (replicate n now) b) \<le> k"
proof (cases n)
  case (Suc m)
  let ?take = "\<lambda>t b. bucket_take b t f pb"
  obtain hit b' where take: "bucket_take b now f pb = (hit, b')" by fastforce
  have "bk_tokens (snd (bucket_available b now f pb)) \<le> Fin (of_nat k)"
    using bucket_available_bounds(2) [of b f now pb] assms f64_trans by (auto simp: limited_def)
  note spends = take_spends [OF assms(1,2) this assms(4) take]
  have b': "limited b'" using bucket_take_limited [OF assms(1,2), of now pb] take by simp
  have last: "now \<le> bk_last b'"
    using take assms(1)
    by (auto simp: bucket_take_def bucket_available_def bucket_consume_def limited_def Let_def split: if_splits)
  have "fst (tries ?take (replicate m now) b') \<le> j" if "at_most_tokens j b'" for j
    by (rule quota.tries_at_most [OF bucket_quota [OF assms(2)] b' that]) (use last in simp)
  with spends take Suc show ?thesis by (fastforce split: if_splits prod.split)
qed simp

text \<open>
  A limited bucket never overspends: whatever its history, any number of attempts at
  one instant succeeds at most as often as its capacity (the burst, scaled by the mode
  factor unless bursts are preserved, and at least one), and the tokens stay
  non-negative.
\<close>

theorem bucket_never_overspends:
  assumes "bucket_wf b" "0 < per_second (bk_rate b)" "factor_ok f"
    and "bucket_cap (bk_rate b) f pb \<le> Fin (of_nat k)" "k < 2 ^ 53"
  shows "case tries (\<lambda>t b. bucket_take b t f pb) (replicate n now) b of
    (granted, b') \<Rightarrow> granted \<le> k \<and> 0 \<le> bk_tokens b' \<and> bk_rate b' = bk_rate b"
proof -
  have l: "limited b" using assms(1,2) by (auto simp: limited_def f64_simps)
  have "bk_rate (snd (tries (\<lambda>t b. bucket_take b t f pb) ts b)) = bk_rate b" for ts and b :: bucket
  proof (induction ts arbitrary: b)
    case (Cons t ts)
    then show ?case
      using bucket_take_rate [of b t f pb] by (cases "bucket_take b t f pb") (simp split: prod.split, metis snd_conv)
  qed simp
  with bucket_instant_bound [OF l assms(3-5), of n now] quota.tries_good [OF bucket_quota [OF assms(3)] l]
  show ?thesis by (auto simp: limited_def bucket_wf_def split: prod.split) (metis snd_conv)+
qed

theorem bucket_never_overspends_witness:
  "case tries (\<lambda>t b. bucket_take b t 1 True) (replicate 9 5) (bucket_new \<lparr>per_second = Fin 2, burst = Fin 3\<rparr> 5) of
    (granted, b') \<Rightarrow> granted \<le> 3 \<and> 0 \<le> bk_tokens b' \<and> bk_rate b' = \<lparr>per_second = Fin 2, burst = Fin 3\<rparr>"
proof -
  let ?r = "\<lparr>per_second = Fin 2, burst = Fin 3\<rparr>"
  have wf: "bucket_wf (bucket_new ?r 5)"
    by (rule bucket_new_wf) (simp add: rate_valid_def is_finite_def f64_simps)
  have cap: "bucket_cap ?r 1 True \<le> Fin (of_nat 3)"
    by (simp add: bucket_cap_def f64_max_def f64_simps f64_of_rat_def Let_def)
  have f: "factor_ok 1" by (simp add: factor_ok_def is_finite_def f64_simps)
  show ?thesis
    using bucket_never_overspends [OF wf _ f, of True 3 9 5] cap by (simp add: f64_simps)
qed

end
