(* ===== verification/Limiter_Tables.thy ===== *)
theory Limiter_Tables
  imports Limiter_Buckets
begin

text \<open>
  The bounded identity tables of limiter.rs as a keyed store. The locale \<open>keyed_store\<close>
  states what the admission code relies on (a lookup after an update, the bound on the
  number of entries, what maintenance removes), and the sharded table with its random
  hash is shown to be such a store.
\<close>

section \<open>Keyed stores\<close>

locale keyed_store =
  fixes good :: "'s \<Rightarrow> bool"
    and lookup :: "'s \<Rightarrow> 'k \<Rightarrow> 'v option"
    and update :: "'s \<Rightarrow> 'k \<Rightarrow> 'v \<Rightarrow> 's"
    and full :: "'s \<Rightarrow> 'k \<Rightarrow> bool"
    and entries :: "'s \<Rightarrow> nat"
    and bound :: "'s \<Rightarrow> nat"
  assumes lookup_update: "good s \<Longrightarrow> lookup (update s k v) j = (if j = k then Some v else lookup s j)"
    and update_good: "\<lbrakk>good s; lookup s k \<noteq> None \<or> \<not> full s k\<rbrakk> \<Longrightarrow> good (update s k v)"
    and entries_update: "good s \<Longrightarrow> entries (update s k v) = (if lookup s k = None then Suc (entries s) else entries s)"
    and entries_bound: "good s \<Longrightarrow> entries s \<le> bound s"
    and bound_update: "bound (update s k v) = bound s"
begin

definition modify :: "'s \<Rightarrow> 'k \<Rightarrow> ('v \<Rightarrow> 'v) \<Rightarrow> 's" where
  "modify s k f = (case lookup s k of Some v \<Rightarrow> update s k (f v) | None \<Rightarrow> s)"

lemma lookup_modify:
  "good s \<Longrightarrow> lookup (modify s k f) j = (if j = k then map_option f (lookup s k) else lookup s j)"
  by (auto simp: modify_def lookup_update split: option.split)

lemma modify_good: "good s \<Longrightarrow> good (modify s k f)"
  by (auto simp: modify_def update_good split: option.split)

lemma entries_modify: "good s \<Longrightarrow> entries (modify s k f) = entries s"
  by (auto simp: modify_def entries_update split: option.split)

end

section \<open>The sharded table\<close>

definition table_wf :: "table \<Rightarrow> bool" where
  "table_wf t \<longleftrightarrow> length (tb_shards t) = SHARDS \<and>
     (\<forall>i < SHARDS. fm_len (tb_shards t ! i) \<le> tb_capacity t \<and>
        (\<forall>k. fmlookup (tb_shards t ! i) k \<noteq> None \<longrightarrow> table_shard t k = i))"

definition table_entries :: "table \<Rightarrow> nat" where
  "table_entries t = (\<Sum>m\<leftarrow>tb_shards t. fm_len m)"

definition table_bound :: "table \<Rightarrow> nat" where
  "table_bound t = SHARDS * tb_capacity t"

lemma table_shard_less [simp]: "table_shard t k < SHARDS"
  by (simp add: table_shard_def SHARDS_def)

lemma table_shard_put [simp]: "table_shard (table_put t k e) = table_shard t"
  by (simp add: table_put_def table_shard_def fun_eq_iff)

lemma table_new_wf [simp]: "table_wf (table_new h n)"
  by (simp add: table_wf_def table_new_def)

lemma table_new_get [simp]: "table_get (table_new h n) k = None"
  by (simp add: table_get_def table_new_def table_shard_def SHARDS_def)

lemma table_new_entries [simp]: "table_entries (table_new h n) = 0"
  by (simp add: table_entries_def table_new_def sum_list_replicate)

lemma sum_list_update_nat:
  fixes xs :: "nat list"
  shows "i < length xs \<Longrightarrow> sum_list (xs[i := v]) + xs ! i = sum_list xs + v"
  by (induction xs arbitrary: i) (auto split: nat.split)

lemma sum_len_update:
  "i < length ms \<Longrightarrow>
     (\<Sum>m\<leftarrow>ms[i := x]. fm_len m) + fm_len (ms ! i) = (\<Sum>m\<leftarrow>ms. fm_len m) + fm_len x"
  using sum_list_update_nat [of i "map fm_len ms" "fm_len x"] by (simp add: map_update)

lemma table_get_put:
  assumes "table_wf t"
  shows "table_get (table_put t k e) j = (if j = k then Some e else table_get t j)"
  using assms
  by (auto simp: table_wf_def table_get_def table_put_def nth_list_update table_shard_def SHARDS_def)

lemma table_put_wf:
  assumes t: "table_wf t" and room: "table_get t k \<noteq> None \<or> table_len t k < tb_capacity t"
  shows "table_wf (table_put t k e)"
proof -
  let ?m = "tb_shards t ! table_shard t k"
  have "fm_len (fmupd k e ?m) \<le> tb_capacity t"
  proof (cases "fmlookup ?m k")
    case None
    then show ?thesis using room by (simp add: table_get_def table_len_def)
  next
    case (Some v)
    then show ?thesis using t by (simp add: table_wf_def)
  qed
  moreover have "tb_capacity (table_put t k e) = tb_capacity t" by (simp add: table_put_def)
  ultimately show ?thesis
    using t unfolding table_wf_def table_shard_put
    by (auto simp: table_put_def nth_list_update)
qed

lemma table_entries_put:
  assumes "table_wf t"
  shows "table_entries (table_put t k e) = (if table_get t k = None then Suc (table_entries t) else table_entries t)"
proof -
  let ?m = "tb_shards t ! table_shard t k"
  have "table_shard t k < length (tb_shards t)" using assms by (simp add: table_wf_def)
  from sum_len_update [OF this, of "fmupd k e ?m"]
  show ?thesis by (cases "fmlookup ?m k") (auto simp: table_entries_def table_get_def table_put_def)
qed

lemma table_entries_le:
  assumes "table_wf t"
  shows "table_entries t \<le> table_bound t"
proof -
  have "fm_len m \<le> tb_capacity t" if "m \<in> set (tb_shards t)" for m
    using that assms by (auto simp: table_wf_def in_set_conv_nth)
  then have "table_entries t \<le> (\<Sum>m\<leftarrow>tb_shards t. tb_capacity t)"
    unfolding table_entries_def by (intro sum_list_mono)
  also have "\<dots> = table_bound t" using assms by (simp add: table_wf_def table_bound_def sum_list_triv)
  finally show ?thesis .
qed

interpretation tab: keyed_store table_wf table_get table_put
    "\<lambda>t k. table_len t k \<ge> tb_capacity t" table_entries table_bound
  by unfold_locales
    (auto simp: table_get_put table_entries_put table_entries_le not_le intro: table_put_wf,
     simp add: table_put_def table_bound_def)

lemma table_modify_eq: "table_modify = tab.modify"
  by (simp add: fun_eq_iff table_modify_def tab.modify_def)

lemmas table_modify_laws = tab.lookup_modify tab.modify_good tab.entries_modify

lemma tb_put_fields [simp]:
  "tb_capacity (table_put t k e) = tb_capacity t" "tb_hash (table_put t k e) = tb_hash t"
  "tb_capacity (table_modify t k f) = tb_capacity t" "tb_hash (table_modify t k f) = tb_hash t"
  by (simp_all add: table_put_def table_modify_def split: option.split)

section \<open>Maintenance of a table\<close>

lemma metrics_dec_funpow:
  assumes "metrics_wf m" "g < 56"
  shows "metrics_wf (((\<lambda>m. metrics_dec m g) ^^ n) m)"
    and "metrics_get (((\<lambda>m. metrics_dec m g) ^^ n) m) j =
      (if j = g then metrics_get m g - of_nat n else metrics_get m j)"
proof -
  have wf: "metrics_wf (((\<lambda>m. metrics_dec m g) ^^ n) m)" for n
    using assms(1) by (induction n) simp_all
  show "metrics_wf (((\<lambda>m. metrics_dec m g) ^^ n) m)" by (rule wf)
  show "metrics_get (((\<lambda>m. metrics_dec m g) ^^ n) m) j =
      (if j = g then metrics_get m g - of_nat n else metrics_get m j)"
    by (induction n) (auto simp: metrics_get_dec wf assms(2))
qed

lemma table_sweep_get:
  assumes "table_wf t" "table_sweep cfg t m g shard now = (t', m')"
  shows "table_get t' k = (case table_get t k of
      Some e \<Rightarrow> if table_shard t k = shard mod SHARDS \<and> \<not> entry_keep cfg now e then None else Some e
    | None \<Rightarrow> None)"
proof -
  have "shard mod SHARDS < length (tb_shards t)" using assms(1) by (simp add: table_wf_def SHARDS_def)
  then show ?thesis
    using assms(2)
    by (auto simp: table_sweep_def Let_def table_get_def table_shard_def nth_list_update split: option.split)
qed

lemma table_sweep_wf:
  assumes "table_wf t" "table_sweep cfg t m g shard now = (t', m')"
  shows "table_wf t'" and "tb_capacity t' = tb_capacity t" and "tb_hash t' = tb_hash t"
proof -
  let ?m = "fm_retain (entry_keep cfg now) (tb_shards t ! (shard mod SHARDS))"
  have i: "shard mod SHARDS < SHARDS" by (simp add: SHARDS_def)
  have t': "t' = t\<lparr>tb_shards := (tb_shards t)[shard mod SHARDS := ?m]\<rparr>"
    using assms(2) by (auto simp: table_sweep_def Let_def)
  then show "tb_capacity t' = tb_capacity t" "tb_hash t' = tb_hash t" by simp_all
  have "fm_len ?m \<le> tb_capacity t"
    using fm_len_retain assms(1) i le_trans unfolding table_wf_def by blast
  moreover have "table_shard t' = table_shard t" by (simp add: t' table_shard_def fun_eq_iff)
  ultimately show "table_wf t'"
    using assms(1) i unfolding table_wf_def
    by (auto simp: t' nth_list_update split: option.splits if_splits)
qed

text \<open>The gauge keeps step with the number of entries.\<close>

lemma table_sweep_gauge:
  assumes "table_wf t" "metrics_wf m" "g < 56" "table_sweep cfg t m g shard now = (t', m')"
  shows "metrics_wf m'" and "metrics_get m' j =
    (if j = g then metrics_get m g + of_nat (table_entries t') - of_nat (table_entries t) else metrics_get m j)"
proof -
  let ?old = "tb_shards t ! (shard mod SHARDS)"
  let ?new = "fm_retain (entry_keep cfg now) ?old"
  have "shard mod SHARDS < length (tb_shards t)" using assms(1) by (simp add: table_wf_def SHARDS_def)
  from sum_len_update [OF this, of ?new] assms(4)
  have "table_entries t' + fm_len ?old = table_entries t + fm_len ?new"
    by (auto simp: table_sweep_def Let_def table_entries_def)
  with fm_len_retain [of "entry_keep cfg now" ?old]
  have n: "table_entries t = table_entries t' + (fm_len ?old - fm_len ?new)" by simp
  have m': "m' = ((\<lambda>m. metrics_dec m g) ^^ (fm_len ?old - fm_len ?new)) m"
    using assms(4) by (auto simp: table_sweep_def Let_def)
  show "metrics_wf m'" by (simp only: m' metrics_dec_funpow(1) [OF assms(2,3)])
  show "metrics_get m' j =
      (if j = g then metrics_get m g + of_nat (table_entries t') - of_nat (table_entries t) else metrics_get m j)"
    unfolding m' metrics_dec_funpow(2) [OF assms(2,3)] n by simp
qed

end
