(* ===== verification/Limiter_Ops.thy ===== *)
theory Limiter_Ops
  imports Limiter_Tables
begin

text \<open>
  The admission decisions of limiter.rs: which connections and events pass, what each
  outcome does to the tables and buckets, and that every operation keeps the limiter
  well formed.
\<close>

section \<open>Well-formed limiters\<close>

definition limits_ok :: "limits \<Rightarrow> bool" where
  "limits_ok cfg \<longleftrightarrow> length (lim_mode_multipliers cfg) = 4 \<and> list_all factor_ok (lim_mode_multipliers cfg) \<and>
     rates_valid (lim_ip cfg) \<and> rates_valid (lim_prefix cfg) \<and> rates_valid (lim_global cfg)"

definition buckets_wf :: "rates \<Rightarrow> bucket list \<Rightarrow> bool" where
  "buckets_wf r bs \<longleftrightarrow> list_all2 (\<lambda>x b. bucket_wf b \<and> bk_rate b = x) (rates_list r) bs"

definition entries_wf :: "rates \<Rightarrow> table \<Rightarrow> bool" where
  "entries_wf r t \<longleftrightarrow> (\<forall>k e. table_get t k = Some e \<longrightarrow> buckets_wf r (en_buckets e))"

definition limiter_wf :: "limiter \<Rightarrow> bool" where
  "limiter_wf l \<longleftrightarrow> limits_ok (li_cfg l) \<and> table_wf (li_ip l) \<and> table_wf (li_prefix l) \<and>
     entries_wf (lim_ip (li_cfg l)) (li_ip l) \<and> entries_wf (lim_prefix (li_cfg l)) (li_prefix l) \<and>
     buckets_wf (lim_global (li_cfg l)) (li_global l)"

lemma limits_ok_factor: "limits_ok cfg \<Longrightarrow> i < 4 \<Longrightarrow> factor_ok (lim_mode_multipliers cfg ! i)"
  by (simp add: limits_ok_def list_all_length)

lemma buckets_wf_new [simp]:
  "rates_valid r \<Longrightarrow> buckets_wf r (map (\<lambda>x. bucket_new x now) (rates_list r))"
  by (auto simp: buckets_wf_def rates_valid_def list_all2_conv_all_nth list_all_length)

lemma buckets_wf_length: "buckets_wf r bs \<Longrightarrow> length bs = 4"
  by (auto simp: buckets_wf_def dest: list_all2_lengthD)

lemma buckets_wf_update:
  "buckets_wf r bs \<Longrightarrow> i < 4 \<Longrightarrow> bucket_wf b \<Longrightarrow> bk_rate b = bk_rate (bs ! i) \<Longrightarrow> buckets_wf r (bs[i := b])"
  by (auto simp: buckets_wf_def list_all2_conv_all_nth nth_list_update)

lemma buckets_wf_nth: "buckets_wf r bs \<Longrightarrow> i < 4 \<Longrightarrow> bucket_wf (bs ! i)"
  by (auto simp: buckets_wf_def list_all2_conv_all_nth)

lemma event_index_less [simp]: "event_index ev < 4"
  by (cases ev) simp_all

section \<open>What an operation may do to a bucket and to an entry\<close>

text \<open>
  \<open>refreshed\<close>: the bucket is as it was or refilled up to now, no token is taken.
  \<open>spent\<close>: in addition one token may be taken, if one is there.
\<close>

definition refreshed :: "instant \<Rightarrow> f64 \<Rightarrow> bool \<Rightarrow> bucket \<Rightarrow> bucket \<Rightarrow> bool" where
  "refreshed now f pb b b' \<longleftrightarrow> b' = b \<or> b' = snd (bucket_available b now f pb)"

definition spent :: "instant \<Rightarrow> f64 \<Rightarrow> bool \<Rightarrow> bucket \<Rightarrow> bucket \<Rightarrow> bool" where
  "spent now f pb b b' \<longleftrightarrow> refreshed now f pb b b' \<or>
     fst (bucket_available b now f pb) \<and> b' = bucket_consume (snd (bucket_available b now f pb))"

definition kept :: "(bucket \<Rightarrow> bucket \<Rightarrow> bool) \<Rightarrow> entry \<Rightarrow> entry \<Rightarrow> bool" where
  "kept R e e' \<longleftrightarrow> list_all2 R (en_buckets e) (en_buckets e') \<and>
     en_active e' = en_active e \<and> en_pending e' = en_pending e \<and> en_status e' = en_status e \<and>
     en_score e' = en_score e \<and> en_score_at e' = en_score_at e \<and> en_penalty_until e' = en_penalty_until e"

lemma refreshed_refl [simp]: "refreshed now f pb b b"
  by (simp add: refreshed_def)

lemma refreshed_spent: "refreshed now f pb b b' \<Longrightarrow> spent now f pb b b'"
  by (simp add: spent_def)

lemma spent_refl [simp]: "spent now f pb b b"
  by (simp add: refreshed_spent)

lemma spent_wf:
  "spent now f pb b b' \<Longrightarrow> factor_ok f \<Longrightarrow> bucket_wf b \<Longrightarrow> bucket_wf b' \<and> bk_rate b' = bk_rate b"
  using bucket_available_bounds(1) [of b f now pb] bucket_consume_wf [of b f now pb]
  by (auto simp: spent_def refreshed_def)

lemma list_all2_spent_wf:
  assumes "list_all2 (spent now f pb) bs bs'" "buckets_wf r bs" "factor_ok f"
  shows "buckets_wf r bs'"
  using assms spent_wf by (fastforce simp: buckets_wf_def list_all2_conv_all_nth)

lemma list_all2_update:
  "(\<And>x. R x x) \<Longrightarrow> i < length xs \<Longrightarrow> R (xs ! i) y \<Longrightarrow> list_all2 R xs (xs[i := y])"
  by (auto simp: list_all2_conv_all_nth nth_list_update)

lemma kept_touch [simp]: "(\<And>b. R b b) \<Longrightarrow> kept R e (e\<lparr>en_touched := now\<rparr>)"
  by (simp add: kept_def list_all2_refl)

lemma kept_refl: "(\<And>b. R b b) \<Longrightarrow> kept R e e"
  by (simp add: kept_def list_all2_refl)

lemma kept_mono: "kept R e e' \<Longrightarrow> (\<And>b b'. R b b' \<Longrightarrow> S b b') \<Longrightarrow> kept S e e'"
  unfolding kept_def using list_all2_mono by blast

lemma kept_available:
  assumes "length (en_buckets e) = 4" "i < 4"
  shows "kept (refreshed now f pb) e (snd (entry_available (e\<lparr>en_touched := t\<rparr>) i now f pb))"
  using assms
  by (auto simp: kept_def entry_available_def refreshed_def split: prod.split intro!: list_all2_update)

lemma kept_consume:
  assumes "length (en_buckets e) = 4" "i < 4" "fst (entry_available (e\<lparr>en_touched := t\<rparr>) i now f pb)"
  shows "kept (spent now f pb) e (entry_consume (snd (entry_available (e\<lparr>en_touched := t\<rparr>) i now f pb)) i)"
  using assms
  by (auto simp: kept_def entry_available_def entry_consume_def spent_def split: prod.splits
      intro!: list_all2_update)

section \<open>The entry an operation works on\<close>

definition source_entry :: "table \<Rightarrow> rates \<Rightarrow> ip_addr \<Rightarrow> instant \<Rightarrow> entry" where
  "source_entry t r k now = (case table_get t k of Some e \<Rightarrow> e | None \<Rightarrow> entry_new r now)"

lemma source_entry_wf:
  "entries_wf r t \<Longrightarrow> rates_valid r \<Longrightarrow> buckets_wf r (en_buckets (source_entry t r k now))"
  by (auto simp: source_entry_def entries_wf_def entry_new_def split: option.split)

lemma source_entry_length:
  "entries_wf r t \<Longrightarrow> rates_valid r \<Longrightarrow> length (en_buckets (source_entry t r k now)) = 4"
  using source_entry_wf buckets_wf_length by blast

definition source_ok :: "limits \<Rightarrow> policy \<Rightarrow> nat \<Rightarrow> instant \<Rightarrow> entry \<Rightarrow> bool" where
  "source_ok cfg p i now e \<longleftrightarrow>
     fst (bucket_available (en_buckets e ! i) now (lim_mode_multipliers cfg ! p_mode p) (lim_preserve_burst cfg)) \<and>
     en_penalty_until e \<le> now"

definition global_ok :: "limiter \<Rightarrow> policy \<Rightarrow> nat \<Rightarrow> instant \<Rightarrow> bool" where
  "global_ok l p i now \<longleftrightarrow>
     fst (bucket_available (li_global l ! i) now (lim_mode_multipliers (li_cfg l) ! p_mode p) (lim_preserve_burst (li_cfg l)))"

lemma entry_available_fst:
  "fst (entry_available (e\<lparr>en_touched := t\<rparr>) i now (lim_mode_multipliers cfg ! p_mode p) (lim_preserve_burst cfg)) =
     source_ok cfg p i now e"
  by (auto simp: entry_available_def source_ok_def split: prod.split)

lemma global_available_fst:
  "fst (global_available l i now (lim_mode_multipliers (li_cfg l) ! p_mode p)) = global_ok l p i now"
  by (auto simp: global_available_def global_ok_def split: prod.split)

lemma global_available_fields [simp]:
  "li_ip (snd (global_available l i now f)) = li_ip l"
  "li_prefix (snd (global_available l i now f)) = li_prefix l"
  "li_cfg (snd (global_available l i now f)) = li_cfg l"
  by (simp_all add: global_available_def split: prod.split)

lemma judged_fst: "fst (judged m ok r p) \<longleftrightarrow> ok \<or> p_exempt p \<or> p_observe p"
  by (auto simp: judged_def)

lemma judged_wf [simp]: "metrics_wf (snd (judged m ok r p)) = metrics_wf m"
  by (auto simp: judged_def)

lemma judged_gauges [simp]:
  "metrics_wf m \<Longrightarrow> r \<in> {14, 15, 16} \<Longrightarrow> j \<in> {32, 33} \<Longrightarrow>
     metrics_get (snd (judged m ok r p)) j = metrics_get m j"
  by (auto simp: judged_def metrics_get_inc)

section \<open>Admission of a connection\<close>

definition cap_ok :: "nat \<Rightarrow> nat \<Rightarrow> bool" where
  "cap_ok cap n \<longleftrightarrow> cap = 0 \<or> n < cap"

definition has_room :: "table \<Rightarrow> ip_addr \<Rightarrow> bool" where
  "has_room t k \<longleftrightarrow> table_get t k \<noteq> None \<or> table_len t k < tb_capacity t"

definition prefix_of :: "limits \<Rightarrow> ip_addr \<Rightarrow> ip_addr" where
  "prefix_of cfg addr = subnet (normalize addr) (lim_ipv4_prefix cfg) (lim_ipv6_prefix cfg)"

text \<open>The entries of a source and of its prefix as \<^verbatim>\<open>accept\<close> sees them.\<close>

definition ip_entry :: "limiter \<Rightarrow> ip_addr \<Rightarrow> instant \<Rightarrow> entry" where
  "ip_entry l addr now = source_entry (li_ip l) (lim_ip (li_cfg l)) (normalize addr) now"

definition prefix_entry :: "limiter \<Rightarrow> ip_addr \<Rightarrow> instant \<Rightarrow> entry" where
  "prefix_entry l addr now =
     source_entry (li_prefix l) (lim_prefix (li_cfg l)) (prefix_of (li_cfg l) addr) now"

text \<open>The hard limits, which no policy lifts.\<close>

definition under_caps :: "limiter \<Rightarrow> ip_addr \<Rightarrow> instant \<Rightarrow> bool" where
  "under_caps l addr now \<longleftrightarrow>
     (let cfg = li_cfg l; i = ip_entry l addr now; net = prefix_entry l addr now in
      has_room (li_ip l) (normalize addr) \<and> has_room (li_prefix l) (prefix_of cfg addr) \<and>
      cap_ok (lim_connections_ip cfg) (en_active i) \<and> cap_ok (lim_connections_prefix cfg) (en_active net) \<and>
      cap_ok (lim_prelogin_ip cfg) (en_pending i) \<and> cap_ok (lim_prelogin_prefix cfg) (en_pending net))"

definition admissible :: "limiter \<Rightarrow> ip_addr \<Rightarrow> policy \<Rightarrow> instant \<Rightarrow> bool" where
  "admissible l addr p now \<longleftrightarrow> under_caps l addr now \<and>
     (p_exempt p \<or> p_observe p \<or>
        source_ok (li_cfg l) p 0 now (ip_entry l addr now) \<and> source_ok (li_cfg l) p 0 now (prefix_entry l addr now)) \<and>
     (p_observe p \<or> global_ok l p 0 now)"

lemma room_iff:
  "(table_get t k = None \<and> tb_capacity t \<le> table_len t k) = (\<not> has_room t k)"
  by (auto simp: has_room_def)

lemma cap_iff: "(0 < c \<and> c \<le> n) = (\<not> cap_ok c n)"
  by (auto simp: cap_ok_def)

lemma accept_outcome:
  "accept l m addr p now =
    (let cfg = li_cfg l; f = lim_mode_multipliers cfg ! p_mode p; pb = lim_preserve_burst cfg;
         ip = normalize addr; prefix = prefix_of cfg addr;
         new_ip = (table_get (li_ip l) ip = None); new_prefix = (table_get (li_prefix l) prefix = None);
         i = (ip_entry l addr now)\<lparr>en_touched := now\<rparr>; net = (prefix_entry l addr now)\<lparr>en_touched := now\<rparr>;
         ip_ok = source_ok cfg p 0 now (ip_entry l addr now);
         prefix_ok = source_ok cfg p 0 now (prefix_entry l addr now);
         i' = snd (entry_available i 0 now f pb); net' = snd (entry_available net 0 now f pb);
         l' = snd (global_available l 0 now f);
         m1 = snd (judged m ip_ok 14 p); m2 = snd (judged m1 prefix_ok 15 p);
         m3 = snd (judged m2 (global_ok l p 0 now) 16 (p\<lparr>p_exempt := False\<rparr>))
     in if \<not> (has_room (li_ip l) ip \<and> has_room (li_prefix l) prefix) then (None, l, metrics_inc m 21)
        else if \<not> (cap_ok (lim_connections_ip cfg) (en_active i) \<and> cap_ok (lim_connections_prefix cfg) (en_active net))
        then (None, put_existing l new_ip ip i new_prefix prefix net, metrics_inc m 20)
        else if \<not> (cap_ok (lim_prelogin_ip cfg) (en_pending i) \<and> cap_ok (lim_prelogin_prefix cfg) (en_pending net))
        then (None, put_existing l new_ip ip i new_prefix prefix net, metrics_inc (metrics_inc m 20) 38)
        else if \<not> (ip_ok \<or> p_exempt p \<or> p_observe p)
        then (None, put_existing l new_ip ip i' new_prefix prefix net', m1)
        else if \<not> (prefix_ok \<or> p_exempt p \<or> p_observe p)
        then (None, put_existing l new_ip ip i' new_prefix prefix net', m2)
        else if \<not> (global_ok l p 0 now \<or> p_observe p)
        then (None, put_existing l' new_ip ip i' new_prefix prefix net', m3)
        else accept_commit l' m3 p new_ip ip i' ip_ok new_prefix prefix net' prefix_ok (global_ok l p 0 now))"
  unfolding accept_def Let_def case_prod_beta judged_fst room_iff cap_iff
    source_entry_def [symmetric] prefix_of_def [symmetric]
    ip_entry_def [symmetric] prefix_entry_def [symmetric]
    entry_available_fst global_available_fst
  by (simp add: de_Morgan_conj [symmetric] del: de_Morgan_conj)

lemma accept_admits: "fst (accept l m addr p now) =
    (if admissible l addr p now then Some (ticket_new (normalize addr) (prefix_of (li_cfg l) addr)) else None)"
  unfolding accept_outcome admissible_def under_caps_def Let_def
  by (auto simp: accept_commit_def Let_def)

text \<open>What a rejection may do: refill buckets, nothing else.\<close>

definition same_shape :: "table \<Rightarrow> table \<Rightarrow> bool" where
  "same_shape t t' \<longleftrightarrow> (table_wf t \<longrightarrow> table_wf t') \<and> table_entries t' = table_entries t \<and>
     tb_capacity t' = tb_capacity t \<and> tb_hash t' = tb_hash t"

lemma same_shape_put: "table_wf t \<Longrightarrow> table_get t k \<noteq> None \<Longrightarrow> same_shape t (table_put t k e)"
  by (simp add: same_shape_def table_put_wf table_entries_put)

definition limiter_kept :: "(bucket \<Rightarrow> bucket \<Rightarrow> bool) \<Rightarrow> limiter \<Rightarrow> limiter \<Rightarrow> bool" where
  "limiter_kept R l l' \<longleftrightarrow> li_cfg l' = li_cfg l \<and> same_shape (li_ip l) (li_ip l') \<and> same_shape (li_prefix l) (li_prefix l') \<and>
     (\<forall>k. rel_option (kept R) (table_get (li_ip l) k) (table_get (li_ip l') k)) \<and>
     (\<forall>k. rel_option (kept R) (table_get (li_prefix l) k) (table_get (li_prefix l') k)) \<and>
     list_all2 R (li_global l) (li_global l')"

lemma limiter_kept_refl: "(\<And>b. R b b) \<Longrightarrow> limiter_kept R l l"
  by (simp add: limiter_kept_def same_shape_def option.rel_refl kept_refl list_all2_refl)

lemma limiter_kept_put:
  assumes "table_wf (li_ip l)" "table_wf (li_prefix l)" "list_all2 R (li_global l) g" "\<And>b. R b b"
    and "\<And>e. table_get (li_ip l) ip = Some e \<Longrightarrow> \<not> new_ip \<Longrightarrow> kept R e i"
    and "\<And>e. table_get (li_prefix l) prefix = Some e \<Longrightarrow> \<not> new_prefix \<Longrightarrow> kept R e net"
    and "new_ip \<longleftrightarrow> table_get (li_ip l) ip = None" "new_prefix \<longleftrightarrow> table_get (li_prefix l) prefix = None"
  shows "limiter_kept R l (put_existing (l\<lparr>li_global := g\<rparr>) new_ip ip i new_prefix prefix net)"
  using assms
  by (auto simp: limiter_kept_def put_existing_def table_get_put option.rel_refl kept_refl same_shape_put)
    (simp_all add: same_shape_def)

lemma global_refreshed:
  assumes "length (li_global l) = 4" "i < 4"
  obtains g where "snd (global_available l i now f) = l\<lparr>li_global := g\<rparr>"
    "list_all2 (refreshed now f (lim_preserve_burst (li_cfg l))) (li_global l) g"
    "fst (global_available l i now f) \<Longrightarrow>
       list_all2 (spent now f (lim_preserve_burst (li_cfg l))) (li_global l) (g[i := bucket_consume (g ! i)])"
proof -
  let ?g = "(li_global l)[i := snd (bucket_available (li_global l ! i) now f (lim_preserve_burst (li_cfg l)))]"
  show thesis
    by (rule that [of ?g])
      (use assms in \<open>auto simp: global_available_def refreshed_def spent_def split: prod.splits intro!: list_all2_update\<close>)
qed

lemma limiter_wf_lengths:
  "limiter_wf l \<Longrightarrow> length (li_global l) = 4"
  "limiter_wf l \<Longrightarrow> length (en_buckets (ip_entry l addr now)) = 4"
  "limiter_wf l \<Longrightarrow> length (en_buckets (prefix_entry l addr now)) = 4"
  by (auto simp: limiter_wf_def limits_ok_def buckets_wf_length ip_entry_def prefix_entry_def source_entry_length)

lemma source_entry_some: "table_get t k = Some e \<Longrightarrow> source_entry t r k now = e"
  by (simp add: source_entry_def)

lemma accept_rejected:
  assumes l: "limiter_wf l" and acc: "accept l m addr p now = (None, l', m')"
  defines "R \<equiv> refreshed now (lim_mode_multipliers (li_cfg l) ! p_mode p) (lim_preserve_burst (li_cfg l))"
  shows "limiter_kept R l l'" and "\<not> admissible l addr p now"
proof -
  have nadm: "\<not> admissible l addr p now" using accept_admits [of l m addr p now] acc by auto
  then show "\<not> admissible l addr p now" .
  let ?f = "lim_mode_multipliers (li_cfg l) ! p_mode p" and ?pb = "lim_preserve_burst (li_cfg l)"
  let ?ip = "normalize addr" and ?prefix = "prefix_of (li_cfg l) addr"
  let ?i = "ip_entry l addr now" and ?n = "prefix_entry l addr now"
  have tw: "table_wf (li_ip l)" "table_wf (li_prefix l)" using l by (auto simp: limiter_wf_def)
  note len = limiter_wf_lengths [OF l]
  obtain g where g: "snd (global_available l 0 now ?f) = l\<lparr>li_global := g\<rparr>" "list_all2 R (li_global l) g"
    unfolding R_def using global_refreshed [OF len(1)] by (metis zero_less_numeral)
  have ki: "kept R ?i (?i\<lparr>en_touched := now\<rparr>)" "kept R ?n (?n\<lparr>en_touched := now\<rparr>)"
    "kept R ?i (snd (entry_available (?i\<lparr>en_touched := now\<rparr>) 0 now ?f ?pb))"
    "kept R ?n (snd (entry_available (?n\<lparr>en_touched := now\<rparr>) 0 now ?f ?pb))"
    unfolding R_def using kept_available len(2,3) by auto
  have e: "e = ?i" if "table_get (li_ip l) ?ip = Some e" for e
    using that by (simp add: ip_entry_def source_entry_some)
  have e': "e = ?n" if "table_get (li_prefix l) ?prefix = Some e" for e
    using that by (simp add: prefix_entry_def source_entry_some)
  have R: "\<And>b. R b b" by (simp add: R_def)
  have put: "limiter_kept R l (put_existing (l\<lparr>li_global := h\<rparr>) (table_get (li_ip l) ?ip = None) ?ip i
      (table_get (li_prefix l) ?prefix = None) ?prefix n)"
    if "list_all2 R (li_global l) h" "kept R ?i i" "kept R ?n n" for h i n
    by (rule limiter_kept_put [OF tw that(1) R]) (use that e e' in auto)
  have put': "limiter_kept R l (put_existing l (table_get (li_ip l) ?ip = None) ?ip i
      (table_get (li_prefix l) ?prefix = None) ?prefix n)"
    if "kept R ?i i" "kept R ?n n" for i n
    using put [of "li_global l", OF _ that] R by (simp add: list_all2_refl)
  have refl: "limiter_kept R l l" by (rule limiter_kept_refl) (rule R)
  show "limiter_kept R l l'"
    using acc nadm put put' ki g refl
    unfolding accept_outcome admissible_def under_caps_def Let_def
    by (auto split: if_splits)
qed

text \<open>
  What an admission does: it counts the connection on both identities, spends at most
  one token of each scope, and moves the two gauges with the identities it creates.
\<close>

definition visited :: "limits \<Rightarrow> policy \<Rightarrow> nat \<Rightarrow> instant \<Rightarrow> entry \<Rightarrow> entry" where
  "visited cfg p i now e =
     snd (entry_available (e\<lparr>en_touched := now\<rparr>) i now (lim_mode_multipliers cfg ! p_mode p) (lim_preserve_burst cfg))"

definition charged :: "limits \<Rightarrow> policy \<Rightarrow> nat \<Rightarrow> instant \<Rightarrow> entry \<Rightarrow> entry" where
  "charged cfg p i now e =
     (if \<not> p_exempt p \<and> source_ok cfg p i now e then entry_consume (visited cfg p i now e) i else visited cfg p i now e)"

abbreviation refreshes :: "limits \<Rightarrow> policy \<Rightarrow> instant \<Rightarrow> bucket \<Rightarrow> bucket \<Rightarrow> bool" where
  "refreshes cfg p now \<equiv> refreshed now (lim_mode_multipliers cfg ! p_mode p) (lim_preserve_burst cfg)"

abbreviation spends :: "limits \<Rightarrow> policy \<Rightarrow> instant \<Rightarrow> bucket \<Rightarrow> bucket \<Rightarrow> bool" where
  "spends cfg p now \<equiv> spent now (lim_mode_multipliers cfg ! p_mode p) (lim_preserve_burst cfg)"

lemma kept_visited:
  "length (en_buckets e) = 4 \<Longrightarrow> i < 4 \<Longrightarrow> kept (refreshes cfg p now) e (visited cfg p i now e)"
  unfolding visited_def by (rule kept_available)

lemma kept_charged:
  assumes "length (en_buckets e) = 4" "i < 4"
  shows "kept (spends cfg p now) e (charged cfg p i now e)"
  using kept_consume [OF assms, where t = now and now = now and f = "lim_mode_multipliers cfg ! p_mode p" and pb = "lim_preserve_burst cfg"]
    kept_mono [OF kept_visited [OF assms, where cfg = cfg and p = p and now = now] refreshed_spent]
  unfolding charged_def visited_def entry_available_fst by (simp split: if_split)

definition global_charged :: "limiter \<Rightarrow> policy \<Rightarrow> nat \<Rightarrow> instant \<Rightarrow> limiter" where
  "global_charged l p i now =
     (let l' = snd (global_available l i now (lim_mode_multipliers (li_cfg l) ! p_mode p))
      in if global_ok l p i now then global_consume l' i else l')"

lemma global_charged_spends:
  assumes "length (li_global l) = 4" "i < 4"
  obtains g where "global_charged l p i now = l\<lparr>li_global := g\<rparr>"
    "list_all2 (spends (li_cfg l) p now) (li_global l) g"
proof -
  let ?f = "lim_mode_multipliers (li_cfg l) ! p_mode p"
  obtain g where g: "snd (global_available l i now ?f) = l\<lparr>li_global := g\<rparr>"
    "list_all2 (refreshes (li_cfg l) p now) (li_global l) g"
    "fst (global_available l i now ?f) \<Longrightarrow> list_all2 (spends (li_cfg l) p now) (li_global l) (g[i := bucket_consume (g ! i)])"
    using global_refreshed [OF assms] by blast
  show thesis
    by (rule that [of "if global_ok l p i now then g[i := bucket_consume (g ! i)] else g"])
      (use g list_all2_mono [OF g(2) refreshed_spent] in
        \<open>simp_all add: global_charged_def global_consume_def global_available_fst split: if_split\<close>)
qed

lemma accept_commits:
  assumes "admissible l addr p now"
  obtains m3 where "accept l m addr p now =
    accept_commit (snd (global_available l 0 now (lim_mode_multipliers (li_cfg l) ! p_mode p))) m3 p
      (table_get (li_ip l) (normalize addr) = None) (normalize addr)
      (visited (li_cfg l) p 0 now (ip_entry l addr now)) (source_ok (li_cfg l) p 0 now (ip_entry l addr now))
      (table_get (li_prefix l) (prefix_of (li_cfg l) addr) = None) (prefix_of (li_cfg l) addr)
      (visited (li_cfg l) p 0 now (prefix_entry l addr now)) (source_ok (li_cfg l) p 0 now (prefix_entry l addr now))
      (global_ok l p 0 now)"
    "metrics_wf m \<Longrightarrow> metrics_wf m3 \<and> metrics_get m3 32 = metrics_get m 32 \<and> metrics_get m3 33 = metrics_get m 33"
  using assms that unfolding accept_outcome admissible_def under_caps_def Let_def visited_def by auto

lemma commit_state:
  "fst (snd (accept_commit (snd (global_available l 0 now (lim_mode_multipliers (li_cfg l) ! p_mode p))) m p
      new_ip ip (visited (li_cfg l) p 0 now i) (source_ok (li_cfg l) p 0 now i) new_prefix prefix
      (visited (li_cfg l) p 0 now net) (source_ok (li_cfg l) p 0 now net) (global_ok l p 0 now))) =
    (global_charged l p 0 now)\<lparr>li_ip := table_put (li_ip l) ip (entry_admit (charged (li_cfg l) p 0 now i)),
      li_prefix := table_put (li_prefix l) prefix (entry_admit (charged (li_cfg l) p 0 now net))\<rparr>"
  unfolding accept_commit_def global_charged_def charged_def Let_def
  by (simp add: global_consume_def)

lemma accept_admitted:
  assumes l: "limiter_wf l" and acc: "accept l m addr p now = (Some t, l', m')"
  obtains g where
    "l' = l\<lparr>li_ip := table_put (li_ip l) (normalize addr) (entry_admit (charged (li_cfg l) p 0 now (ip_entry l addr now))),
            li_prefix := table_put (li_prefix l) (prefix_of (li_cfg l) addr)
              (entry_admit (charged (li_cfg l) p 0 now (prefix_entry l addr now))), li_global := g\<rparr>"
    "list_all2 (spends (li_cfg l) p now) (li_global l) g"
    "t = ticket_new (normalize addr) (prefix_of (li_cfg l) addr)" "admissible l addr p now"
proof -
  have adm: "admissible l addr p now" and t: "t = ticket_new (normalize addr) (prefix_of (li_cfg l) addr)"
    using accept_admits [of l m addr p now] acc by (auto split: if_splits)
  obtain g where g: "global_charged l p 0 now = l\<lparr>li_global := g\<rparr>"
    "list_all2 (spends (li_cfg l) p now) (li_global l) g"
    using global_charged_spends [OF limiter_wf_lengths(1) [OF l], of 0] by auto
  have "l' = (global_charged l p 0 now)\<lparr>
      li_ip := table_put (li_ip l) (normalize addr) (entry_admit (charged (li_cfg l) p 0 now (ip_entry l addr now))),
      li_prefix := table_put (li_prefix l) (prefix_of (li_cfg l) addr)
        (entry_admit (charged (li_cfg l) p 0 now (prefix_entry l addr now)))\<rparr>"
    using acc accept_commits [OF adm, of m] commit_state by (metis fst_conv snd_conv)
  then show thesis using that [of g] g t adm by simp
qed

lemma accept_gauges:
  assumes m: "metrics_wf m" and acc: "accept l m addr p now = (r, l', m')"
  shows "metrics_wf m' \<and>
    metrics_get m' 32 = metrics_get m 32 + of_bool (r \<noteq> None \<and> table_get (li_ip l) (normalize addr) = None) \<and>
    metrics_get m' 33 = metrics_get m 33 + of_bool (r \<noteq> None \<and> table_get (li_prefix l) (prefix_of (li_cfg l) addr) = None)"
proof (cases "admissible l addr p now")
  case True
  with accept_admits [of l m addr p now] acc have "r \<noteq> None" by simp
  moreover obtain m3 where "accept l m addr p now =
    accept_commit (snd (global_available l 0 now (lim_mode_multipliers (li_cfg l) ! p_mode p))) m3 p
      (table_get (li_ip l) (normalize addr) = None) (normalize addr)
      (visited (li_cfg l) p 0 now (ip_entry l addr now)) (source_ok (li_cfg l) p 0 now (ip_entry l addr now))
      (table_get (li_prefix l) (prefix_of (li_cfg l) addr) = None) (prefix_of (li_cfg l) addr)
      (visited (li_cfg l) p 0 now (prefix_entry l addr now)) (source_ok (li_cfg l) p 0 now (prefix_entry l addr now))
      (global_ok l p 0 now)"
    "metrics_wf m3" "metrics_get m3 32 = metrics_get m 32" "metrics_get m3 33 = metrics_get m 33"
    using accept_commits [OF True, of m] m by metis
  ultimately show ?thesis
    using acc by (simp add: accept_commit_def Let_def) (auto simp: metrics_get_inc)
next
  case False
  with accept_admits [of l m addr p now] acc have r: "r = None" by simp
  have "snd (snd (accept l m addr p now)) = m' \<Longrightarrow> metrics_wf m' \<and> metrics_get m' 32 = metrics_get m 32 \<and> metrics_get m' 33 = metrics_get m 33"
    using False m unfolding accept_outcome admissible_def under_caps_def Let_def
    by (simp add: metrics_get_inc split: if_splits) (use m in \<open>auto simp: metrics_get_inc\<close>)
  then show ?thesis using acc r by simp
qed

section \<open>Events\<close>

definition event_allowed :: "limiter \<Rightarrow> ticket \<Rightarrow> event_kind \<Rightarrow> policy \<Rightarrow> instant \<Rightarrow> bool" where
  "event_allowed l t ev p now =
     (case (table_get (li_ip l) (tk_ip t), table_get (li_prefix l) (tk_prefix t)) of
        (Some i, Some net) \<Rightarrow>
          (p_exempt p \<or> p_observe p \<or>
             source_ok (li_cfg l) p (event_index ev) now i \<and> source_ok (li_cfg l) p (event_index ev) now net) \<and>
          (p_observe p \<or> global_ok l p (event_index ev) now)
      | _ \<Rightarrow> False)"

lemma event_outcome:
  assumes "table_get (li_ip l) (tk_ip t) = Some i" "table_get (li_prefix l) (tk_prefix t) = Some net"
  shows "event l m t ev p now =
    (let cfg = li_cfg l; k = event_index ev; f = lim_mode_multipliers cfg ! p_mode p;
         put = (\<lambda>l i net. put_existing l False (tk_ip t) i False (tk_prefix t) net);
         l' = snd (global_available l k now f);
         ip_ok = source_ok cfg p k now i; prefix_ok = source_ok cfg p k now net;
         m1 = snd (judged m ip_ok 14 p); m2 = snd (judged m1 prefix_ok 15 p);
         m3 = snd (judged m2 (global_ok l p k now) 16 (p\<lparr>p_exempt := False\<rparr>))
     in if \<not> (ip_ok \<or> p_exempt p \<or> p_observe p)
        then (False, put l (visited cfg p k now i) (net\<lparr>en_touched := now\<rparr>), m1)
        else if \<not> (prefix_ok \<or> p_exempt p \<or> p_observe p)
        then (False, put l (visited cfg p k now i) (visited cfg p k now net), m2)
        else if \<not> (global_ok l p k now \<or> p_observe p)
        then (False, put l' (visited cfg p k now i) (visited cfg p k now net), m3)
        else (True, put (global_charged l p k now) (charged cfg p k now i) (charged cfg p k now net), m3))"
  unfolding event_def Let_def assms option.case prod.case case_prod_beta judged_fst
    entry_available_fst global_available_fst visited_def [symmetric]
  by (simp add: charged_def global_charged_def Let_def)

lemma event_missing:
  assumes "table_get (li_ip l) (tk_ip t) = None \<or> table_get (li_prefix l) (tk_prefix t) = None"
  shows "event l m t ev p now = (False, l, m)"
  using assms by (auto simp: event_def Let_def split: option.split)

lemma event_result: "fst (event l m t ev p now) = event_allowed l t ev p now"
proof (cases "table_get (li_ip l) (tk_ip t) = None \<or> table_get (li_prefix l) (tk_prefix t) = None")
  case True
  then show ?thesis by (auto simp: event_missing event_allowed_def split: option.split)
next
  case False
  then obtain i net where e: "table_get (li_ip l) (tk_ip t) = Some i" "table_get (li_prefix l) (tk_prefix t) = Some net"
    by auto
  show ?thesis by (auto simp: event_outcome [OF e] event_allowed_def e Let_def)
qed

lemma event_gauges:
  assumes "metrics_wf m"
  shows "metrics_wf (snd (snd (event l m t ev p now)))"
    and "j \<in> {32, 33} \<Longrightarrow> metrics_get (snd (snd (event l m t ev p now))) j = metrics_get m j"
proof -
  have "metrics_wf (snd (snd (event l m t ev p now))) \<and>
      (j \<in> {32, 33} \<longrightarrow> metrics_get (snd (snd (event l m t ev p now))) j = metrics_get m j)"
  proof (cases "table_get (li_ip l) (tk_ip t) = None \<or> table_get (li_prefix l) (tk_prefix t) = None")
    case False
    then obtain i net where e: "table_get (li_ip l) (tk_ip t) = Some i" "table_get (li_prefix l) (tk_prefix t) = Some net"
      by auto
    show ?thesis using assms by (simp add: event_outcome [OF e] Let_def)
  qed (use assms in \<open>simp add: event_missing\<close>)
  then show "metrics_wf (snd (snd (event l m t ev p now)))"
    "j \<in> {32, 33} \<Longrightarrow> metrics_get (snd (snd (event l m t ev p now))) j = metrics_get m j" by simp_all
qed

lemma limiter_kept_event:
  assumes l: "limiter_wf l"
    and e: "table_get (li_ip l) (tk_ip t) = Some i" "table_get (li_prefix l) (tk_prefix t) = Some net"
    and k: "kept R i i'" "kept R net net'" "list_all2 R (li_global l) g" "\<And>b. R b b"
  shows "limiter_kept R l (put_existing (l\<lparr>li_global := g\<rparr>) False (tk_ip t) i' False (tk_prefix t) net')"
  by (rule limiter_kept_put) (use assms in \<open>auto simp: limiter_wf_def\<close>)

lemma event_kept:
  assumes l: "limiter_wf l" and ev: "event l m t ev p now = (r, l', m')"
  shows "limiter_kept (if r then spends (li_cfg l) p now else refreshes (li_cfg l) p now) l l'"
proof (cases "table_get (li_ip l) (tk_ip t) = None \<or> table_get (li_prefix l) (tk_prefix t) = None")
  case True
  then show ?thesis using ev by (auto simp: event_missing intro!: limiter_kept_refl)
next
  case False
  then obtain i net where e: "table_get (li_ip l) (tk_ip t) = Some i" "table_get (li_prefix l) (tk_prefix t) = Some net"
    by auto
  let ?k = "event_index ev" and ?cfg = "li_cfg l"
  have len: "length (en_buckets i) = 4" "length (en_buckets net) = 4"
    using l e buckets_wf_length unfolding limiter_wf_def entries_wf_def by blast+
  obtain g where g: "snd (global_available l ?k now (lim_mode_multipliers ?cfg ! p_mode p)) = l\<lparr>li_global := g\<rparr>"
    "list_all2 (refreshes ?cfg p now) (li_global l) g"
    using global_refreshed [OF limiter_wf_lengths(1) [OF l] event_index_less] by blast
  obtain h where h: "global_charged l p ?k now = l\<lparr>li_global := h\<rparr>" "list_all2 (spends ?cfg p now) (li_global l) h"
    using global_charged_spends [OF limiter_wf_lengths(1) [OF l] event_index_less] by blast
  note put = limiter_kept_event [OF l e]
  have put': "limiter_kept (refreshes ?cfg p now) l (put_existing l False (tk_ip t) i' False (tk_prefix t) net')"
    if "kept (refreshes ?cfg p now) i i'" "kept (refreshes ?cfg p now) net net'" for i' net'
    using put [OF that, of "li_global l"] by (simp add: list_all2_refl)
  have v: "kept (refreshes ?cfg p now) i (visited ?cfg p ?k now i)" "kept (refreshes ?cfg p now) net (visited ?cfg p ?k now net)"
    "kept (refreshes ?cfg p now) net (net\<lparr>en_touched := now\<rparr>)"
    "kept (spends ?cfg p now) i (charged ?cfg p ?k now i)" "kept (spends ?cfg p now) net (charged ?cfg p ?k now net)"
    using kept_visited kept_charged len by auto
  show ?thesis
    using ev unfolding event_outcome [OF e] Let_def g(1) h(1)
    by (auto split: if_splits intro!: put put' v g(2) h(2))
qed

section \<open>The invariant\<close>

lemma kept_entries_wf:
  assumes "\<forall>k. rel_option (kept (spent now f pb)) (table_get t k) (table_get t' k)" "entries_wf r t" "factor_ok f"
  shows "entries_wf r t'"
proof -
  have "buckets_wf r (en_buckets e')" if e': "table_get t' k = Some e'" for k e'
  proof -
    obtain e where "table_get t k = Some e" "kept (spent now f pb) e e'"
      using assms(1) [rule_format, of k] e' by (auto simp: option_rel_Some2)
    then show ?thesis using assms(2) list_all2_spent_wf [OF _ _ assms(3)] unfolding entries_wf_def kept_def by blast
  qed
  then show ?thesis by (simp add: entries_wf_def)
qed

lemma limiter_kept_wf:
  assumes "limiter_kept (spends (li_cfg l) p now) l l'" "limiter_wf l" "p_mode p < 4"
  shows "limiter_wf l'"
proof -
  have f: "factor_ok (lim_mode_multipliers (li_cfg l) ! p_mode p)"
    using assms(2,3) by (simp add: limiter_wf_def limits_ok_factor)
  show ?thesis
    using assms(1,2) kept_entries_wf [OF _ _ f] list_all2_spent_wf [OF _ _ f]
    unfolding limiter_wf_def limiter_kept_def same_shape_def by auto
qed

lemma limiter_kept_mono:
  assumes "limiter_kept R l l'" "\<And>b b'. R b b' \<Longrightarrow> S b b'"
  shows "limiter_kept S l l'"
proof -
  have "rel_option (kept R) x y \<Longrightarrow> rel_option (kept S) x y" for x y
    by (erule option.rel_mono_strong) (use assms(2) kept_mono in blast)
  moreover have "list_all2 R xs ys \<Longrightarrow> list_all2 S xs ys" for xs ys
    by (erule list_all2_mono) (rule assms(2))
  ultimately show ?thesis using assms(1) unfolding limiter_kept_def by blast
qed

lemma rate_valid_no_rate [simp]: "rate_valid no_rate"
  by (simp add: rate_valid_def no_rate_def is_finite_def f64_simps)

lemma rates_valid_no_rates [simp]: "rates_valid no_rates"
  by (simp add: rates_valid_def rates_list_def no_rates_def)

lemma shipped_factor: "0 < x \<Longrightarrow> x \<le> 1 \<Longrightarrow> 1 / 2 ^ 10 \<le> x \<Longrightarrow> factor_ok (f64_of_rat x)"
proof -
  assume x: "0 < x" "x \<le> 1" "1 / 2 ^ 10 \<le> x"
  have lo: "f64_round (1 / 2 ^ 10) = (1 / 2 ^ 10 :: rat)" by code_simp
  have "1 / 2 ^ 10 \<le> f64_round x" using f64_round_mono [OF x(3)] unfolding lo .
  moreover have "f64_round x \<le> 1" using f64_round_mono [OF x(2)] by simp
  moreover have "(1 :: rat) < 2 ^ 1024" by simp
  ultimately show ?thesis
    by (auto simp: factor_ok_def f64_of_rat_def Let_def is_finite_def f64_simps)
qed

lemma limiter_new_wf: "limits_ok cfg \<Longrightarrow> limiter_wf (limiter_new cfg h1 h2 now)"
  by (simp add: limiter_wf_def limiter_new_def limits_ok_def entries_wf_def)

lemma limits_ok_shipped [simp]: "limits_ok shipped_limits"
  by (simp add: limits_ok_def shipped_limits_def shipped_factor) (simp add: factor_ok_def is_finite_def f64_simps)

section \<open>Properties\<close>

text \<open>
  C26: The decisions of the limiter, on every branch. A connection gets a ticket exactly when
  both tables have room for its identities, both are under their connection and
  pre-login caps (which neither observation mode nor an allow-list entry lifts), both
  source buckets and penalties pass or the policy observes or exempts, and the global
  bucket passes or the policy observes (an exemption does not lift the global bucket). A
  later charge passes exactly when the ticket's identities are in the tables and the source
  scopes and the global scope pass, with the same exceptions.
\<close>

theorem limiter_decisions:
  "fst (accept l m addr p now) =
     (if admissible l addr p now then Some (ticket_new (normalize addr) (prefix_of (li_cfg l) addr)) else None) \<and>
   fst (event l m t ev p now) = event_allowed l t ev p now"
  by (rule conjI [OF accept_admits event_result])

text \<open>
  A rejection costs nothing: when \<^verbatim>\<open>accept\<close> or \<^verbatim>\<open>event\<close> refuses, no identity is
  inserted or removed, no connection is counted, no score or penalty moves, and every
  token bucket, the shared ones included, is at most refilled up to now.
\<close>

theorem rejection_is_free:
  assumes "limiter_wf l"
  shows "(\<forall>l' m'. accept l m addr p now = (None, l', m') \<longrightarrow> limiter_kept (refreshes (li_cfg l) p now) l l') \<and>
    (\<forall>l' m'. event l m t ev p now = (False, l', m') \<longrightarrow> limiter_kept (refreshes (li_cfg l) p now) l l')"
  using accept_rejected(1) [OF assms] event_kept [OF assms, where r = False] by auto

theorem rejection_is_free_witness:
  "let l = limiter_new (shipped_limits\<lparr>lim_ip_entries := 0\<rparr>) (\<lambda>_. 0) (\<lambda>_. 0) 5;
       p = \<lparr>p_mode = 0, p_observe = True, p_exempt = True\<rparr> in
   limiter_wf l \<and> fst (accept l metrics_new (IpV4 7) p 9) = None \<and>
   limiter_kept (refreshes (li_cfg l) p 9) l (fst (snd (accept l metrics_new (IpV4 7) p 9)))"
proof -
  let ?cfg = "shipped_limits\<lparr>lim_ip_entries := 0\<rparr>"
  let ?l = "limiter_new ?cfg (\<lambda>_. 0) (\<lambda>_. 0) 5"
  let ?p = "\<lparr>p_mode = 0, p_observe = True, p_exempt = True\<rparr>"
  have "limits_ok ?cfg" using limits_ok_shipped by (simp add: limits_ok_def)
  then have wf: "limiter_wf ?l" by (rule limiter_new_wf)
  have full: "\<not> has_room (li_ip ?l) (normalize (IpV4 7))"
    by (simp add: has_room_def limiter_new_def) (simp add: table_new_def table_len_def table_shard_def SHARDS_def)
  then have rej: "accept ?l metrics_new (IpV4 7) ?p 9 = (None, snd (accept ?l metrics_new (IpV4 7) ?p 9))"
    using accept_admits [of ?l metrics_new "IpV4 7" ?p 9]
    by (simp add: admissible_def under_caps_def Let_def prod_eq_iff)
  then have "limiter_kept (refreshes (li_cfg ?l) ?p 9) ?l (fst (snd (accept ?l metrics_new (IpV4 7) ?p 9)))"
    using rejection_is_free [OF wf] by (metis prod.collapse)
  with wf rej show ?thesis unfolding Let_def by (metis fst_conv)
qed

end
