(* ===== verification/Limiter_Inv.thy ===== *)
theory Limiter_Inv
  imports Limiter_Ops "HOL-Library.Multiset"
begin

text \<open>
  The limiter as a concurrent state machine. Connections interleave at the granularity
  of the locks: \<^verbatim>\<open>accept\<close> and \<^verbatim>\<open>event\<close> hold both shard locks, \<^verbatim>\<open>enter_status\<close> one, while
  \<^verbatim>\<open>mark_admitted\<close>, \<^verbatim>\<open>drop\<close> and \<^verbatim>\<open>sweep\<close> visit the IP table and the prefix table in two
  separate critical sections. The invariant says that the counters of every entry are
  exactly the numbers of connections that hold it, in every interleaving.
\<close>

section \<open>The state machine\<close>

text \<open>
  A connection is between two critical sections of its own code: \<open>Live\<close>, or in the
  middle of \<^verbatim>\<open>mark_admitted\<close>, or in the middle of \<^verbatim>\<open>drop\<close> (with the clock reading of its start).
\<close>

datatype tphase = Live | Marking | Dropping instant

record lsys =
  ls_lim :: limiter
  ls_met :: metrics
  ls_conns :: "(ticket \<times> tphase) multiset"

definition drop_metrics :: "ticket \<Rightarrow> metrics \<Rightarrow> metrics" where
  "drop_metrics t m =
     (let m = (if ticket_churn t then metrics_inc m 22 else m)
      in if \<not> tk_handshake t then metrics_inc m 13 else m)"

definition drop_ip :: "(f64 \<Rightarrow> f64) \<Rightarrow> limiter \<Rightarrow> ticket \<Rightarrow> instant \<Rightarrow> limiter" where
  "drop_ip powf2 l t now = l\<lparr>li_ip := table_modify (li_ip l) (tk_ip t)
     (entry_drop powf2 (li_cfg l) t now True (lim_churn_score_threshold (li_cfg l)))\<rparr>"

definition drop_prefix :: "(f64 \<Rightarrow> f64) \<Rightarrow> limiter \<Rightarrow> ticket \<Rightarrow> instant \<Rightarrow> limiter" where
  "drop_prefix powf2 l t now = l\<lparr>li_prefix := table_modify (li_prefix l) (tk_prefix t)
     (entry_drop powf2 (li_cfg l) t now False (lim_churn_prefix_score_threshold (li_cfg l)))\<rparr>"

definition mark_ip :: "limiter \<Rightarrow> ticket \<Rightarrow> limiter" where
  "mark_ip l t = l\<lparr>li_ip := table_modify (li_ip l) (tk_ip t) entry_mark\<rparr>"

definition mark_prefix :: "limiter \<Rightarrow> ticket \<Rightarrow> limiter" where
  "mark_prefix l t = l\<lparr>li_prefix := table_modify (li_prefix l) (tk_prefix t) entry_mark\<rparr>"

text \<open>
  Every handler holds a permit of the socket semaphore for as long as it holds its
  ticket, which is the bound of the first rule. The three flags of the fifth rule are
  fields that the handler assigns directly.
\<close>

inductive limiter_step :: "(f64 \<Rightarrow> f64) \<Rightarrow> lsys \<Rightarrow> lsys \<Rightarrow> bool" for powf2 :: "f64 \<Rightarrow> f64" where
  step_accept: "\<lbrakk>accept (ls_lim s) (ls_met s) addr p now = (Some t, l, m); p_mode p < 4;
      size (ls_conns s) < lim_total_sockets (li_cfg (ls_lim s))\<rbrakk>
    \<Longrightarrow> limiter_step powf2 s \<lparr>ls_lim = l, ls_met = m, ls_conns = add_mset (t, Live) (ls_conns s)\<rparr>"
| step_refuse: "\<lbrakk>accept (ls_lim s) (ls_met s) addr p now = (None, l, m); p_mode p < 4\<rbrakk>
    \<Longrightarrow> limiter_step powf2 s \<lparr>ls_lim = l, ls_met = m, ls_conns = ls_conns s\<rparr>"
| step_event: "\<lbrakk>ls_conns s = add_mset (t, Live) rest; event (ls_lim s) (ls_met s) t ev p now = (ok, l, m); p_mode p < 4\<rbrakk>
    \<Longrightarrow> limiter_step powf2 s \<lparr>ls_lim = l, ls_met = m, ls_conns = ls_conns s\<rparr>"
| step_status: "\<lbrakk>ls_conns s = add_mset (t, Live) rest; enter_status (ls_lim s) (ls_met s) t = (ok, t', l, m)\<rbrakk>
    \<Longrightarrow> limiter_step powf2 s \<lparr>ls_lim = l, ls_met = m, ls_conns = add_mset (t', Live) rest\<rparr>"
| step_flags: "ls_conns s = add_mset (t, Live) rest
    \<Longrightarrow> limiter_step powf2 s (s\<lparr>ls_conns := add_mset
          (t\<lparr>tk_handshake := h, tk_status_complete := c, tk_server_rejected := r\<rparr>, Live) rest\<rparr>)"
| step_mark_ip: "\<lbrakk>ls_conns s = add_mset (t, Live) rest; \<not> tk_admitted t\<rbrakk>
    \<Longrightarrow> limiter_step powf2 s (s\<lparr>ls_lim := mark_ip (ls_lim s) t, ls_conns := add_mset (t, Marking) rest\<rparr>)"
| step_mark_prefix: "ls_conns s = add_mset (t, Marking) rest
    \<Longrightarrow> limiter_step powf2 s (s\<lparr>ls_lim := mark_prefix (ls_lim s) t,
          ls_conns := add_mset (t\<lparr>tk_admitted := True\<rparr>, Live) rest\<rparr>)"
| step_drop_ip: "ls_conns s = add_mset (t, Live) rest
    \<Longrightarrow> limiter_step powf2 s \<lparr>ls_lim = drop_ip powf2 (ls_lim s) t now, ls_met = drop_metrics t (ls_met s),
          ls_conns = add_mset (t, Dropping now) rest\<rparr>"
| step_drop_prefix: "ls_conns s = add_mset (t, Dropping now) rest
    \<Longrightarrow> limiter_step powf2 s (s\<lparr>ls_lim := drop_prefix powf2 (ls_lim s) t now, ls_conns := rest\<rparr>)"
| step_sweep_ip: "table_sweep (li_cfg (ls_lim s)) (li_ip (ls_lim s)) (ls_met s) 32 shard now = (t, m)
    \<Longrightarrow> limiter_step powf2 s (s\<lparr>ls_lim := (ls_lim s)\<lparr>li_ip := t\<rparr>, ls_met := m\<rparr>)"
| step_sweep_prefix: "table_sweep (li_cfg (ls_lim s)) (li_prefix (ls_lim s)) (ls_met s) 33 shard now = (t, m)
    \<Longrightarrow> limiter_step powf2 s (s\<lparr>ls_lim := (ls_lim s)\<lparr>li_prefix := t\<rparr>, ls_met := m\<rparr>)"

definition limiter_init :: "limits \<Rightarrow> lsys \<Rightarrow> bool" where
  "limiter_init cfg s \<longleftrightarrow> limits_ok cfg \<and> lim_total_sockets cfg \<le> 100000 \<and>
     (\<exists>h1 h2 now. s = \<lparr>ls_lim = limiter_new cfg h1 h2 now, ls_met = metrics_new, ls_conns = {#}\<rparr>)"

abbreviation limiter_reachable :: "(f64 \<Rightarrow> f64) \<Rightarrow> limits \<Rightarrow> lsys \<Rightarrow> bool" where
  "limiter_reachable powf2 cfg \<equiv> reachable (limiter_init cfg) (limiter_step powf2)"

text \<open>The operations of the source are runs of these steps.\<close>

lemma ticket_drop_steps:
  "ticket_drop powf2 l m t now = (drop_prefix powf2 (drop_ip powf2 l t now) t now, drop_metrics t m)"
  by (simp add: ticket_drop_def drop_prefix_def drop_ip_def drop_metrics_def Let_def)

lemma mark_admitted_steps:
  "\<not> tk_admitted t \<Longrightarrow> mark_admitted l t = (t\<lparr>tk_admitted := True\<rparr>, mark_prefix (mark_ip l t) t)"
  by (simp add: mark_admitted_def mark_prefix_def mark_ip_def)

lemma sweep_steps:
  assumes "table_sweep (li_cfg l) (li_ip l) m 32 shard now = (ip, m1)"
    and "table_sweep (li_cfg l) (li_prefix l) m1 33 shard now = (prefix, m2)"
  shows "sweep l m shard now = (l\<lparr>li_ip := ip\<rparr>\<lparr>li_prefix := prefix\<rparr>, m2)"
  using assms by (simp add: sweep_def)

section \<open>Counting connections\<close>

fun on_ip :: "ip_addr \<Rightarrow> ticket \<times> tphase \<Rightarrow> bool" where
  "on_ip k (t, Dropping _) \<longleftrightarrow> False"
| "on_ip k (t, _) \<longleftrightarrow> tk_ip t = k"

fun pending_ip :: "ip_addr \<Rightarrow> ticket \<times> tphase \<Rightarrow> bool" where
  "pending_ip k (t, Live) \<longleftrightarrow> tk_ip t = k \<and> \<not> tk_admitted t"
| "pending_ip k (t, _) \<longleftrightarrow> False"

fun status_ip :: "ip_addr \<Rightarrow> ticket \<times> tphase \<Rightarrow> bool" where
  "status_ip k c \<longleftrightarrow> on_ip k c \<and> tk_status (fst c)"

fun on_prefix :: "ip_addr \<Rightarrow> ticket \<times> tphase \<Rightarrow> bool" where
  "on_prefix k (t, _) \<longleftrightarrow> tk_prefix t = k"

fun pending_prefix :: "ip_addr \<Rightarrow> ticket \<times> tphase \<Rightarrow> bool" where
  "pending_prefix k (t, _) \<longleftrightarrow> tk_prefix t = k \<and> \<not> tk_admitted t"

definition cnt :: "('a \<Rightarrow> bool) \<Rightarrow> 'a multiset \<Rightarrow> nat" where
  "cnt P M = size (filter_mset P M)"

lemma cnt_empty [simp]: "cnt P {#} = 0"
  by (simp add: cnt_def)

lemma cnt_add [simp]: "cnt P (add_mset c M) = of_bool (P c) + cnt P M"
  by (simp add: cnt_def)

lemma cnt_le_size: "cnt P M \<le> size M"
  by (simp add: cnt_def size_filter_mset_lesseq)

lemma cnt_member: "c \<in># M \<Longrightarrow> P c \<Longrightarrow> 0 < cnt P M"
  by (auto dest!: multi_member_split)

text \<open>The counters of an entry; an absent entry counts nothing.\<close>

definition counters :: "entry option \<Rightarrow> nat \<times> nat \<times> nat" where
  "counters x = (case x of None \<Rightarrow> (0, 0, 0) | Some e \<Rightarrow> (en_active e, en_pending e, en_status e))"

lemma counters_simps [simp]:
  "counters None = (0, 0, 0)" "counters (Some e) = (en_active e, en_pending e, en_status e)"
  by (simp_all add: counters_def)

definition ip_counters :: "ip_addr \<Rightarrow> (ticket \<times> tphase) multiset \<Rightarrow> nat \<times> nat \<times> nat" where
  "ip_counters k M = (cnt (on_ip k) M, cnt (pending_ip k) M, cnt (status_ip k) M)"

definition prefix_counters :: "ip_addr \<Rightarrow> (ticket \<times> tphase) multiset \<Rightarrow> nat \<times> nat \<times> nat" where
  "prefix_counters k M = (cnt (on_prefix k) M, cnt (pending_prefix k) M, 0)"

definition accounted :: "limiter \<Rightarrow> (ticket \<times> tphase) multiset \<Rightarrow> bool" where
  "accounted l M \<longleftrightarrow> (\<forall>k. counters (table_get (li_ip l) k) = ip_counters k M) \<and>
     (\<forall>k. counters (table_get (li_prefix l) k) = prefix_counters k M)"

definition gauged :: "limiter \<Rightarrow> metrics \<Rightarrow> bool" where
  "gauged l m \<longleftrightarrow> metrics_wf m \<and> metrics_get m 32 = of_nat (table_entries (li_ip l)) \<and>
     metrics_get m 33 = of_nat (table_entries (li_prefix l))"

definition cap_held :: "nat \<Rightarrow> nat \<Rightarrow> bool" where
  "cap_held cap n \<longleftrightarrow> cap = 0 \<or> n \<le> cap"

definition capped :: "limits \<Rightarrow> (ticket \<times> tphase) multiset \<Rightarrow> bool" where
  "capped cfg M \<longleftrightarrow> (\<forall>k.
     cap_held (lim_connections_ip cfg) (cnt (on_ip k) M) \<and> cap_held (lim_prelogin_ip cfg) (cnt (pending_ip k) M) \<and>
     cap_held (lim_status_ip cfg) (cnt (status_ip k) M) \<and>
     cap_held (lim_connections_prefix cfg) (cnt (on_prefix k) M) \<and>
     cap_held (lim_prelogin_prefix cfg) (cnt (pending_prefix k) M))"

definition marking_ok :: "(ticket \<times> tphase) multiset \<Rightarrow> bool" where
  "marking_ok M \<longleftrightarrow> (\<forall>t. (t, Marking) \<in># M \<longrightarrow> \<not> tk_admitted t)"

definition lsys_inv :: "limits \<Rightarrow> lsys \<Rightarrow> bool" where
  "lsys_inv cfg s \<longleftrightarrow> li_cfg (ls_lim s) = cfg \<and> limiter_wf (ls_lim s) \<and> accounted (ls_lim s) (ls_conns s) \<and>
     gauged (ls_lim s) (ls_met s) \<and> capped cfg (ls_conns s) \<and> marking_ok (ls_conns s) \<and>
     size (ls_conns s) \<le> lim_total_sockets cfg \<and> lim_total_sockets cfg \<le> 100000 \<and>
     table_bound (li_ip (ls_lim s)) \<le> lim_ip_entries cfg \<and> table_bound (li_prefix (ls_lim s)) \<le> lim_prefix_entries cfg"

section \<open>Preservation\<close>

lemma kept_counters:
  assumes "limiter_kept R l l'"
  shows "counters (table_get (li_ip l') k) = counters (table_get (li_ip l) k)"
    and "counters (table_get (li_prefix l') k) = counters (table_get (li_prefix l) k)"
proof -
  have "counters y = counters x" if "rel_option (kept R) x y" for x y
    using that by (cases x; cases y) (auto simp: kept_def)
  with assms show "counters (table_get (li_ip l') k) = counters (table_get (li_ip l) k)"
    "counters (table_get (li_prefix l') k) = counters (table_get (li_prefix l) k)"
    unfolding limiter_kept_def by blast+
qed

lemma kept_inv:
  assumes "lsys_inv cfg s" "limiter_kept (spends cfg p now) (ls_lim s) l" "p_mode p < 4" "gauged l m"
  shows "lsys_inv cfg \<lparr>ls_lim = l, ls_met = m, ls_conns = ls_conns s\<rparr>"
proof -
  have "limiter_wf l"
    using assms(1-3) limiter_kept_wf [where l = "ls_lim s" and l' = l and p = p and now = now] by (auto simp: lsys_inv_def)
  moreover have "table_bound (li_ip l) = table_bound (li_ip (ls_lim s))"
    "table_bound (li_prefix l) = table_bound (li_prefix (ls_lim s))" "li_cfg l = cfg"
    using assms(1,2) by (auto simp: lsys_inv_def limiter_kept_def same_shape_def table_bound_def)
  ultimately show ?thesis
    using assms(1,4) kept_counters [OF assms(2)] by (auto simp: lsys_inv_def accounted_def)
qed

lemma source_entry_counters:
  "(en_active (source_entry t r k now), en_pending (source_entry t r k now), en_status (source_entry t r k now))
     = counters (table_get t k)"
  by (auto simp: source_entry_def entry_new_def split: option.split)

lemma charged_counters [simp]:
  "en_active (charged cfg p i now e) = en_active e" "en_pending (charged cfg p i now e) = en_pending e"
  "en_status (charged cfg p i now e) = en_status e"
  by (simp_all add: charged_def visited_def entry_available_def entry_consume_def split: prod.split)

lemma charged_accounted:
  assumes "accounted l M" "li_cfg l = cfg"
  shows "counters (Some (charged cfg p i now (ip_entry l addr now))) = ip_counters (normalize addr) M"
    and "counters (Some (charged cfg p i now (prefix_entry l addr now))) = prefix_counters (prefix_of cfg addr) M"
  using assms source_entry_counters [of "li_ip l" "lim_ip cfg" "normalize addr" now]
    source_entry_counters [of "li_prefix l" "lim_prefix cfg" "prefix_of cfg addr" now]
  by (simp_all add: ip_entry_def prefix_entry_def accounted_def)

lemma charged_wf:
  assumes wf: "limiter_wf l" and cfg: "li_cfg l = cfg" and p: "p_mode p < 4"
  shows "buckets_wf (lim_ip cfg) (en_buckets (charged cfg p 0 now (ip_entry l addr now)))"
    and "buckets_wf (lim_prefix cfg) (en_buckets (charged cfg p 0 now (prefix_entry l addr now)))"
proof -
  have f: "factor_ok (lim_mode_multipliers cfg ! p_mode p)"
    using wf p cfg by (auto simp: limiter_wf_def limits_ok_factor)
  have "kept (spends cfg p now) (ip_entry l addr now) (charged cfg p 0 now (ip_entry l addr now))"
    "kept (spends cfg p now) (prefix_entry l addr now) (charged cfg p 0 now (prefix_entry l addr now))"
    using limiter_wf_lengths [OF wf] kept_charged by auto
  then show "buckets_wf (lim_ip cfg) (en_buckets (charged cfg p 0 now (ip_entry l addr now)))"
    "buckets_wf (lim_prefix cfg) (en_buckets (charged cfg p 0 now (prefix_entry l addr now)))"
    using list_all2_spent_wf [OF _ _ f] source_entry_wf wf cfg
    unfolding kept_def ip_entry_def prefix_entry_def limiter_wf_def limits_ok_def by blast+
qed

lemma accept_inv:
  assumes inv: "lsys_inv cfg s" and acc: "accept (ls_lim s) (ls_met s) addr p now = (Some t, l, m)"
    and p: "p_mode p < 4" and room: "size (ls_conns s) < lim_total_sockets cfg"
  shows "lsys_inv cfg \<lparr>ls_lim = l, ls_met = m, ls_conns = add_mset (t, Live) (ls_conns s)\<rparr>"
proof -
  let ?l = "ls_lim s" and ?M = "ls_conns s" and ?ip = "normalize addr" and ?px = "prefix_of cfg addr"
  let ?i = "charged cfg p 0 now (ip_entry ?l addr now)" and ?n = "charged cfg p 0 now (prefix_entry ?l addr now)"
  have wf: "limiter_wf ?l" and cfg: "li_cfg ?l = cfg" and total: "lim_total_sockets cfg \<le> 100000"
    and acct: "accounted ?l ?M" and caps: "capped cfg ?M"
    using inv by (auto simp: lsys_inv_def)
  obtain g where l: "l = ?l\<lparr>li_ip := table_put (li_ip ?l) ?ip (entry_admit ?i),
      li_prefix := table_put (li_prefix ?l) ?px (entry_admit ?n), li_global := g\<rparr>"
    and g: "list_all2 (spends cfg p now) (li_global ?l) g" and t: "t = ticket_new ?ip ?px"
    and adm: "admissible ?l addr p now"
    using accept_admitted [OF wf acc] cfg by metis
  have tw: "table_wf (li_ip ?l)" "table_wf (li_prefix ?l)" using wf by (auto simp: limiter_wf_def)
  have room': "has_room (li_ip ?l) ?ip" "has_room (li_prefix ?l) ?px"
    using adm cfg by (auto simp: admissible_def under_caps_def Let_def)
  have f: "factor_ok (lim_mode_multipliers cfg ! p_mode p)"
    using wf p cfg by (auto simp: limiter_wf_def limits_ok_factor)
  note ci = charged_accounted(1) [OF acct cfg, where p = p and i = 0 and addr = addr and now = now, unfolded counters_simps]
    and cn = charged_accounted(2) [OF acct cfg, where p = p and i = 0 and addr = addr and now = now, unfolded counters_simps]
  have small: "cnt P ?M < usize_max" for P
    using cnt_le_size [of P ?M] room total by simp
  have "accounted l (add_mset (t, Live) ?M)"
    using acct ci cn small tw
    by (auto simp: accounted_def l table_get_put entry_admit_def ip_counters_def prefix_counters_def t ticket_new_def)
  moreover have "capped cfg (add_mset (t, Live) ?M)"
  proof -
    have "cap_ok (lim_connections_ip cfg) (cnt (on_ip ?ip) ?M)" "cap_ok (lim_connections_prefix cfg) (cnt (on_prefix ?px) ?M)"
      "cap_ok (lim_prelogin_ip cfg) (cnt (pending_ip ?ip) ?M)" "cap_ok (lim_prelogin_prefix cfg) (cnt (pending_prefix ?px) ?M)"
      using adm ci cn cfg by (auto simp: admissible_def under_caps_def Let_def ip_counters_def prefix_counters_def)
    then show ?thesis
      using caps by (auto simp: capped_def cap_held_def cap_ok_def t ticket_new_def)
  qed
  moreover have "limiter_wf l"
    using charged_wf [OF wf cfg p] wf tw room' cfg list_all2_spent_wf [OF g _ f]
    by (auto simp: limiter_wf_def l entries_wf_def table_get_put entry_admit_def has_room_def intro!: table_put_wf)
  moreover have "gauged l m"
    using inv accept_gauges [OF _ acc] tw cfg
    by (auto simp: lsys_inv_def gauged_def l table_entries_put)
  ultimately show ?thesis
    using inv room by (auto simp: lsys_inv_def l table_bound_def marking_ok_def)
qed

lemma capped_mono:
  assumes "capped cfg M"
    and "\<And>k. cnt (on_ip k) M' \<le> cnt (on_ip k) M" "\<And>k. cnt (pending_ip k) M' \<le> cnt (pending_ip k) M"
    "\<And>k. cnt (status_ip k) M' \<le> cnt (status_ip k) M" "\<And>k. cnt (on_prefix k) M' \<le> cnt (on_prefix k) M"
    "\<And>k. cnt (pending_prefix k) M' \<le> cnt (pending_prefix k) M"
  shows "capped cfg M'"
  using assms unfolding capped_def cap_held_def by (meson le_trans)

text \<open>A critical section on one entry of a table, with the connections it moves.\<close>

lemma modify_wf:
  assumes "limiter_wf l" "\<And>e. en_buckets (f e) = en_buckets e"
  shows "limiter_wf (l\<lparr>li_ip := table_modify (li_ip l) k f\<rparr>)"
    and "limiter_wf (l\<lparr>li_prefix := table_modify (li_prefix l) k f\<rparr>)"
  using assms
  by (auto simp: limiter_wf_def entries_wf_def table_modify_eq table_modify_laws split: if_splits)

lemma modify_ip_inv:
  assumes inv: "lsys_inv cfg s" and M: "ls_conns s = M"
    and other: "\<And>j. j \<noteq> k \<Longrightarrow> ip_counters j M' = ip_counters j M" "\<And>j. prefix_counters j M' = prefix_counters j M"
    and held: "0 < cnt (on_ip k) M"
    and here: "\<And>e. counters (Some e) = ip_counters k M \<Longrightarrow> counters (Some (f e)) = ip_counters k M'"
    and f: "\<And>e. en_buckets (f e) = en_buckets e"
    and rest: "capped cfg M'" "marking_ok M'" "size M' \<le> size M" "gauged (ls_lim s) m"
  shows "lsys_inv cfg \<lparr>ls_lim = (ls_lim s)\<lparr>li_ip := table_modify (li_ip (ls_lim s)) k f\<rparr>, ls_met = m, ls_conns = M'\<rparr>"
proof -
  let ?l = "ls_lim s"
  have wf: "limiter_wf ?l" "table_wf (li_ip ?l)" and acct: "accounted ?l M"
    using inv M by (auto simp: lsys_inv_def limiter_wf_def)
  have "counters (table_get (li_ip ?l) k) = ip_counters k M" using acct by (simp add: accounted_def)
  with held obtain e where e: "table_get (li_ip ?l) k = Some e" "counters (Some e) = ip_counters k M"
    by (cases "table_get (li_ip ?l) k") (auto simp: ip_counters_def)
  have "accounted (?l\<lparr>li_ip := table_modify (li_ip ?l) k f\<rparr>) M'"
    using acct other here [OF e(2)] e(1) wf(2) by (simp add: accounted_def table_modify_eq table_modify_laws)
  with inv M rest modify_wf(1) [OF wf(1) f] wf(2) show ?thesis
    by (auto simp: lsys_inv_def gauged_def table_modify_eq table_modify_laws)
      (simp_all add: table_bound_def flip: table_modify_eq)
qed

lemma modify_prefix_inv:
  assumes inv: "lsys_inv cfg s" and M: "ls_conns s = M"
    and other: "\<And>j. j \<noteq> k \<Longrightarrow> prefix_counters j M' = prefix_counters j M" "\<And>j. ip_counters j M' = ip_counters j M"
    and held: "0 < cnt (on_prefix k) M"
    and here: "\<And>e. counters (Some e) = prefix_counters k M \<Longrightarrow> counters (Some (f e)) = prefix_counters k M'"
    and f: "\<And>e. en_buckets (f e) = en_buckets e"
    and rest: "capped cfg M'" "marking_ok M'" "size M' \<le> size M" "gauged (ls_lim s) m"
  shows "lsys_inv cfg \<lparr>ls_lim = (ls_lim s)\<lparr>li_prefix := table_modify (li_prefix (ls_lim s)) k f\<rparr>, ls_met = m, ls_conns = M'\<rparr>"
proof -
  let ?l = "ls_lim s"
  have wf: "limiter_wf ?l" "table_wf (li_prefix ?l)" and acct: "accounted ?l M"
    using inv M by (auto simp: lsys_inv_def limiter_wf_def)
  have "counters (table_get (li_prefix ?l) k) = prefix_counters k M" using acct by (simp add: accounted_def)
  with held obtain e where e: "table_get (li_prefix ?l) k = Some e" "counters (Some e) = prefix_counters k M"
    by (cases "table_get (li_prefix ?l) k") (auto simp: prefix_counters_def)
  have "accounted (?l\<lparr>li_prefix := table_modify (li_prefix ?l) k f\<rparr>) M'"
    using acct other here [OF e(2)] e(1) wf(2) by (simp add: accounted_def table_modify_eq table_modify_laws)
  with inv M rest modify_wf(2) [OF wf(1) f] wf(2) show ?thesis
    by (auto simp: lsys_inv_def gauged_def table_modify_eq table_modify_laws)
      (simp_all add: table_bound_def flip: table_modify_eq)
qed

lemma entry_drop_buckets [simp]: "en_buckets (entry_drop powf2 cfg t now b th e) = en_buckets e"
  by (simp add: entry_drop_def Let_def entry_decay_def)

lemma entry_drop_counters:
  "en_active (entry_drop powf2 cfg t now b th e) = usize_dec (en_active e)"
  "en_pending (entry_drop powf2 cfg t now b th e) = (if tk_admitted t then en_pending e else usize_dec (en_pending e))"
  "en_status (entry_drop powf2 cfg t now b th e) = (if tk_status t \<and> b then usize_dec (en_status e) else en_status e)"
  by (auto simp: entry_drop_def Let_def entry_decay_def)

lemma drop_metrics_gauged: "gauged l m \<Longrightarrow> gauged l (drop_metrics t m)"
  by (simp add: gauged_def drop_metrics_def Let_def metrics_get_inc)

lemma inv_parts:
  assumes "lsys_inv cfg s"
  shows "capped cfg (ls_conns s)" "marking_ok (ls_conns s)" "gauged (ls_lim s) (ls_met s)" "li_cfg (ls_lim s) = cfg"
  using assms by (auto simp: lsys_inv_def)

lemmas counter_defs = ip_counters_def prefix_counters_def

lemma mark_ip_inv [inv_intros]:
  assumes inv: "lsys_inv cfg s" and M: "ls_conns s = add_mset (t, Live) rest" and t: "\<not> tk_admitted t"
  shows "lsys_inv cfg (s\<lparr>ls_lim := mark_ip (ls_lim s) t, ls_conns := add_mset (t, Marking) rest\<rparr>)"
proof -
  note ps = inv_parts [OF inv, unfolded M]
  have "lsys_inv cfg \<lparr>ls_lim = (ls_lim s)\<lparr>li_ip := table_modify (li_ip (ls_lim s)) (tk_ip t) entry_mark\<rparr>,
      ls_met = ls_met s, ls_conns = add_mset (t, Marking) rest\<rparr>"
    by (rule modify_ip_inv [OF inv M])
      (use t ps in \<open>auto simp: counter_defs entry_mark_def marking_ok_def intro: capped_mono\<close>)
  then show ?thesis by (cases s) (simp add: mark_ip_def)
qed

lemma mark_prefix_inv [inv_intros]:
  assumes inv: "lsys_inv cfg s" and M: "ls_conns s = add_mset (t, Marking) rest"
  shows "lsys_inv cfg (s\<lparr>ls_lim := mark_prefix (ls_lim s) t, ls_conns := add_mset (t\<lparr>tk_admitted := True\<rparr>, Live) rest\<rparr>)"
proof -
  note ps = inv_parts [OF inv, unfolded M]
  have t: "\<not> tk_admitted t" using ps(2) unfolding marking_ok_def by (meson union_single_eq_member)
  have cap: "capped cfg (add_mset (t\<lparr>tk_admitted := True\<rparr>, Live) rest)"
    by (rule capped_mono [OF ps(1)]) simp_all
  have mark: "marking_ok (add_mset (t\<lparr>tk_admitted := True\<rparr>, Live) rest)"
    using ps(2) unfolding marking_ok_def by auto
  have "lsys_inv cfg \<lparr>ls_lim = (ls_lim s)\<lparr>li_prefix := table_modify (li_prefix (ls_lim s)) (tk_prefix t) entry_mark\<rparr>,
      ls_met = ls_met s, ls_conns = add_mset (t\<lparr>tk_admitted := True\<rparr>, Live) rest\<rparr>"
    by (rule modify_prefix_inv [OF inv M])
      (use t ps(3) cap mark in \<open>auto simp: counter_defs entry_mark_def\<close>)
  then show ?thesis by (cases s) (simp add: mark_prefix_def)
qed

lemma drop_ip_inv [inv_intros]:
  assumes inv: "lsys_inv cfg s" and M: "ls_conns s = add_mset (t, Live) rest"
  shows "lsys_inv cfg \<lparr>ls_lim = drop_ip powf2 (ls_lim s) t now, ls_met = drop_metrics t (ls_met s),
    ls_conns = add_mset (t, Dropping now) rest\<rparr>"
proof -
  note ps = inv_parts [OF inv, unfolded M]
  show ?thesis
    unfolding drop_ip_def
    by (rule modify_ip_inv [OF inv M])
      (use ps in \<open>auto simp: counter_defs entry_drop_counters marking_ok_def drop_metrics_gauged intro: capped_mono\<close>)
qed

lemma drop_prefix_inv [inv_intros]:
  assumes inv: "lsys_inv cfg s" and M: "ls_conns s = add_mset (t, Dropping now) rest"
  shows "lsys_inv cfg (s\<lparr>ls_lim := drop_prefix powf2 (ls_lim s) t now, ls_conns := rest\<rparr>)"
proof -
  note ps = inv_parts [OF inv, unfolded M]
  let ?f = "entry_drop powf2 (li_cfg (ls_lim s)) t now False (lim_churn_prefix_score_threshold (li_cfg (ls_lim s)))"
  have "lsys_inv cfg \<lparr>ls_lim = (ls_lim s)\<lparr>li_prefix := table_modify (li_prefix (ls_lim s)) (tk_prefix t) ?f\<rparr>,
      ls_met = ls_met s, ls_conns = rest\<rparr>"
    by (rule modify_prefix_inv [OF inv M])
      (use ps in \<open>auto simp: counter_defs entry_drop_counters marking_ok_def intro: capped_mono\<close>)
  then show ?thesis by (cases s) (simp add: drop_prefix_def)
qed

lemma status_inv [inv_intros]:
  assumes inv: "lsys_inv cfg s" and M: "ls_conns s = add_mset (t, Live) rest"
    and st: "enter_status (ls_lim s) (ls_met s) t = (ok, t', l, m)"
  shows "lsys_inv cfg \<lparr>ls_lim = l, ls_met = m, ls_conns = add_mset (t', Live) rest\<rparr>"
proof -
  let ?l = "ls_lim s" and ?m = "ls_met s"
  note ps = inv_parts [OF inv, unfolded M]
  have acct: "counters (table_get (li_ip ?l) (tk_ip t)) = ip_counters (tk_ip t) (add_mset (t, Live) rest)"
    using inv M by (auto simp: lsys_inv_def accounted_def)
  then obtain e where e: "table_get (li_ip ?l) (tk_ip t) = Some e"
    by (cases "table_get (li_ip ?l) (tk_ip t)") (auto simp: ip_counters_def)
  have small: "cnt (status_ip (tk_ip t)) rest < usize_max"
    using cnt_le_size [of "status_ip (tk_ip t)" rest] inv M by (auto simp: lsys_inv_def)
  consider "tk_status t" "t' = t" "l = ?l" "m = ?m"
    | "t' = t\<lparr>tk_server_rejected := True\<rparr>" "l = ?l" "m = metrics_inc (metrics_inc ?m 20) 44"
    | "\<not> tk_status t" "cap_ok (lim_status_ip cfg) (en_status e)" "t' = t\<lparr>tk_status := True\<rparr>" "m = ?m"
      "l = ?l\<lparr>li_ip := table_modify (li_ip ?l) (tk_ip t) (\<lambda>e. e\<lparr>en_status := usize_inc (en_status e)\<rparr>)\<rparr>"
    using st e ps(4) by (auto simp: enter_status_def cap_ok_def table_modify_def split: if_splits)
  then show ?thesis
  proof cases
    case 1
    then show ?thesis using inv M by (cases s) simp
  next
    case 2
    then have "accounted l (add_mset (t', Live) rest)" "gauged l m"
      using inv M ps(3) by (auto simp: lsys_inv_def accounted_def counter_defs gauged_def metrics_get_inc)
    moreover have "capped cfg (add_mset (t', Live) rest)" by (rule capped_mono [OF ps(1)]) (simp_all add: 2)
    moreover have "marking_ok (add_mset (t', Live) rest)" using ps(2) by (auto simp: marking_ok_def)
    ultimately show ?thesis using inv M 2(2) by (auto simp: lsys_inv_def)
  next
    case 3
    have n: "en_status e = cnt (status_ip (tk_ip t)) rest"
      using acct e 3(1) by (simp add: ip_counters_def)
    have "capped cfg (add_mset (t', Live) rest)"
      using ps(1) 3(1-3) n unfolding capped_def by (auto simp: cap_held_def cap_ok_def)
    moreover have "marking_ok (add_mset (t', Live) rest)" using ps(2) by (auto simp: marking_ok_def)
    ultimately show ?thesis
      unfolding 3(4,5) by (intro modify_ip_inv [OF inv M])
        (use ps(3) 3(1,3) small in \<open>auto simp: counter_defs\<close>)
  qed
qed

lemma flags_inv [inv_intros]:
  assumes inv: "lsys_inv cfg s" and M: "ls_conns s = add_mset (t, Live) rest"
  shows "lsys_inv cfg (s\<lparr>ls_conns := add_mset
    (t\<lparr>tk_handshake := h, tk_status_complete := c, tk_server_rejected := r\<rparr>, Live) rest\<rparr>)"
proof -
  let ?M = "add_mset (t\<lparr>tk_handshake := h, tk_status_complete := c, tk_server_rejected := r\<rparr>, Live) rest"
  note ps = inv_parts [OF inv, unfolded M]
  have "accounted (ls_lim s) ?M"
    using inv M by (auto simp: lsys_inv_def accounted_def counter_defs)
  moreover have "capped cfg ?M" by (rule capped_mono [OF ps(1)]) simp_all
  moreover have "marking_ok ?M" using ps(2) by (auto simp: marking_ok_def)
  ultimately show ?thesis using inv M by (auto simp: lsys_inv_def)
qed

lemma sweep_counters:
  assumes "table_wf t" "table_sweep cfg t m g shard now = (t', m')"
    and "\<And>k. en_active (the (table_get t k)) = 0 \<Longrightarrow> counters (table_get t k) = (0, 0, 0)"
  shows "counters (table_get t' k) = counters (table_get t k)"
  using assms(3) [of k]
  by (auto simp: table_sweep_get [OF assms(1,2)] entry_keep_def split: option.split)

lemma cnt_sub: "(\<And>c. P c \<Longrightarrow> Q c) \<Longrightarrow> cnt P M \<le> cnt Q M"
  unfolding cnt_def by (meson filter_mset_mono_strong multiset_filter_mono size_mset_mono subset_mset.order_refl)

lemma counters_le:
  "cnt (pending_ip k) M \<le> cnt (on_ip k) M" "cnt (status_ip k) M \<le> cnt (on_ip k) M"
  "cnt (pending_prefix k) M \<le> cnt (on_prefix k) M"
proof -
  have "pending_ip k c \<Longrightarrow> on_ip k c" for c by (cases "(k, c)" rule: pending_ip.cases) auto
  then show "cnt (pending_ip k) M \<le> cnt (on_ip k) M" by (rule cnt_sub)
  show "cnt (status_ip k) M \<le> cnt (on_ip k) M" by (rule cnt_sub) simp
  show "cnt (pending_prefix k) M \<le> cnt (on_prefix k) M" by (rule cnt_sub) auto
qed

lemma sweep_entries_wf:
  "table_wf t \<Longrightarrow> table_sweep cfg t m g shard now = (t', m') \<Longrightarrow> entries_wf r t \<Longrightarrow> entries_wf r t'"
  by (auto simp: entries_wf_def table_sweep_get split: option.splits if_splits)

lemma sweep_ip_inv [inv_intros]:
  assumes inv: "lsys_inv cfg s"
    and sw: "table_sweep (li_cfg (ls_lim s)) (li_ip (ls_lim s)) (ls_met s) 32 shard now = (t, m)"
  shows "lsys_inv cfg (s\<lparr>ls_lim := (ls_lim s)\<lparr>li_ip := t\<rparr>, ls_met := m\<rparr>)"
proof -
  let ?l = "ls_lim s" and ?M = "ls_conns s"
  have tw: "table_wf (li_ip ?l)" and acct: "accounted ?l ?M" and g: "gauged ?l (ls_met s)"
    using inv by (auto simp: lsys_inv_def limiter_wf_def)
  have "counters (table_get t k) = ip_counters k ?M" for k
  proof -
    have "counters (table_get t k) = counters (table_get (li_ip ?l) k)"
    proof (rule sweep_counters [OF tw sw])
      show "en_active (the (table_get (li_ip ?l) k)) = 0 \<Longrightarrow> counters (table_get (li_ip ?l) k) = (0, 0, 0)" for k
        using acct [unfolded accounted_def, THEN conjunct1, rule_format, of k] counters_le [of k ?M]
        by (cases "table_get (li_ip ?l) k") (auto simp: ip_counters_def)
    qed
    then show ?thesis using acct by (simp add: accounted_def)
  qed
  moreover have "gauged (?l\<lparr>li_ip := t\<rparr>) m"
    using g table_sweep_gauge [OF tw _ _ sw] by (simp add: gauged_def)
  ultimately show ?thesis
    using inv acct table_sweep_wf [OF tw sw] sweep_entries_wf [OF tw sw]
    by (auto simp: lsys_inv_def accounted_def limiter_wf_def table_bound_def)
qed

lemma sweep_prefix_inv [inv_intros]:
  assumes inv: "lsys_inv cfg s"
    and sw: "table_sweep (li_cfg (ls_lim s)) (li_prefix (ls_lim s)) (ls_met s) 33 shard now = (t, m)"
  shows "lsys_inv cfg (s\<lparr>ls_lim := (ls_lim s)\<lparr>li_prefix := t\<rparr>, ls_met := m\<rparr>)"
proof -
  let ?l = "ls_lim s" and ?M = "ls_conns s"
  have tw: "table_wf (li_prefix ?l)" and acct: "accounted ?l ?M" and g: "gauged ?l (ls_met s)"
    using inv by (auto simp: lsys_inv_def limiter_wf_def)
  have "counters (table_get t k) = prefix_counters k ?M" for k
  proof -
    have "counters (table_get t k) = counters (table_get (li_prefix ?l) k)"
    proof (rule sweep_counters [OF tw sw])
      show "en_active (the (table_get (li_prefix ?l) k)) = 0 \<Longrightarrow> counters (table_get (li_prefix ?l) k) = (0, 0, 0)" for k
        using acct [unfolded accounted_def, THEN conjunct2, rule_format, of k] counters_le [of k ?M]
        by (cases "table_get (li_prefix ?l) k") (auto simp: prefix_counters_def)
    qed
    then show ?thesis using acct by (simp add: accounted_def)
  qed
  moreover have "gauged (?l\<lparr>li_prefix := t\<rparr>) m"
    using g table_sweep_gauge [OF tw _ _ sw] by (simp add: gauged_def)
  ultimately show ?thesis
    using inv acct table_sweep_wf [OF tw sw] sweep_entries_wf [OF tw sw]
    by (auto simp: lsys_inv_def accounted_def limiter_wf_def table_bound_def)
qed

section \<open>Reachable states\<close>

lemma init_inv [inv_intros]: "limiter_init cfg s \<Longrightarrow> lsys_inv cfg s"
proof -
  assume "limiter_init cfg s"
  then obtain h1 h2 now where s: "s = \<lparr>ls_lim = limiter_new cfg h1 h2 now, ls_met = metrics_new, ls_conns = {#}\<rparr>"
    and ok: "limits_ok cfg" "lim_total_sockets cfg \<le> 100000"
    by (auto simp: limiter_init_def)
  have "limiter_wf (ls_lim s)" using limiter_new_wf [OF ok(1)] by (simp add: s)
  moreover have "gauged (ls_lim s) (ls_met s)"
    by (simp add: s gauged_def limiter_new_def) (simp add: metrics_get_def metrics_new_def)
  moreover have "SHARDS * (n div SHARDS) \<le> n" for n by simp
  then have "table_bound (li_ip (ls_lim s)) \<le> lim_ip_entries cfg" "table_bound (li_prefix (ls_lim s)) \<le> lim_prefix_entries cfg"
    by (simp_all add: s limiter_new_def table_bound_def table_new_def)
  ultimately show ?thesis
    using ok by (simp add: lsys_inv_def s limiter_new_def accounted_def counter_defs capped_def cap_held_def marking_ok_def)
qed

lemma step_inv [inv_intros]:
  assumes "lsys_inv cfg s" "limiter_step powf2 s s'"
  shows "lsys_inv cfg s'"
  using assms(2)
proof cases
  case (step_accept addr p now t l m)
  then show ?thesis using accept_inv [OF assms(1)] inv_parts(4) [OF assms(1)] by simp
next
  case (step_refuse addr p now l m)
  have wf: "limiter_wf (ls_lim s)" and g: "gauged (ls_lim s) (ls_met s)" and cfg: "li_cfg (ls_lim s) = cfg"
    using assms(1) by (auto simp: lsys_inv_def)
  have k: "limiter_kept (spends cfg p now) (ls_lim s) l"
    using limiter_kept_mono [OF accept_rejected(1) [OF wf step_refuse(2)] refreshed_spent] cfg by simp
  then have "gauged l m"
    using g accept_gauges [OF _ step_refuse(2)] by (auto simp: gauged_def limiter_kept_def same_shape_def)
  then show ?thesis using kept_inv [OF assms(1) k step_refuse(3)] step_refuse(1) by simp
next
  case (step_event t rest ev p now ok l m)
  have wf: "limiter_wf (ls_lim s)" and g: "gauged (ls_lim s) (ls_met s)" and cfg: "li_cfg (ls_lim s) = cfg"
    using assms(1) by (auto simp: lsys_inv_def)
  have k: "limiter_kept (spends cfg p now) (ls_lim s) l"
    using limiter_kept_mono [OF event_kept [OF wf step_event(3)], of "spends cfg p now"] refreshed_spent cfg
    by (auto split: if_splits)
  then have "gauged l m"
    using g event_gauges [where m = "ls_met s" and l = "ls_lim s" and t = t and ev = ev and p = p and now = now] step_event(3)
    by (auto simp: gauged_def limiter_kept_def same_shape_def)
  then show ?thesis using kept_inv [OF assms(1) k step_event(4)] step_event(1) by simp
qed (use assms(1) in \<open>auto intro: inv_intros\<close>)

interpretation lsys: invariant_system "limiter_init cfg" "limiter_step powf2" "lsys_inv cfg" for cfg powf2
  by unfold_locales (auto intro: inv_intros)

lemma limiter_reachable_inv: "limiter_reachable powf2 cfg s \<Longrightarrow> lsys_inv cfg s"
  by (rule lsys.always)

text \<open>A concrete run: the shipped limits and one connection.\<close>

lemma one_connection:
  "\<exists>s. limiter_reachable powf2 shipped_limits s \<and> ls_conns s = {#(ticket_new (IpV4 263) (IpV4 256), Live)#}"
proof -
  let ?l = "limiter_new shipped_limits (\<lambda>_. 0) (\<lambda>_. 0) 5" and ?p = "\<lparr>p_mode = 0, p_observe = False, p_exempt = False\<rparr>"
  let ?s = "\<lparr>ls_lim = ?l, ls_met = metrics_new, ls_conns = {#}\<rparr>"
  have init: "limiter_init shipped_limits ?s"
    using limits_ok_shipped by (auto simp: limiter_init_def shipped_limits_def)
  have cfg: "li_cfg ?l = shipped_limits" by (simp add: limiter_new_def)
  have px: "prefix_of shipped_limits (IpV4 263) = IpV4 256"
    by (simp add: prefix_of_def normalize_def shipped_limits_def subnet_netmask netmask_eval)
  have get: "table_get (li_ip ?l) k = None" "table_get (li_prefix ?l) k = None" for k
    by (simp_all add: limiter_new_def)
  have room: "has_room (li_ip ?l) k" "has_room (li_prefix ?l) k" for k
    by (simp_all add: has_room_def limiter_new_def)
      (simp_all add: table_new_def table_len_def table_shard_def SHARDS_def shipped_limits_def)
  have free: "fst (bucket_available (bucket_new no_rate u) v f pb)" for u v f pb
    by (simp add: bucket_new_def no_rate_def bucket_available_def f64_simps)
  have lims: "lim_ip shipped_limits = no_rates" "lim_prefix shipped_limits = no_rates" "lim_global shipped_limits = no_rates"
    "lim_connections_ip shipped_limits = 0" "lim_connections_prefix shipped_limits = 0"
    "lim_prelogin_ip shipped_limits = 0" "lim_prelogin_prefix shipped_limits = 0"
    by (simp_all add: shipped_limits_def)
  have list0: "rates_list no_rates ! 0 = no_rate" by (simp add: rates_list_def no_rates_def)
  have adm: "admissible ?l (IpV4 263) ?p 9"
    unfolding admissible_def under_caps_def Let_def cfg
    by (simp add: room cap_ok_def source_ok_def global_ok_def ip_entry_def prefix_entry_def source_entry_def get cfg
        lims entry_new_def free list0) (simp add: limiter_new_def lims list0 free)
  obtain l m where acc: "accept ?l metrics_new (IpV4 263) ?p 9 = (Some (ticket_new (IpV4 263) (IpV4 256)), l, m)"
    using accept_admits [of ?l metrics_new "IpV4 263" ?p 9] adm px cfg
    by (cases "accept ?l metrics_new (IpV4 263) ?p 9") (auto simp: normalize_def)
  have "limiter_step powf2 ?s \<lparr>ls_lim = l, ls_met = m, ls_conns = add_mset (ticket_new (IpV4 263) (IpV4 256), Live) (ls_conns ?s)\<rparr>"
    by (rule step_accept [where p = ?p and addr = "IpV4 263" and now = 9]) (use acc cfg in \<open>simp_all add: shipped_limits_def\<close>)
  with reach_init [of "limiter_init shipped_limits" ?s, OF init] have
    "limiter_reachable powf2 shipped_limits \<lparr>ls_lim = l, ls_met = m, ls_conns = add_mset (ticket_new (IpV4 263) (IpV4 256), Live) (ls_conns ?s)\<rparr>"
    by (rule reach_step)
  then show ?thesis by fastforce
qed

section \<open>Properties\<close>

text \<open>
  C2: Exact accounting under every interleaving: in each reachable state the counters of
  every IP entry and every prefix entry are the numbers of connections that hold it (an
  absent entry is held by none), so no decrement underflows, no count leaks when tickets
  are dropped in any order, and the gauges of the two tables are their entry counts.
\<close>

theorem limiter_accounting:
  assumes "limiter_reachable powf2 cfg s"
  shows "(\<forall>k. counters (table_get (li_ip (ls_lim s)) k) = ip_counters k (ls_conns s)) \<and>
    (\<forall>k. counters (table_get (li_prefix (ls_lim s)) k) = prefix_counters k (ls_conns s)) \<and>
    metrics_get (ls_met s) 32 = of_nat (table_entries (li_ip (ls_lim s))) \<and>
    metrics_get (ls_met s) 33 = of_nat (table_entries (li_prefix (ls_lim s)))"
  using limiter_reachable_inv [OF assms] by (simp add: lsys_inv_def accounted_def gauged_def)

theorem limiter_accounting_witness:
  "\<exists>s :: lsys. ls_conns s = {#(ticket_new (IpV4 263) (IpV4 256), Live)#} \<and>
     counters (table_get (li_ip (ls_lim s)) (IpV4 263)) = (1, 1, 0) \<and>
     counters (table_get (li_prefix (ls_lim s)) (IpV4 256)) = (1, 1, 0)"
proof -
  obtain s where s: "limiter_reachable (\<lambda>x. x) shipped_limits s" "ls_conns s = {#(ticket_new (IpV4 263) (IpV4 256), Live)#}"
    using one_connection by blast
  then show ?thesis
    using limiter_accounting [OF s(1)] by - (rule exI [of _ s], simp add: counter_defs ticket_new_def)
qed

text \<open>
  C12: The caps hold under every interleaving and every policy: per IP at most
  \<^verbatim>\<open>connections_ip\<close> connections, \<^verbatim>\<open>prelogin_ip\<close> unadmitted ones and \<^verbatim>\<open>status_ip\<close> status
  sessions, per prefix at most \<^verbatim>\<open>connections_prefix\<close> and \<^verbatim>\<open>prelogin_prefix\<close> (a cap of zero
  is off), and neither table grows beyond its configured number of entries.
\<close>

theorem limiter_caps:
  assumes "limiter_reachable powf2 cfg s"
  shows "capped cfg (ls_conns s) \<and> table_entries (li_ip (ls_lim s)) \<le> lim_ip_entries cfg \<and>
    table_entries (li_prefix (ls_lim s)) \<le> lim_prefix_entries cfg"
  using limiter_reachable_inv [OF assms] tab.entries_bound le_trans
  unfolding lsys_inv_def limiter_wf_def by blast

theorem limiter_caps_witness:
  "\<exists>s :: lsys. size (ls_conns s) = 1 \<and> capped shipped_limits (ls_conns s) \<and>
     table_entries (li_ip (ls_lim s)) \<le> 65536 \<and> table_entries (li_prefix (ls_lim s)) \<le> 16384"
proof -
  obtain s where s: "limiter_reachable (\<lambda>x. x) shipped_limits s" "ls_conns s = {#(ticket_new (IpV4 263) (IpV4 256), Live)#}"
    using one_connection by blast
  then show ?thesis
    using limiter_caps [OF s(1)] by - (rule exI [of _ s], simp add: shipped_limits_def)
qed

text \<open>
  Maintenance never takes an entry away from a connection: in a reachable state a
  sweep of any shard at any time leaves every entry that some connection still holds,
  and a charge for a live connection is decided by its buckets, never by a missing entry.
\<close>

theorem sweep_spares_connections:
  assumes "limiter_reachable powf2 cfg s" "(t, Live) \<in># ls_conns s"
    and "sweep (ls_lim s) (ls_met s) shard now = (l, m)"
  shows "table_get (li_ip l) (tk_ip t) = table_get (li_ip (ls_lim s)) (tk_ip t) \<and>
    table_get (li_prefix l) (tk_prefix t) = table_get (li_prefix (ls_lim s)) (tk_prefix t) \<and>
    table_get (li_ip l) (tk_ip t) \<noteq> None \<and> table_get (li_prefix l) (tk_prefix t) \<noteq> None"
proof -
  have inv: "lsys_inv cfg s" by (rule limiter_reachable_inv [OF assms(1)])
  then have tw: "table_wf (li_ip (ls_lim s))" "table_wf (li_prefix (ls_lim s))" and acct: "accounted (ls_lim s) (ls_conns s)"
    by (auto simp: lsys_inv_def limiter_wf_def)
  have "0 < cnt (on_ip (tk_ip t)) (ls_conns s)" "0 < cnt (on_prefix (tk_prefix t)) (ls_conns s)"
    using cnt_member [OF assms(2)] by simp_all
  with acct have "0 < fst (counters (table_get (li_ip (ls_lim s)) (tk_ip t)))"
    "0 < fst (counters (table_get (li_prefix (ls_lim s)) (tk_prefix t)))"
    by (auto simp: accounted_def counter_defs)
  moreover obtain m1 where "table_sweep (li_cfg (ls_lim s)) (li_ip (ls_lim s)) (ls_met s) 32 shard now = (li_ip l, m1)"
    "table_sweep (li_cfg (ls_lim s)) (li_prefix (ls_lim s)) m1 33 shard now = (li_prefix l, m)"
    using assms(3) by (auto simp: sweep_def split: prod.splits)
  ultimately show ?thesis
    using table_sweep_get [OF tw(1)] table_sweep_get [OF tw(2)]
    by (auto simp: entry_keep_def counters_def split: option.splits)
qed

theorem sweep_spares_connections_witness:
  "\<exists>s :: lsys. table_get (li_ip (fst (sweep (ls_lim s) (ls_met s) 7 (from_secs 100000)))) (IpV4 263) \<noteq> None"
proof -
  obtain s where s: "limiter_reachable (\<lambda>x. x) shipped_limits s" "ls_conns s = {#(ticket_new (IpV4 263) (IpV4 256), Live)#}"
    using one_connection by blast
  then have "(ticket_new (IpV4 263) (IpV4 256), Live) \<in># ls_conns s" by simp
  from sweep_spares_connections [OF s(1) this prod.collapse [symmetric], of 7 "from_secs 100000"] show ?thesis
    unfolding ticket_new_def ticket.simps by blast
qed

text \<open>
  Only client fault is scored: dropping the ticket of a connection that was admitted,
  that completed its status exchange or that the server itself rejected leaves the churn
  score and the penalty of every identity as they were.
\<close>

theorem drop_without_fault:
  assumes "table_wf (li_ip l)" "table_wf (li_prefix l)"
    and "tk_admitted t \<or> tk_status_complete t \<or> tk_server_rejected t"
    and "ticket_drop powf2 l m t now = (l', m')"
  shows "let blame = map_option (\<lambda>e. (en_score e, en_score_at e, en_penalty_until e)) in
    (\<forall>k. blame (table_get (li_ip l') k) = blame (table_get (li_ip l) k)) \<and>
    (\<forall>k. blame (table_get (li_prefix l') k) = blame (table_get (li_prefix l) k))"
proof -
  have "\<not> ticket_churn t" using assms(3) by (auto simp: ticket_churn_def)
  then have "en_score (entry_drop powf2 cfg t now b th e) = en_score e"
    "en_score_at (entry_drop powf2 cfg t now b th e) = en_score_at e"
    "en_penalty_until (entry_drop powf2 cfg t now b th e) = en_penalty_until e" for cfg b th e
    by (simp_all add: entry_drop_def Let_def)
  then show ?thesis
    using assms(1,2,4)
    by (auto simp: ticket_drop_def Let_def table_modify_eq table_modify_laws option.map_comp comp_def)
qed

theorem drop_without_fault_witness:
  "let ip = table_put (table_new (\<lambda>_. 0) 64) (IpV4 263) (entry_new no_rates 5);
       l = (limiter_new shipped_limits (\<lambda>_. 0) (\<lambda>_. 0) 5)\<lparr>li_ip := ip\<rparr>;
       t = (ticket_new (IpV4 263) (IpV4 256))\<lparr>tk_admitted := True\<rparr> in
   map_option en_penalty_until (table_get (li_ip (fst (ticket_drop (\<lambda>x. x) l metrics_new t 9))) (IpV4 263)) = Some 5"
proof -
  let ?ip = "table_put (table_new (\<lambda>_. 0) 64) (IpV4 263) (entry_new no_rates 5)"
  let ?l = "(limiter_new shipped_limits (\<lambda>_. 0) (\<lambda>_. 0) 5)\<lparr>li_ip := ?ip\<rparr>"
  let ?t = "(ticket_new (IpV4 263) (IpV4 256))\<lparr>tk_admitted := True\<rparr>"
  let ?l' = "fst (ticket_drop (\<lambda>x. x) ?l metrics_new ?t 9)"
  have "table_wf ?ip"
    by (rule table_put_wf) (simp_all add: table_len_def, simp add: table_new_def table_shard_def SHARDS_def)
  then have wf: "table_wf (li_ip ?l)" "table_wf (li_prefix ?l)" by (simp_all add: limiter_new_def)
  have "table_get (li_ip ?l) (IpV4 263) = Some (entry_new no_rates 5)" by (simp add: table_get_put)
  moreover have "map_option (\<lambda>e. (en_score e, en_score_at e, en_penalty_until e)) (table_get (li_ip ?l') (IpV4 263)) =
      map_option (\<lambda>e. (en_score e, en_score_at e, en_penalty_until e)) (table_get (li_ip ?l) (IpV4 263))"
    using drop_without_fault [OF wf _ prod.collapse [symmetric], of ?t "\<lambda>x. x" metrics_new 9] unfolding Let_def by simp
  ultimately show ?thesis unfolding Let_def by (auto simp: entry_new_def)
qed

text \<open>
  The churn score is bounded and a penalty is earned: with \<^verbatim>\<open>2f64.powf\<close> between zero and
  one on non-positive arguments, dropping any ticket keeps a score within zero and one
  million, and the penalty of an entry moves only for a faulty connection whose new
  score reaches a positive threshold, to exactly \<^verbatim>\<open>penalty_seconds\<close> from now.
\<close>

theorem churn_score_bounded:
  assumes pow: "\<And>x. x \<le> 0 \<Longrightarrow> 0 \<le> powf2 x \<and> powf2 x \<le> 1"
    and "0 < lim_churn_half_life_seconds cfg" "lim_churn_half_life_seconds cfg < 2 ^ 64"
    and "0 \<le> en_score e" "en_score e \<le> Fin 1000000"
  shows "let e' = entry_drop powf2 cfg t now is_ip threshold e in
    0 \<le> en_score e' \<and> en_score e' \<le> Fin 1000000 \<and>
    (en_penalty_until e' = en_penalty_until e \<or>
     ticket_churn t \<and> 0 < threshold \<and> threshold \<le> en_score e' \<and>
     en_penalty_until e' = now + from_secs (lim_penalty_seconds cfg))"
proof -
  let ?d = "en_score (entry_decay powf2 e now (lim_churn_half_life_seconds cfg))"
  let ?x = "as_secs_f64 (saturating_duration_since now (en_score_at e))" and ?h = "f64_of_nat (lim_churn_half_life_seconds cfg)"
  have "- ?x / ?h \<le> 0" by (rule f64_neg_div_nonpos) (use assms(2,3) in simp_all)
  then have "0 \<le> ?d" unfolding entry_decay_def using f64_mult_unit [OF assms(4,5)] pow by simp
  then have d: "0 \<le> f64_min (?d + w) (Fin 1000000)" "f64_min (?d + w) (Fin 1000000) \<le> Fin 1000000" if "0 \<le> w" for w
    using that f64_add_nonneg [of ?d w] by (simp_all add: f64_min_nonneg f64_min_le)
  have w: "0 \<le> (if tk_handshake t then Fin (1 / 4) else 1)" by (simp add: f64_simps)
  show ?thesis
    using d [OF w] assms(4,5) unfolding entry_drop_def Let_def by (auto simp: entry_decay_def)
qed

theorem churn_score_bounded_witness:
  "let e' = entry_drop (\<lambda>x. if x \<le> 0 then Fin (1 / 2) else Fin 2) shipped_limits (ticket_new (IpV4 1) (IpV4 0)) 9 True 1
       (entry_new no_rates 5) in
   0 \<le> en_score e' \<and> en_score e' \<le> Fin 1000000 \<and> (en_penalty_until e' = 5 \<or>
     ticket_churn (ticket_new (IpV4 1) (IpV4 0)) \<and> 0 < (1 :: f64) \<and> 1 \<le> en_score e' \<and> en_penalty_until e' = 10000000009)"
proof -
  have "0 < lim_churn_half_life_seconds shipped_limits" "lim_churn_half_life_seconds shipped_limits < 2 ^ 64"
    "lim_penalty_seconds shipped_limits = 10" by (simp_all add: shipped_limits_def)
  with churn_score_bounded [of "\<lambda>x. if x \<le> 0 then Fin (1 / 2) else Fin 2" shipped_limits "entry_new no_rates 5"
      "ticket_new (IpV4 1) (IpV4 0)" 9 True 1]
  show ?thesis unfolding Let_def by (simp add: entry_new_def f64_simps from_secs_def)
qed

end
