(* ===== verification/Backend.thy ===== *)
theory Backend
  imports Limiter_Buckets "HOL-Library.Multiset"
begin

text \<open>
  backend.rs: the protection of the backend against connect storms. A semaphore bounds
  the dials in flight, a token budget bounds their rate, and a circuit breaker rejects
  dials for a cooldown after consecutive failures and then lets a single probe through.
  The state machine interleaves the dials of all connections.
\<close>

section \<open>Operations\<close>

record bstate =
  bs_failures :: nat
  bs_generation :: u64
  bs_retry_at :: "instant option"
  bs_probing :: bool
  bs_tokens :: f64
  bs_last :: instant

text \<open>\<open>bx_slots\<close> counts the free permits of the semaphore.\<close>

record protection =
  bx_cfg :: backend_protection
  bx_state :: bstate
  bx_slots :: nat

record attempt =
  at_generation :: u64
  at_finished :: bool

definition dial_slots :: "backend_protection \<Rightarrow> nat \<Rightarrow> nat" where
  "dial_slots cfg backend_slots = (if bp_max_connecting cfg = 0 then backend_slots else bp_max_connecting cfg)"

definition protection_new :: "backend_protection \<Rightarrow> nat \<Rightarrow> instant \<Rightarrow> protection" where
  "protection_new cfg backend_slots now =
     \<lparr>bx_cfg = cfg,
      bx_state = \<lparr>bs_failures = 0, bs_generation = 0, bs_retry_at = None, bs_probing = False,
        bs_tokens = burst (bp_attempts cfg), bs_last = now\<rparr>,
      bx_slots = dial_slots cfg backend_slots\<rparr>"

text \<open>The dial budget of \<^verbatim>\<open>enter\<close>: refill, then debit one token; a miss keeps the refill.\<close>

definition dial_budget :: "rate \<Rightarrow> instant \<Rightarrow> bstate \<Rightarrow> bool \<times> bstate" where
  "dial_budget rate now st =
     (if 0 < per_second rate then
        let tokens = f64_min (bs_tokens st +
              as_secs_f64 (saturating_duration_since now (bs_last st)) * per_second rate) (burst rate);
            st = st\<lparr>bs_tokens := tokens, bs_last := max (bs_last st) now\<rparr>
        in if tokens < 1 then (False, st) else (True, st\<lparr>bs_tokens := tokens - 1\<rparr>)
      else (True, st))"

definition circuit_blocks :: "bstate \<Rightarrow> instant \<Rightarrow> bool" where
  "circuit_blocks st now =
     (case bs_retry_at st of Some at' \<Rightarrow> now < at' \<or> bs_probing st | None \<Rightarrow> False)"

text \<open>
  A permit that \<^verbatim>\<open>enter\<close> acquired is released on every path that returns nothing, so only
  a granted attempt keeps one.
\<close>

definition enter :: "protection \<Rightarrow> metrics \<Rightarrow> instant \<Rightarrow> attempt option \<times> protection \<times> metrics" where
  "enter p m now =
     (if bx_slots p = 0 then (None, p, m)
      else if circuit_blocks (bx_state p) now then (None, p, m)
      else case dial_budget (bp_attempts (bx_cfg p)) now (bx_state p) of (paid, st) \<Rightarrow>
        if \<not> paid then (None, p\<lparr>bx_state := st\<rparr>, metrics_inc m 50)
        else let st = (if bs_retry_at st \<noteq> None then st\<lparr>bs_probing := True\<rparr> else st)
             in (Some \<lparr>at_generation = bs_generation st, at_finished = False\<rparr>,
                 p\<lparr>bx_state := st, bx_slots := bx_slots p - 1\<rparr>, m))"

text \<open>\<^verbatim>\<open>u32::saturating_add(1)\<close>.\<close>

definition u32_saturating_inc :: "nat \<Rightarrow> nat" where
  "u32_saturating_inc n = min (n + 1) (2 ^ 32 - 1)"

definition protection_finish :: "protection \<Rightarrow> metrics \<Rightarrow> u64 \<Rightarrow> bool \<Rightarrow> instant \<Rightarrow> protection \<times> metrics" where
  "protection_finish p m generation ok now =
     (let cfg = bx_cfg p; st = bx_state p in
      if bp_failure_threshold cfg = 0 then (p, m)
      else if generation \<noteq> bs_generation st then (p, m)
      else if ok then (p\<lparr>bx_state := st\<lparr>bs_failures := 0, bs_retry_at := None, bs_probing := False\<rparr>\<rparr>, m)
      else let st = st\<lparr>bs_failures := u32_saturating_inc (bs_failures st)\<rparr> in
        if bs_probing st \<or> bs_failures st \<ge> bp_failure_threshold cfg
        then (p\<lparr>bx_state := st\<lparr>bs_generation := bs_generation st + 1,
                bs_retry_at := Some (now + from_millis (bp_cooldown_ms cfg)), bs_probing := False\<rparr>\<rparr>,
              metrics_inc m 48)
        else (p\<lparr>bx_state := st\<rparr>, m))"

text \<open>Dropping an attempt: an unfinished one counts as a failure; its permit is released.\<close>

definition attempt_drop :: "protection \<Rightarrow> metrics \<Rightarrow> attempt \<Rightarrow> instant \<Rightarrow> protection \<times> metrics" where
  "attempt_drop p m a now =
     (case if at_finished a then (p, m) else protection_finish p m (at_generation a) False now of (p, m) \<Rightarrow>
        (p\<lparr>bx_slots := bx_slots p + 1\<rparr>, m))"

text \<open>\<^verbatim>\<open>Attempt::finish\<close> consumes the attempt, so it is dropped as finished.\<close>

definition attempt_finish :: "protection \<Rightarrow> metrics \<Rightarrow> attempt \<Rightarrow> bool \<Rightarrow> instant \<Rightarrow> protection \<times> metrics" where
  "attempt_finish p m a ok now =
     (case protection_finish p m (at_generation a) ok now of (p, m) \<Rightarrow>
        attempt_drop p m (a\<lparr>at_finished := True\<rparr>) now)"

section \<open>The dial budget as a quota\<close>






lemma finish_budget [simp]:
  "bs_tokens (bx_state (fst (protection_finish p m g ok now))) = bs_tokens (bx_state p)"
  "bs_last (bx_state (fst (protection_finish p m g ok now))) = bs_last (bx_state p)"
  "bx_cfg (fst (protection_finish p m g ok now)) = bx_cfg p"
  "bx_slots (fst (protection_finish p m g ok now)) = bx_slots p"
  by (simp_all add: protection_finish_def Let_def)

lemma attempt_drop_fst:
  "fst (attempt_drop p m a now) =
     (let q = (if at_finished a then p else fst (protection_finish p m (at_generation a) False now))
      in q\<lparr>bx_slots := bx_slots q + 1\<rparr>)"
  by (simp add: attempt_drop_def Let_def case_prod_beta del: finish_budget)

lemma attempt_finish_fst:
  "fst (attempt_finish p m a ok now) =
     (let q = fst (protection_finish p m (at_generation a) ok now) in q\<lparr>bx_slots := bx_slots q + 1\<rparr>)"
  by (simp add: attempt_finish_def attempt_drop_def Let_def case_prod_beta del: finish_budget)

lemma completion_budget [simp]:
  "bs_tokens (bx_state (fst (attempt_drop p m a now))) = bs_tokens (bx_state p)"
  "bs_last (bx_state (fst (attempt_drop p m a now))) = bs_last (bx_state p)"
  "bx_cfg (fst (attempt_drop p m a now)) = bx_cfg p"
  "bs_tokens (bx_state (fst (attempt_finish p m a ok now))) = bs_tokens (bx_state p)"
  "bs_last (bx_state (fst (attempt_finish p m a ok now))) = bs_last (bx_state p)"
  "bx_cfg (fst (attempt_finish p m a ok now)) = bx_cfg p"
  by (simp_all add: attempt_drop_fst attempt_finish_fst Let_def)







section \<open>The state machine\<close>

text \<open>
  All connections dial through one protection. \<open>by_opens\<close> counts how often the circuit
  has opened; the generation of the source is this count modulo \<open>2 ^ 64\<close>.
\<close>

record bsys =
  by_prot :: protection
  by_met :: metrics
  by_flight :: "attempt multiset"
  by_opens :: nat

definition reopened :: "protection \<Rightarrow> protection \<Rightarrow> nat" where
  "reopened p p' = of_bool (bs_generation (bx_state p') \<noteq> bs_generation (bx_state p))"

inductive backend_step :: "bsys \<Rightarrow> bsys \<Rightarrow> bool" where
  dial_granted: "enter (by_prot s) (by_met s) now = (Some a, p, m)
    \<Longrightarrow> backend_step s (s\<lparr>by_prot := p, by_met := m, by_flight := add_mset a (by_flight s)\<rparr>)"
| dial_refused: "enter (by_prot s) (by_met s) now = (None, p, m)
    \<Longrightarrow> backend_step s (s\<lparr>by_prot := p, by_met := m\<rparr>)"
| dial_finished: "\<lbrakk>by_flight s = add_mset a rest; attempt_finish (by_prot s) (by_met s) a ok now = (p, m)\<rbrakk>
    \<Longrightarrow> backend_step s \<lparr>by_prot = p, by_met = m, by_flight = rest, by_opens = by_opens s + reopened (by_prot s) p\<rparr>"
| dial_cancelled: "\<lbrakk>by_flight s = add_mset a rest; attempt_drop (by_prot s) (by_met s) a now = (p, m)\<rbrakk>
    \<Longrightarrow> backend_step s \<lparr>by_prot = p, by_met = m, by_flight = rest, by_opens = by_opens s + reopened (by_prot s) p\<rparr>"

definition backend_init :: "backend_protection \<Rightarrow> nat \<Rightarrow> bsys \<Rightarrow> bool" where
  "backend_init cfg backend_slots s \<longleftrightarrow> (\<exists>now m. s =
     \<lparr>by_prot = protection_new cfg backend_slots now, by_met = m, by_flight = {#}, by_opens = 0\<rparr>)"

abbreviation backend_reachable :: "backend_protection \<Rightarrow> nat \<Rightarrow> bsys \<Rightarrow> bool" where
  "backend_reachable cfg n \<equiv> reachable (backend_init cfg n) backend_step"

definition current :: "protection \<Rightarrow> attempt multiset \<Rightarrow> nat" where
  "current p F = size {#a \<in># F. at_generation a = bs_generation (bx_state p)#}"

text \<open>
  The circuit: closed with fewer failures than the threshold, or open, and then the
  attempts of the current wave in flight are the probe or none.
\<close>

definition circuit_inv :: "protection \<Rightarrow> attempt multiset \<Rightarrow> bool" where
  "circuit_inv p F \<longleftrightarrow>
     (case bs_retry_at (bx_state p) of
        None \<Rightarrow> \<not> bs_probing (bx_state p) \<and>
          (bp_failure_threshold (bx_cfg p) = 0 \<or> bs_failures (bx_state p) < bp_failure_threshold (bx_cfg p))
      | Some _ \<Rightarrow> bp_failure_threshold (bx_cfg p) \<noteq> 0 \<and> current p F = of_bool (bs_probing (bx_state p)))"

definition waves_inv :: "protection \<Rightarrow> attempt multiset \<Rightarrow> nat \<Rightarrow> bool" where
  "waves_inv p F n \<longleftrightarrow> unat (bs_generation (bx_state p)) = n \<and>
     (\<forall>a. a \<in># F \<longrightarrow> unat (at_generation a) \<le> n \<and> \<not> at_finished a)"

definition backend_inv :: "backend_protection \<Rightarrow> nat \<Rightarrow> bsys \<Rightarrow> bool" where
  "backend_inv cfg n s \<longleftrightarrow> bx_cfg (by_prot s) = cfg \<and>
     bx_slots (by_prot s) + size (by_flight s) = dial_slots cfg n \<and>
     (by_opens s < 2 ^ 64 \<longrightarrow> waves_inv (by_prot s) (by_flight s) (by_opens s) \<and> circuit_inv (by_prot s) (by_flight s))"

lemma current_add [simp]:
  "current p (add_mset a F) = of_bool (at_generation a = bs_generation (bx_state p)) + current p F"
  by (simp add: current_def)

lemma dial_budget_circuit:
  assumes "dial_budget r now st = (ok, st')"
  shows "bs_generation st' = bs_generation st" "bs_retry_at st' = bs_retry_at st"
    "bs_probing st' = bs_probing st" "bs_failures st' = bs_failures st"
  using assms by (auto simp: dial_budget_def Let_def split: if_splits)

lemma enter_refused:
  assumes "enter p m now = (None, p', m')"
  shows "bx_cfg p' = bx_cfg p \<and> bx_slots p' = bx_slots p \<and>
    bs_generation (bx_state p') = bs_generation (bx_state p) \<and> bs_retry_at (bx_state p') = bs_retry_at (bx_state p) \<and>
    bs_probing (bx_state p') = bs_probing (bx_state p) \<and> bs_failures (bx_state p') = bs_failures (bx_state p)"
  using assms by (auto simp: enter_def Let_def split: if_splits prod.splits dest: dial_budget_circuit)

lemma enter_granted:
  assumes "enter p m now = (Some a, p', m')"
  shows "bx_cfg p' = bx_cfg p \<and> bx_slots p = Suc (bx_slots p') \<and>
    a = \<lparr>at_generation = bs_generation (bx_state p), at_finished = False\<rparr> \<and> \<not> circuit_blocks (bx_state p) now \<and>
    bs_generation (bx_state p') = bs_generation (bx_state p) \<and> bs_retry_at (bx_state p') = bs_retry_at (bx_state p) \<and>
    bs_probing (bx_state p') = (bs_retry_at (bx_state p) \<noteq> None \<or> bs_probing (bx_state p)) \<and>
    bs_failures (bx_state p') = bs_failures (bx_state p)"
  using assms by (auto simp: enter_def Let_def split: if_splits prod.splits dest: dial_budget_circuit)

lemma granted_inv [inv_intros]:
  assumes inv: "backend_inv cfg n s" and e: "enter (by_prot s) (by_met s) now = (Some a, p, m)"
  shows "backend_inv cfg n (s\<lparr>by_prot := p, by_met := m, by_flight := add_mset a (by_flight s)\<rparr>)"
proof -
  note g = enter_granted [OF e]
  have "circuit_inv p (add_mset a (by_flight s))" if "circuit_inv (by_prot s) (by_flight s)"
    using that g by (auto simp: circuit_inv_def circuit_blocks_def current_def split: option.splits)
  with inv g show ?thesis by (auto simp: backend_inv_def waves_inv_def)
qed

lemma refused_inv [inv_intros]:
  assumes inv: "backend_inv cfg n s" and e: "enter (by_prot s) (by_met s) now = (None, p, m)"
  shows "backend_inv cfg n (s\<lparr>by_prot := p, by_met := m\<rparr>)"
  using inv enter_refused [OF e]
  by (auto simp: backend_inv_def waves_inv_def circuit_inv_def current_def split: option.splits)

text \<open>A completion of an attempt in flight, after which the attempt is gone.\<close>

lemma finish_inv:
  assumes w: "waves_inv p (add_mset a F) n" and c: "circuit_inv p (add_mset a F)"
    and fin: "protection_finish p m (at_generation a) ok now = (p', m')"
    and n: "n + reopened p p' < 2 ^ 64"
  shows "waves_inv p' F (n + reopened p p') \<and> circuit_inv p' F"
proof (cases "bp_failure_threshold (bx_cfg p) = 0 \<or> at_generation a \<noteq> bs_generation (bx_state p)")
  case True
  then have "p' = p" using fin by (auto simp: protection_finish_def Let_def split: if_splits)
  then show ?thesis
    using w c True by (auto simp: waves_inv_def circuit_inv_def reopened_def split: option.splits)
next
  case False
  let ?g = "bs_generation (bx_state p)"
  have old: "unat (at_generation b) \<le> n" if "b \<in># F" for b using w that by (auto simp: waves_inv_def)
  have now: "unat ?g = n" using w by (simp add: waves_inv_def)
  consider (same) "bs_generation (bx_state p') = ?g" | (wave) "bs_generation (bx_state p') = ?g + 1"
    using fin by (auto simp: protection_finish_def Let_def split: if_splits)
  then show ?thesis
  proof cases
    case same
    then have "reopened p p' = 0" by (simp add: reopened_def)
    moreover have "waves_inv p' F n" using w same by (auto simp: waves_inv_def)
    moreover have "circuit_inv p' F"
    proof (cases ok)
      case True
      then have "p' = p\<lparr>bx_state := (bx_state p)\<lparr>bs_failures := 0, bs_retry_at := None, bs_probing := False\<rparr>\<rparr>"
        using False fin by (simp add: protection_finish_def Let_def)
      then show ?thesis using False by (simp add: circuit_inv_def)
    next
      case bad: False
      let ?st = "(bx_state p)\<lparr>bs_failures := u32_saturating_inc (bs_failures (bx_state p))\<rparr>"
      have "p' = p\<lparr>bx_state := ?st\<rparr>" "\<not> bs_probing ?st" "bs_failures ?st < bp_failure_threshold (bx_cfg p)"
        using False bad fin same by (auto simp: protection_finish_def Let_def split: if_splits)
      then show ?thesis using c False by (simp add: circuit_inv_def current_def split: option.splits)
    qed
    ultimately show ?thesis by simp
  next
    case wave
    then have re: "reopened p p' = 1" by (simp add: reopened_def)
    with n have "unat (?g + 1) = Suc n" using now by (simp add: unat_word_ariths)
    then have "waves_inv p' F (Suc n)" using wave w by (auto simp: waves_inv_def le_SucI)
    moreover have "current p' F = 0"
      using old \<open>unat (?g + 1) = Suc n\<close> wave by (auto simp: current_def) (metis Suc_n_not_le_n)
    moreover have "bs_retry_at (bx_state p') \<noteq> None" "\<not> bs_probing (bx_state p')" "bx_cfg p' = bx_cfg p"
      using wave fin by (auto simp: protection_finish_def Let_def split: if_splits)
    ultimately show ?thesis using re False by (auto simp: circuit_inv_def)
  qed
qed

lemma slots_irrelevant [simp]:
  "waves_inv (p\<lparr>bx_slots := k\<rparr>) F n = waves_inv p F n" "circuit_inv (p\<lparr>bx_slots := k\<rparr>) F = circuit_inv p F"
  "reopened p' (p\<lparr>bx_slots := k\<rparr>) = reopened p' p"
  by (simp_all add: waves_inv_def circuit_inv_def current_def reopened_def split: option.split)

lemma completed_inv:
  assumes inv: "backend_inv cfg n s" and F: "by_flight s = add_mset a rest"
    and fin: "protection_finish (by_prot s) m0 (at_generation a) ok now = (q, m1)"
    and p: "p = q\<lparr>bx_slots := bx_slots q + 1\<rparr>"
  shows "backend_inv cfg n \<lparr>by_prot = p, by_met = m, by_flight = rest, by_opens = by_opens s + reopened (by_prot s) p\<rparr>"
proof -
  have "bx_cfg q = bx_cfg (by_prot s)" "bx_slots q = bx_slots (by_prot s)"
    using fin finish_budget(3,4) [of "by_prot s" m0 "at_generation a" ok now] by simp_all
  moreover have "waves_inv q rest (by_opens s + reopened (by_prot s) q) \<and> circuit_inv q rest"
    if "by_opens s + reopened (by_prot s) q < 2 ^ 64"
    using finish_inv [OF _ _ fin] inv F that by (auto simp: backend_inv_def)
  ultimately show ?thesis using inv F p by (auto simp: backend_inv_def)
qed

lemma backend_step_inv [inv_intros]:
  assumes inv: "backend_inv cfg n s" and "backend_step s s'"
  shows "backend_inv cfg n s'"
  using assms(2)
proof cases
  case (dial_finished a rest ok now p m)
  obtain q m1 where q: "protection_finish (by_prot s) (by_met s) (at_generation a) ok now = (q, m1)" by fastforce
  then have "p = q\<lparr>bx_slots := bx_slots q + 1\<rparr>"
    using attempt_finish_fst [of "by_prot s" "by_met s" a ok now] dial_finished(3) by (simp add: Let_def)
  from completed_inv [OF inv dial_finished(2) q this] show ?thesis unfolding dial_finished(1) .
next
  case (dial_cancelled a rest now p m)
  obtain q m1 where q: "protection_finish (by_prot s) (by_met s) (at_generation a) False now = (q, m1)" by fastforce
  show ?thesis
  proof (cases "at_finished a")
    case False
    then have "p = q\<lparr>bx_slots := bx_slots q + 1\<rparr>"
      using attempt_drop_fst [of "by_prot s" "by_met s" a now] dial_cancelled(3) q by (simp add: Let_def)
    from completed_inv [OF inv dial_cancelled(2) q this] show ?thesis unfolding dial_cancelled(1) .
  next
    case True
    then have "p = (by_prot s)\<lparr>bx_slots := bx_slots (by_prot s) + 1\<rparr>"
      using attempt_drop_fst [of "by_prot s" "by_met s" a now] dial_cancelled(3) by (simp add: Let_def)
    moreover have "\<not> by_opens s < 2 ^ 64"
      using inv dial_cancelled(2) True by (auto simp: backend_inv_def waves_inv_def)
    ultimately show ?thesis
      using inv dial_cancelled(1,2) by (auto simp: backend_inv_def)
  qed
qed (use inv in \<open>auto intro: inv_intros\<close>)

lemma backend_init_inv [inv_intros]: "backend_init cfg n s \<Longrightarrow> backend_inv cfg n s"
  by (auto simp: backend_init_def backend_inv_def protection_new_def waves_inv_def circuit_inv_def)

interpretation circuit: invariant_system "backend_init cfg n" backend_step "backend_inv cfg n" for cfg n
  by unfold_locales (auto intro: inv_intros)

lemma backend_reachable_inv: "backend_reachable cfg n s \<Longrightarrow> backend_inv cfg n s"
  by (rule circuit.always)

section \<open>Properties\<close>

text \<open>
  C30: One probe at a time: while the circuit is open at most one dial of the current wave
  is in flight, and exactly when it is marked as the probe; the dials in flight never
  exceed the connecting cap; and no permit leaks. (Up to \<open>2 ^ 64\<close> openings, where the
  wrapping generation could name two waves alike.)
\<close>

theorem single_probe:
  assumes "backend_reachable cfg n s" "by_opens s < 2 ^ 64"
  shows "(bs_retry_at (bx_state (by_prot s)) \<noteq> None \<longrightarrow>
      current (by_prot s) (by_flight s) = of_bool (bs_probing (bx_state (by_prot s)))) \<and>
    bx_slots (by_prot s) + size (by_flight s) = dial_slots cfg n"
  using backend_reachable_inv [OF assms(1)] assms(2)
  by (auto simp: backend_inv_def circuit_inv_def split: option.splits)

text \<open>A run that opens the circuit with its only dial.\<close>

definition one_shot :: backend_protection where
  "one_shot = \<lparr>bp_max_connecting = 3, bp_failure_threshold = 1, bp_cooldown_ms = 100, bp_attempts = no_rate\<rparr>"

lemma opened_once:
  "\<exists>s. backend_reachable one_shot 4 s \<and> by_opens s = 1 \<and> by_flight s = {#} \<and>
     bs_retry_at (bx_state (by_prot s)) = Some 100000007"
proof -
  let ?p = "protection_new one_shot 4 5" and ?a = "\<lparr>at_generation = 0, at_finished = False\<rparr>"
  let ?q = "?p\<lparr>bx_slots := 2\<rparr>"
  define r m where "r = fst (attempt_finish ?q metrics_new ?a False 7)" and "m = snd (attempt_finish ?q metrics_new ?a False 7)"
  define s0 where "s0 = \<lparr>by_prot = ?p, by_met = metrics_new, by_flight = {#}, by_opens = 0\<rparr>"
  define s1 where "s1 = \<lparr>by_prot = ?q, by_met = metrics_new, by_flight = {#?a#}, by_opens = 0\<rparr>"
  define s2 where "s2 = \<lparr>by_prot = r, by_met = m, by_flight = {#}, by_opens = reopened ?q r\<rparr>"
  have st: "bx_state ?q = bx_state ?p" "bx_cfg ?q = one_shot" by (simp_all add: protection_new_def)
  have new: "bs_generation (bx_state ?p) = 0" "bs_probing (bx_state ?p) = False" "bs_failures (bx_state ?p) = 0"
    by (simp_all add: protection_new_def)
  have one: "bp_failure_threshold one_shot = 1" "bp_cooldown_ms one_shot = 100" by (simp_all add: one_shot_def)
  have "bx_state (fst (protection_finish ?q metrics_new 0 False 7)) =
      (bx_state ?p)\<lparr>bs_failures := 1, bs_generation := 1, bs_retry_at := Some 100000007, bs_probing := False\<rparr>"
    by (simp add: protection_finish_def Let_def st new one u32_saturating_inc_def from_millis_def)
  then have r: "bs_generation (bx_state r) = 1" "bs_retry_at (bx_state r) = Some 100000007"
    by (simp_all add: r_def attempt_finish_fst Let_def)
  have "enter ?p metrics_new 6 = (Some ?a, ?q, metrics_new)"
    by (simp add: enter_def protection_new_def one_shot_def no_rate_def dial_slots_def circuit_blocks_def
        dial_budget_def f64_simps)
  then have 1: "backend_step s0 s1" using dial_granted [of s0 6 ?a ?q metrics_new] by (simp add: s0_def s1_def)
  have 2: "backend_step s1 s2"
    using dial_finished [of s1 ?a "{#}" False 7 r m] by (simp add: s1_def s2_def r_def m_def)
  have "backend_reachable one_shot 4 s0" by (rule reach_init) (auto simp: backend_init_def s0_def)
  from reach_step [OF reach_step [OF this 1] 2] have "backend_reachable one_shot 4 s2" .
  moreover have "by_opens s2 = 1" using r new by (simp add: s2_def reopened_def st)
  ultimately show ?thesis using r by (intro exI [of _ s2]) (simp add: s2_def)
qed

theorem single_probe_witness:
  "\<exists>s :: bsys. bs_retry_at (bx_state (by_prot s)) \<noteq> None \<and>
     current (by_prot s) (by_flight s) = of_bool (bs_probing (bx_state (by_prot s))) \<and>
     bx_slots (by_prot s) + size (by_flight s) = 3"
proof -
  obtain s where "backend_reachable one_shot 4 s" "by_opens s = 1" "bs_retry_at (bx_state (by_prot s)) = Some 100000007"
    using opened_once by blast
  with single_probe [of one_shot 4 s] show ?thesis
    by - (rule exI [of _ s], simp add: dial_slots_def one_shot_def)
qed



section \<open>Opening and recovering\<close>

abbreviation fail_once :: "instant \<Rightarrow> protection \<times> metrics \<Rightarrow> protection \<times> metrics" where
  "fail_once now \<equiv> (\<lambda>(p, m). protection_finish p m (bs_generation (bx_state p)) False now)"

lemma failures_counted:
  assumes "bs_retry_at (bx_state p) = None" "\<not> bs_probing (bx_state p)" "bs_failures (bx_state p) = 0"
    and "j < bp_failure_threshold (bx_cfg p)" "bp_failure_threshold (bx_cfg p) < 2 ^ 32"
  shows "(fail_once now ^^ j) (p, m) = (p\<lparr>bx_state := (bx_state p)\<lparr>bs_failures := j\<rparr>\<rparr>, m)"
  using assms(4)
proof (induction j)
  case 0
  then show ?case using assms(3) by simp
next
  case (Suc j)
  then have "(fail_once now ^^ Suc j) (p, m) = fail_once now (p\<lparr>bx_state := (bx_state p)\<lparr>bs_failures := j\<rparr>\<rparr>, m)"
    by simp
  also have "\<dots> = (p\<lparr>bx_state := (bx_state p)\<lparr>bs_failures := Suc j\<rparr>\<rparr>, m)"
    using Suc.prems assms(2,5) by (simp add: protection_finish_def Let_def u32_saturating_inc_def)
  finally show ?case .
qed

text \<open>
  The circuit opens on exactly \<^verbatim>\<open>failure_threshold\<close> consecutive failures: starting closed
  and healthy, it stays closed through the first threshold minus one failed completions
  of the current wave and opens with the next one, for the configured cooldown, in a new
  wave, counting the opening once.
\<close>

theorem outage_opens_circuit:
  assumes "bs_retry_at (bx_state p) = None" "\<not> bs_probing (bx_state p)" "bs_failures (bx_state p) = 0"
    and "bp_failure_threshold (bx_cfg p) = Suc k" "Suc k < 2 ^ 32"
  shows "(\<forall>j\<le>k. bs_retry_at (bx_state (fst ((fail_once now ^^ j) (p, m)))) = None) \<and>
    (case (fail_once now ^^ Suc k) (p, m) of (p', m') \<Rightarrow>
       bs_retry_at (bx_state p') = Some (now + from_millis (bp_cooldown_ms (bx_cfg p))) \<and>
       \<not> bs_probing (bx_state p') \<and> bs_generation (bx_state p') = bs_generation (bx_state p) + 1 \<and>
       m' = metrics_inc m 48)"
proof -
  have f: "(fail_once now ^^ j) (p, m) = (p\<lparr>bx_state := (bx_state p)\<lparr>bs_failures := j\<rparr>\<rparr>, m)" if "j \<le> k" for j
    using failures_counted [OF assms(1-3)] assms(4,5) that by simp
  have "(fail_once now ^^ Suc k) (p, m) = fail_once now (p\<lparr>bx_state := (bx_state p)\<lparr>bs_failures := k\<rparr>\<rparr>, m)"
    using f [of k] by simp
  then show ?thesis
    using f assms by (simp add: protection_finish_def Let_def u32_saturating_inc_def)
qed

theorem outage_opens_circuit_witness:
  "let p = protection_new (one_shot\<lparr>bp_failure_threshold := 3\<rparr>) 4 5 in
   bs_retry_at (bx_state (fst ((fail_once 9 ^^ 2) (p, metrics_new)))) = None \<and>
   bs_retry_at (bx_state (fst ((fail_once 9 ^^ 3) (p, metrics_new)))) = Some 100000009"
proof -
  let ?p = "protection_new (one_shot\<lparr>bp_failure_threshold := 3\<rparr>) 4 5"
  have p: "bs_retry_at (bx_state ?p) = None" "\<not> bs_probing (bx_state ?p)" "bs_failures (bx_state ?p) = 0"
    "bp_failure_threshold (bx_cfg ?p) = Suc 2" "bp_cooldown_ms (bx_cfg ?p) = 100"
    by (simp_all add: protection_new_def one_shot_def)
  have three: "(3 :: nat) = Suc 2" by simp
  show ?thesis
    using outage_opens_circuit [OF p(1-4), of 9 metrics_new] p(5)
    unfolding Let_def case_prod_beta three by (simp add: from_millis_def del: funpow.simps)
qed

text \<open>
  Recovery: when the cooldown of an open circuit is over, a permit is free and the
  dial budget pays, the next dial is let through as the probe and every further dial is
  refused without a charge until it completes; the probe's success closes the circuit
  with no failures on record, and its failure keeps it open for another cooldown.
\<close>

theorem probe_recovers:
  assumes "bs_retry_at (bx_state p) = Some t" "t \<le> now" "\<not> bs_probing (bx_state p)" "0 < bx_slots p"
    and "fst (dial_budget (bp_attempts (bx_cfg p)) now (bx_state p))" "bp_failure_threshold (bx_cfg p) \<noteq> 0"
  shows "\<exists>a p'. enter p m now = (Some a, p', m) \<and> bs_probing (bx_state p') \<and>
    (\<forall>u. enter p' m u = (None, p', m)) \<and>
    (\<forall>u. let st = bx_state (fst (attempt_finish p' m a True u)) in
       bs_retry_at st = None \<and> bs_failures st = 0 \<and> \<not> bs_probing st) \<and>
    (\<forall>u v. v < u + from_millis (bp_cooldown_ms (bx_cfg p)) \<longrightarrow>
       circuit_blocks (bx_state (fst (attempt_finish p' m a False u))) v)"
proof -
  obtain st where b: "dial_budget (bp_attempts (bx_cfg p)) now (bx_state p) = (True, st)"
    using assms(5) by (metis prod.collapse)
  note c = dial_budget_circuit [OF b]
  let ?a = "\<lparr>at_generation = bs_generation (bx_state p), at_finished = False\<rparr>"
  let ?p = "p\<lparr>bx_state := st\<lparr>bs_probing := True\<rparr>, bx_slots := bx_slots p - 1\<rparr>"
  have "enter p m now = (Some ?a, ?p, m)"
    using assms b c by (simp add: enter_def circuit_blocks_def)
  moreover have "enter ?p m u = (None, ?p, m)" for u
    using assms(1) c by (simp add: enter_def circuit_blocks_def)
  moreover have "bx_state (fst (attempt_finish ?p m ?a True u)) =
      st\<lparr>bs_failures := 0, bs_retry_at := None, bs_probing := False\<rparr>" for u
    using assms(6) c by (simp add: attempt_finish_fst Let_def protection_finish_def)
  moreover have "bs_retry_at (bx_state (fst (attempt_finish ?p m ?a False u))) =
      Some (u + from_millis (bp_cooldown_ms (bx_cfg p)))" for u
    using assms(6) c by (simp add: attempt_finish_fst Let_def protection_finish_def)
  ultimately show ?thesis by (intro exI [of _ ?a] exI [of _ ?p]) (simp add: Let_def circuit_blocks_def)
qed

theorem probe_recovers_witness:
  "\<exists>s :: bsys. (\<exists>a p'. enter (by_prot s) metrics_new 200000000 = (Some a, p', metrics_new) \<and> bs_probing (bx_state p') \<and>
     enter p' metrics_new 200000001 = (None, p', metrics_new))"
proof -
  obtain s where s: "backend_reachable one_shot 4 s" "by_opens s = 1" "by_flight s = {#}"
    "bs_retry_at (bx_state (by_prot s)) = Some 100000007"
    using opened_once by blast
  have inv: "backend_inv one_shot 4 s" by (rule backend_reachable_inv [OF s(1)])
  then have cfg: "bx_cfg (by_prot s) = one_shot" and slots: "0 < bx_slots (by_prot s)"
    and probe: "\<not> bs_probing (bx_state (by_prot s))"
    using s by (auto simp: backend_inv_def circuit_inv_def current_def dial_slots_def one_shot_def)
  have "fst (dial_budget (bp_attempts one_shot) 200000000 (bx_state (by_prot s)))" "bp_failure_threshold one_shot \<noteq> 0"
    by (simp_all add: dial_budget_def one_shot_def no_rate_def f64_simps)
  with probe_recovers [OF s(4) _ probe slots, of 200000000 metrics_new] cfg show ?thesis
    by (intro exI [of _ s]) auto
qed

end
