(* ===== verification/Runtime.thy ===== *)
theory Runtime
  imports Limiter
begin

text \<open>
  runtime.rs: the policy document that the controller publishes. The gate polls a file,
  keeps the newest accepted generation with its receive time, and derives the policy of
  a source address from it. \<^verbatim>\<open>serde_json::from_slice\<close> is the parameter \<open>parse\<close>, the
  \<^verbatim>\<open>ipnet\<close> crate the parameter \<open>ops\<close>; \<open>unix\<close> is the system clock in seconds and \<open>now\<close> the
  monotonic one.
\<close>

section \<open>Prefix indexes\<close>

definition MAX_DOCUMENT_BYTES :: usize where
  "MAX_DOCUMENT_BYTES = 262144"

record ('a, 'b) wire =
  wi_generation :: nat
  wi_expires_unix :: nat
  wi_mode :: usize
  wi_observe :: bool
  wi_allow :: "('a, 'b) ip_net list"
  wi_block :: "('a, 'b) ip_net list"

record ('a, 'b) prefix_index =
  px_small :: "('a, 'b) ip_net list"
  px_v4 :: "(u32 \<times> u32 set) list"
  px_v6 :: "(u128 \<times> u128 set) list"

text \<open>\<^verbatim>\<open>BTreeMap<u8, HashSet<_>>::entry(k).or_default().insert(x)\<close>, keys in order.\<close>

fun bt_add :: "nat \<Rightarrow> 'x \<Rightarrow> (nat \<times> 'x set) list \<Rightarrow> (nat \<times> 'x set) list" where
  "bt_add k x [] = [(k, {x})]"
| "bt_add k x ((j, s) # m) =
     (if k = j then (j, insert x s) # m else if k < j then (k, {x}) # (j, s) # m else (j, s) # bt_add k x m)"

fun index_net :: "('a, 'b) ipnet_ops \<Rightarrow> ('a, 'b) ip_net \<Rightarrow> (nat \<times> u32 set) list \<times> (nat \<times> u128 set) list
    \<Rightarrow> (nat \<times> u32 set) list \<times> (nat \<times> u128 set) list" where
  "index_net ops (NetV4 v) (v4, v6) = (bt_add (prefix_len4 ops v) (network4 ops v) v4, v6)"
| "index_net ops (NetV6 v) (v4, v6) = (v4, bt_add (prefix_len6 ops v) (network6 ops v) v6)"

text \<open>\<^verbatim>\<open>MAX.checked_shl(n).unwrap_or(0)\<close> at the width of the word.\<close>

definition max_shl :: "nat \<Rightarrow> 'w::len word" where
  "max_shl n = (if n < LENGTH('w) then push_bit n (- 1) else 0)"

definition prefix_index_new :: "('a, 'b) ipnet_ops \<Rightarrow> ('a, 'b) ip_net list \<Rightarrow> ('a, 'b) prefix_index" where
  "prefix_index_new ops nets =
     (if length nets \<le> 8 then \<lparr>px_small = nets, px_v4 = [], px_v6 = []\<rparr>
      else case fold (index_net ops) nets ([], []) of (v4, v6) \<Rightarrow>
        \<lparr>px_small = [], px_v4 = map (\<lambda>(bits, values). (max_shl (32 - bits), values)) v4,
         px_v6 = map (\<lambda>(bits, values). (max_shl (128 - bits), values)) v6\<rparr>)"

definition prefix_index_contains :: "('a, 'b) ipnet_ops \<Rightarrow> ('a, 'b) prefix_index \<Rightarrow> ip_addr \<Rightarrow> bool" where
  "prefix_index_contains ops x ip =
     (if px_small x \<noteq> [] then list_ex (\<lambda>n. net_contains ops n ip) (px_small x)
      else case ip of
        IpV4 raw \<Rightarrow> list_ex (\<lambda>(mask, nets). raw AND mask \<in> nets) (px_v4 x)
      | IpV6 raw \<Rightarrow> list_ex (\<lambda>(mask, nets). raw AND mask \<in> nets) (px_v6 x))"

section \<open>The runtime\<close>

record ('a, 'b) snapshot =
  sn_wire :: "('a, 'b) wire"
  sn_received :: instant
  sn_allow_index :: "('a, 'b) prefix_index"
  sn_block_index :: "('a, 'b) prefix_index"

record ('a, 'b) runtime =
  rt_value :: "('a, 'b) snapshot option"
  rt_default_observe :: bool
  rt_rejected :: u64
  rt_missing :: u64

definition runtime_new :: "bool \<Rightarrow> ('a, 'b) runtime" where
  "runtime_new default_observe =
     \<lparr>rt_value = None, rt_default_observe = default_observe, rt_rejected = 0, rt_missing = 0\<rparr>"

definition telemetry :: "('a, 'b) runtime \<Rightarrow> nat \<Rightarrow> instant \<Rightarrow> u64 \<times> u64 \<times> u64" where
  "telemetry rt unix now =
     ((case rt_value rt of
         Some s \<Rightarrow> if now - sn_received s \<le> from_secs 15 \<and> unix < wi_expires_unix (sn_wire s)
                  then of_nat (wi_generation (sn_wire s)) else 0
       | None \<Rightarrow> 0), rt_rejected rt, rt_missing rt)"

text \<open>\<^verbatim>\<open>u64::saturating_add\<close>.\<close>

definition u64_saturating_add :: "nat \<Rightarrow> nat \<Rightarrow> nat" where
  "u64_saturating_add a b = min (a + b) (2 ^ 64 - 1)"

definition runtime_apply ::
    "('a, 'b) ipnet_ops \<Rightarrow> (bytes \<Rightarrow> ('a, 'b) wire option) \<Rightarrow> ('a, 'b) runtime \<Rightarrow> bytes \<Rightarrow> nat \<Rightarrow> instant
      \<Rightarrow> bool \<times> ('a, 'b) runtime" where
  "runtime_apply ops parse rt b unix now =
     (if length b > MAX_DOCUMENT_BYTES then (False, rt)
      else case parse b of
        None \<Rightarrow> (False, rt)
      | Some w \<Rightarrow>
          if wi_mode w > 3 \<or> wi_expires_unix w > u64_saturating_add unix 30 \<or>
             length (wi_allow w) > 4096 \<or> length (wi_block w) > 4096
          then (False, rt)
          else
            let store = (True, rt\<lparr>rt_value := Some \<lparr>sn_wire = w, sn_received = now,
                  sn_allow_index = prefix_index_new ops (wi_allow w),
                  sn_block_index = prefix_index_new ops (wi_block w)\<rparr>\<rparr>)
            in case rt_value rt of
                 Some previous \<Rightarrow>
                   if wi_generation w < wi_generation (sn_wire previous) then (False, rt)
                   else if wi_generation w = wi_generation (sn_wire previous) then (True, rt)
                   else store
               | None \<Rightarrow> store)"

definition runtime_policy ::
    "('a, 'b) ipnet_ops \<Rightarrow> ('a, 'b) runtime \<Rightarrow> ip_addr \<Rightarrow> nat \<Rightarrow> instant \<Rightarrow> policy \<times> bool" where
  "runtime_policy ops rt ip unix now =
     (let default = \<lparr>p_mode = 0, p_observe = True, p_exempt = False\<rparr> in
      case rt_value rt of
        None \<Rightarrow> (default\<lparr>p_observe := rt_default_observe rt\<rparr>, False)
      | Some s \<Rightarrow>
          if now - sn_received s > from_secs 15 \<or> unix \<ge> wi_expires_unix (sn_wire s) then (default, False)
          else
            let ip = normalize ip; exempt = prefix_index_contains ops (sn_allow_index s) ip;
                p = \<lparr>p_mode = wi_mode (sn_wire s), p_observe = wi_observe (sn_wire s), p_exempt = exempt\<rparr>
            in (p, \<not> p_observe p \<and> \<not> exempt \<and> prefix_index_contains ops (sn_block_index s) ip))"

datatype io_kind = NotFound | OtherKind

definition record_open_error :: "('a, 'b) runtime \<Rightarrow> io_kind \<Rightarrow> ('a, 'b) runtime" where
  "record_open_error rt kind =
     (if kind = NotFound then rt\<lparr>rt_missing := rt_missing rt + 1\<rparr> else rt\<lparr>rt_rejected := rt_rejected rt + 1\<rparr>)"

text \<open>
  One turn of \<^verbatim>\<open>watch\<close>: the file cannot be opened, or it is opened and its content, cut
  at one byte over the limit, is read (\<open>ok\<close>) or the read fails.
\<close>

datatype file_state = OpenFails io_kind | FileContent bytes bool

definition watch_turn ::
    "('a, 'b) ipnet_ops \<Rightarrow> (bytes \<Rightarrow> ('a, 'b) wire option) \<Rightarrow> ('a, 'b) runtime \<Rightarrow> file_state \<Rightarrow> nat \<Rightarrow> instant
      \<Rightarrow> ('a, 'b) runtime" where
  "watch_turn ops parse rt doc unix now =
     (case doc of
        OpenFails kind \<Rightarrow> record_open_error rt kind
      | FileContent content ok \<Rightarrow>
          if \<not> ok then rt\<lparr>rt_rejected := rt_rejected rt + 1\<rparr>
          else case runtime_apply ops parse rt (take (MAX_DOCUMENT_BYTES + 1) content) unix now of
            (accepted, rt) \<Rightarrow> if accepted then rt else rt\<lparr>rt_rejected := rt_rejected rt + 1\<rparr>)"

text \<open>
  The task after some number of turns, on what each of them finds and the clocks it reads;
  it returns at once when no file is configured.
\<close>

definition watch ::
    "('a, 'b) ipnet_ops \<Rightarrow> (bytes \<Rightarrow> ('a, 'b) wire option) \<Rightarrow> bytes \<Rightarrow> (file_state \<times> nat \<times> instant) list
      \<Rightarrow> ('a, 'b) runtime \<Rightarrow> ('a, 'b) runtime" where
  "watch ops parse path turns rt =
     (if path = [] then rt else fold (\<lambda>(doc, unix, now) rt. watch_turn ops parse rt doc unix now) turns rt)"

section \<open>The index agrees with a linear scan\<close>

definition bt_rel :: "(nat \<times> 'x set) list \<Rightarrow> (nat \<times> 'x) set" where
  "bt_rel m = {(k, x). \<exists>s. (k, s) \<in> set m \<and> x \<in> s}"

lemma bt_rel_simps [simp]:
  "bt_rel [] = {}" "bt_rel ((k, s) # m) = Pair k ` s \<union> bt_rel m"
  by (auto simp: bt_rel_def)

lemma bt_rel_add [simp]: "bt_rel (bt_add k x m) = insert (k, x) (bt_rel m)"
  by (induction k x m rule: bt_add.induct) auto

lemma index_rel:
  "fold (index_net ops) nets (a, b) = (v4, v6) \<Longrightarrow>
     bt_rel v4 = bt_rel a \<union> {(prefix_len4 ops n, network4 ops n) | n. NetV4 n \<in> set nets} \<and>
     bt_rel v6 = bt_rel b \<union> {(prefix_len6 ops n, network6 ops n) | n. NetV6 n \<in> set nets}"
proof (induction nets arbitrary: a b)
  case (Cons net nets)
  show ?case
  proof (cases net)
    case (NetV4 v)
    with Cons.prems have "fold (index_net ops) nets (bt_add (prefix_len4 ops v) (network4 ops v) a, b) = (v4, v6)" by simp
    from Cons.IH [OF this] NetV4 show ?thesis by auto
  next
    case (NetV6 v)
    with Cons.prems have "fold (index_net ops) nets (a, bt_add (prefix_len6 ops v) (network6 ops v) b) = (v4, v6)" by simp
    from Cons.IH [OF this] NetV6 show ?thesis by auto
  qed
qed simp

lemma max_shl_netmask: "n \<le> LENGTH('w::len) \<Longrightarrow> max_shl (LENGTH('w) - n) = (netmask n :: 'w word)"
  by (cases n) (auto simp: max_shl_def netmask_def)

lemma masked_scan:
  fixes m :: "(nat \<times> 'w::len word set) list"
  assumes "\<And>k x. (k, x) \<in> bt_rel m \<Longrightarrow> k \<le> LENGTH('w)"
  shows "list_ex (\<lambda>(mask, nets). raw AND mask \<in> nets) (map (\<lambda>(bits, values). (max_shl (LENGTH('w) - bits), values)) m)
    \<longleftrightarrow> (\<exists>(k, x) \<in> bt_rel m. raw AND netmask k = x)"
proof -
  have "(\<exists>(k, s) \<in> set m. raw AND max_shl (LENGTH('w) - k) \<in> s) \<longleftrightarrow> (\<exists>(k, s) \<in> set m. raw AND netmask k \<in> s)"
  proof -
    have "raw AND max_shl (LENGTH('w) - k) \<in> s \<longleftrightarrow> raw AND netmask k \<in> s" if "(k, s) \<in> set m" for k s
    proof (cases "s = {}")
      case False
      then have "k \<le> LENGTH('w)" using assms that by (auto simp: bt_rel_def)
      then show ?thesis by (simp add: max_shl_netmask)
    qed simp
    then show ?thesis by auto
  qed
  moreover have "list_ex (\<lambda>(mask, nets). raw AND mask \<in> nets) (map (\<lambda>(bits, values). (max_shl (LENGTH('w) - bits), values)) m)
      \<longleftrightarrow> (\<exists>(k, s) \<in> set m. raw AND max_shl (LENGTH('w) - k) \<in> s)"
    by (simp add: list_ex_iff case_prod_beta)
  moreover have "(\<exists>(k, x) \<in> bt_rel m. raw AND netmask k = x) \<longleftrightarrow> (\<exists>(k, s) \<in> set m. raw AND netmask k \<in> s)"
    by (auto simp: bt_rel_def)
  ultimately show ?thesis by simp
qed

context ipnet_crate
begin

lemma index_contains: "prefix_index_contains ops (prefix_index_new ops nets) ip \<longleftrightarrow> (\<exists>n \<in> set nets. net_contains ops n ip)"
proof (cases "length nets \<le> 8")
  case True
  then show ?thesis
    by (cases "nets = []") (auto simp: prefix_index_new_def prefix_index_contains_def list_ex_iff split: ip_addr.split)
next
  case False
  obtain v4 v6 where f: "fold (index_net ops) nets ([], []) = (v4, v6)" by fastforce
  note rel = index_rel [OF f, simplified]
  have le: "k \<le> LENGTH(32)" if "(k, x) \<in> bt_rel v4" for k x using that rel prefix_len4_le by auto
  have le': "k \<le> LENGTH(128)" if "(k, x) \<in> bt_rel v6" for k x using that rel prefix_len6_le by auto
  show ?thesis
  proof (cases ip)
    case (IpV4 raw)
    have "prefix_index_contains ops (prefix_index_new ops nets) ip \<longleftrightarrow> (\<exists>(k, x) \<in> bt_rel v4. raw AND netmask k = x)"
      using False f IpV4 masked_scan [of v4 raw, OF le] by (simp add: prefix_index_new_def prefix_index_contains_def)
    also have "\<dots> \<longleftrightarrow> (\<exists>n. NetV4 n \<in> set nets \<and> net_contains ops (NetV4 n) ip)"
      using rel by (auto simp: IpV4 contains4)
    also have "\<dots> \<longleftrightarrow> (\<exists>n \<in> set nets. net_contains ops n ip)"
      using contains64 IpV4 by (metis ip_net.exhaust)
    finally show ?thesis .
  next
    case (IpV6 raw)
    have "prefix_index_contains ops (prefix_index_new ops nets) ip \<longleftrightarrow> (\<exists>(k, x) \<in> bt_rel v6. raw AND netmask k = x)"
      using False f IpV6 masked_scan [of v6 raw, OF le'] by (simp add: prefix_index_new_def prefix_index_contains_def)
    also have "\<dots> \<longleftrightarrow> (\<exists>n. NetV6 n \<in> set nets \<and> net_contains ops (NetV6 n) ip)"
      using rel by (auto simp: IpV6 contains6)
    also have "\<dots> \<longleftrightarrow> (\<exists>n \<in> set nets. net_contains ops n ip)"
      using contains46 IpV6 by (metis ip_net.exhaust)
    finally show ?thesis .
  qed
qed

end

section \<open>The watcher as a state machine\<close>

inductive runtime_step :: "('a, 'b) ipnet_ops \<Rightarrow> (bytes \<Rightarrow> ('a, 'b) wire option) \<Rightarrow> ('a, 'b) runtime \<Rightarrow> ('a, 'b) runtime \<Rightarrow> bool"
  for ops :: "('a, 'b) ipnet_ops" and parse :: "bytes \<Rightarrow> ('a, 'b) wire option" where
  runtime_turn: "runtime_step ops parse rt (watch_turn ops parse rt doc unix now)"

abbreviation runtime_reachable ::
    "('a, 'b) ipnet_ops \<Rightarrow> (bytes \<Rightarrow> ('a, 'b) wire option) \<Rightarrow> ('a, 'b) runtime \<Rightarrow> bool" where
  "runtime_reachable ops parse \<equiv> reachable (\<lambda>rt. \<exists>d. rt = runtime_new d) (runtime_step ops parse)"

definition snapshot_ok :: "('a, 'b) ipnet_ops \<Rightarrow> ('a, 'b) snapshot \<Rightarrow> bool" where
  "snapshot_ok ops s \<longleftrightarrow> wi_mode (sn_wire s) \<le> 3 \<and>
     sn_allow_index s = prefix_index_new ops (wi_allow (sn_wire s)) \<and>
     sn_block_index s = prefix_index_new ops (wi_block (sn_wire s))"

text \<open>The order of snapshots: the same one, or a newer generation.\<close>

definition no_older :: "('a, 'b) snapshot option \<Rightarrow> ('a, 'b) snapshot option \<Rightarrow> bool" where
  "no_older x y \<longleftrightarrow> x = None \<or> x = y \<or>
     (\<exists>s s'. x = Some s \<and> y = Some s' \<and> wi_generation (sn_wire s) < wi_generation (sn_wire s'))"

lemma no_older_trans: "no_older x y \<Longrightarrow> no_older y z \<Longrightarrow> no_older x z"
  by (auto simp: no_older_def)

lemma apply_cases:
  assumes "runtime_apply ops parse rt b unix now = (ok, rt')"
  shows "rt' = rt \<or> (\<exists>s. rt' = rt\<lparr>rt_value := Some s\<rparr> \<and> snapshot_ok ops s \<and> no_older (rt_value rt) (Some s))"
  using assms
  by (auto simp: runtime_apply_def Let_def snapshot_ok_def no_older_def split: if_splits option.splits)

lemma turn_cases:
  "rt_value (watch_turn ops parse rt doc unix now) = rt_value rt \<or>
   (\<exists>s. rt_value (watch_turn ops parse rt doc unix now) = Some s \<and> snapshot_ok ops s \<and> no_older (rt_value rt) (Some s))"
proof (cases doc)
  case (FileContent content ok)
  obtain acc rt' where a: "runtime_apply ops parse rt (take (MAX_DOCUMENT_BYTES + 1) content) unix now = (acc, rt')" by fastforce
  with apply_cases [OF a] FileContent show ?thesis by (auto simp: watch_turn_def)
qed (simp add: watch_turn_def record_open_error_def)

lemma turn_default_observe [simp]:
  "rt_default_observe (watch_turn ops parse rt doc unix now) = rt_default_observe rt"
  by (auto simp: watch_turn_def record_open_error_def runtime_apply_def Let_def split: file_state.split prod.splits
      option.splits if_splits)

lemma runtime_reachable_ok:
  "runtime_reachable ops parse rt \<Longrightarrow> rt_value rt = Some s \<Longrightarrow> snapshot_ok ops s"
proof (induction arbitrary: s rule: reachable.induct)
  case (reach_step rt rt')
  from reach_step.hyps(2) obtain doc unix now where "rt' = watch_turn ops parse rt doc unix now"
    by cases auto
  with turn_cases [of ops parse rt doc unix now] reach_step show ?case by auto
qed (auto simp: runtime_new_def)

section \<open>Properties\<close>

text \<open>
  C35: The prefix index is a linear scan: for every list of networks, small or large, the
  index that \<^verbatim>\<open>PrefixIndex::new\<close> builds contains an address exactly when one of the
  networks does.
\<close>

theorem prefix_index_scan:
  assumes "ipnet_crate ops"
  shows "prefix_index_contains ops (prefix_index_new ops nets) ip \<longleftrightarrow> (\<exists>n \<in> set nets. net_contains ops n ip)"
  using ipnet_crate.index_contains [OF assms] .

theorem prefix_index_scan_witness:
  "prefix_index_contains cidr_ops (prefix_index_new cidr_ops
     (NetV4 (Cidr4 0xC0000200 24) # replicate 8 (NetV6 (Cidr6 1 128)))) (IpV4 0xC0000205)"
  using prefix_index_scan [OF cidr.ipnet_crate_axioms, of "NetV4 (Cidr4 0xC0000200 24) # replicate 8 (NetV6 (Cidr6 1 128))"]
  by (simp add: netmask_eval)

text \<open>
  Replays are harmless: over any run of the watcher (missing files, failed
  reads, oversized, malformed, stale or replayed documents at any clock readings) the
  snapshot in force is either untouched, receive time included, or replaced by one of a
  strictly newer generation; it is never lost, downgraded or renewed.
\<close>

theorem watch_never_regresses:
  "no_older (rt_value rt) (rt_value (watch ops parse path turns rt))"
proof (induction turns arbitrary: rt)
  case Nil
  show ?case by (simp add: no_older_def watch_def)
next
  case (Cons t turns)
  obtain doc unix now where t: "t = (doc, unix, now)" by (cases t)
  have "no_older (rt_value rt) (rt_value (watch_turn ops parse rt doc unix now))"
    using turn_cases [of ops parse rt doc unix now] by (auto simp: no_older_def)
  with Cons [of "watch_turn ops parse rt doc unix now"] show ?case
    using no_older_trans by (cases "path = []") (auto simp: t watch_def no_older_def)
qed

text \<open>The policy of an address, stated on the document and not on its indexes.\<close>

definition policy_spec ::
    "('a, 'b) ipnet_ops \<Rightarrow> bool \<Rightarrow> ('a, 'b) snapshot option \<Rightarrow> ip_addr \<Rightarrow> nat \<Rightarrow> instant \<Rightarrow> policy \<times> bool" where
  "policy_spec ops default_observe v ip unix now =
     (let listed = (\<lambda>nets. \<exists>n \<in> set nets. net_contains ops n (normalize ip)) in
      case v of
        None \<Rightarrow> (\<lparr>p_mode = 0, p_observe = default_observe, p_exempt = False\<rparr>, False)
      | Some s \<Rightarrow>
          if now \<le> sn_received s + from_secs 15 \<and> unix < wi_expires_unix (sn_wire s)
          then (\<lparr>p_mode = wi_mode (sn_wire s), p_observe = wi_observe (sn_wire s), p_exempt = listed (wi_allow (sn_wire s))\<rparr>,
                \<not> wi_observe (sn_wire s) \<and> \<not> listed (wi_allow (sn_wire s)) \<and> listed (wi_block (sn_wire s)))
          else (\<lparr>p_mode = 0, p_observe = True, p_exempt = False\<rparr>, False))"

text \<open>
  C27: The policy in force: in every state the watcher can reach, the policy of an address
  is the one its document states, on the normalised address: exempt when it is on the
  allow list, blocked when the document enforces and only the block list has it; once
  the lease of fifteen seconds or the document's expiry has passed it is observation
  without blocking; and the mode always indexes the four multipliers.
\<close>

theorem policy_refines_document:
  assumes "ipnet_crate ops" "runtime_reachable ops parse rt"
  shows "runtime_policy ops rt ip unix now = policy_spec ops (rt_default_observe rt) (rt_value rt) ip unix now \<and>
    p_mode (fst (runtime_policy ops rt ip unix now)) < 4"
proof (cases "rt_value rt")
  case None
  then show ?thesis by (simp add: runtime_policy_def policy_spec_def)
next
  case (Some s)
  then have "snapshot_ok ops s" using runtime_reachable_ok assms(2) by blast
  then show ?thesis
    using Some ipnet_crate.index_contains [OF assms(1)]
    by (auto simp: runtime_policy_def policy_spec_def Let_def snapshot_ok_def)
qed

theorem policy_refines_document_witness:
  "let w = \<lparr>wi_generation = 1, wi_expires_unix = 20, wi_mode = 2, wi_observe = False, wi_allow = [],
         wi_block = [NetV4 (Cidr4 0xC0000200 24)]\<rparr>;
       rt = watch_turn cidr_ops (\<lambda>_. Some w) (runtime_new True) (FileContent [] True) 10 5 in
   runtime_policy cidr_ops rt (IpV4 0xC0000205) 11 6 =
     (\<lparr>p_mode = 2, p_observe = False, p_exempt = False\<rparr>, True)"
proof -
  let ?w = "\<lparr>wi_generation = 1, wi_expires_unix = 20, wi_mode = 2, wi_observe = False, wi_allow = [],
         wi_block = [NetV4 (Cidr4 0xC0000200 24)]\<rparr>"
  let ?rt = "watch_turn cidr_ops (\<lambda>_. Some ?w) (runtime_new True) (FileContent [] True) 10 5"
  have "runtime_reachable cidr_ops (\<lambda>_. Some ?w) ?rt"
    by (rule reach_step [of _ _ "runtime_new True"]) (auto intro: reach_init runtime_turn)
  moreover have "\<exists>s. rt_value ?rt = Some s \<and> sn_wire s = ?w \<and> sn_received s = 5"
    by (simp add: watch_turn_def runtime_apply_def runtime_new_def MAX_DOCUMENT_BYTES_def u64_saturating_add_def)
  ultimately show ?thesis
    using policy_refines_document [OF cidr.ipnet_crate_axioms, of "\<lambda>_. Some ?w" ?rt "IpV4 0xC0000205" 11 6]
    unfolding Let_def by (auto simp: policy_spec_def from_secs_def normalize_def netmask_eval)
qed

end
