(* ===== verification/Relay.thy ===== *)
theory Relay
  imports Config_Types Metrics
begin

text \<open>
  relay.rs: the guards around the opaque relay. \<open>Budget\<close> meters client uploads in
  integer credit (one byte costs one second of nanoseconds), \<open>Monitored\<close> applies it to the
  reads from the client, \<open>Guarded\<close> turns a write that stays blocked into a timeout and
  reports end-of-stream and activity, \<open>Activity\<close> is the idle clock of the client. The
  inner streams and \<^verbatim>\<open>copy_bidirectional\<close> are tokio's: an operation receives the result
  of the inner poll as its argument.
\<close>

section \<open>The upload budget\<close>

definition SECOND :: nat where
  "SECOND = 1000000000"

definition u128_max :: nat where
  "u128_max = 2 ^ 128 - 1"

definition u128_saturating_add :: "nat \<Rightarrow> nat \<Rightarrow> nat" where
  "u128_saturating_add a b = min (a + b) u128_max"

definition u128_saturating_mul :: "nat \<Rightarrow> nat \<Rightarrow> nat" where
  "u128_saturating_mul a b = min (a * b) u128_max"

record budget =
  bg_credit :: nat
  bg_last :: instant
  bg_cfg :: upload

definition budget_new :: "upload \<Rightarrow> instant \<Rightarrow> budget" where
  "budget_new cfg now = \<lparr>bg_credit = burst_bytes cfg * SECOND, bg_last = now, bg_cfg = cfg\<rparr>"

definition budget_take :: "budget \<Rightarrow> usize \<Rightarrow> instant \<Rightarrow> bool \<times> budget" where
  "budget_take b bytes now =
     (let cap = burst_bytes (bg_cfg b) * SECOND;
          refill = u128_saturating_mul (saturating_duration_since now (bg_last b)) (bytes_per_second (bg_cfg b));
          b = b\<lparr>bg_credit := min (u128_saturating_add (bg_credit b) refill) cap, bg_last := max (bg_last b) now\<rparr>;
          cost = bytes * SECOND
      in if cost > bg_credit b then (False, b\<lparr>bg_credit := 0\<rparr>)
         else (True, b\<lparr>bg_credit := bg_credit b - cost\<rparr>))"

section \<open>Monitored reads and writes\<close>

datatype io_error = InnerError | PermissionDenied | TimedOut

datatype 'x poll = Pending | Ready "io_error + 'x"

record monitored =
  mo_budget :: budget
  mo_flagged :: bool

definition monitored_new :: "upload \<Rightarrow> instant \<Rightarrow> monitored" where
  "monitored_new cfg now = \<lparr>mo_budget = budget_new cfg now, mo_flagged = False\<rparr>"

text \<open>
  A successful inner read appends a chunk to the buffer; the result is what the buffer
  holds beyond its old fill level, so a discarded chunk does not appear in it.
\<close>

definition monitored_poll_read :: "monitored \<Rightarrow> metrics \<Rightarrow> bytes poll \<Rightarrow> instant \<Rightarrow> bytes poll \<times> monitored \<times> metrics" where
  "monitored_poll_read x m inner now =
     (case inner of
        Ready (Inr chunk) \<Rightarrow>
          (let n = length chunk; m = metrics_add m 40 (of_nat n) in
           if n > 0 then
             case budget_take (mo_budget x) n now of (ok, b) \<Rightarrow>
               let x = x\<lparr>mo_budget := b\<rparr> in
               if \<not> ok then
                 let m = (if \<not> mo_flagged x then metrics_inc m 39 else m); x = x\<lparr>mo_flagged := True\<rparr>
                 in if enforce (bg_cfg (mo_budget x)) then (Ready (Inl PermissionDenied), x, m)
                    else (Ready (Inr chunk), x, m)
               else (Ready (Inr chunk), x, m)
           else (Ready (Inr chunk), x, m))
      | result \<Rightarrow> (result, x, m))"

text \<open>\<^verbatim>\<open>poll_write\<close> and \<^verbatim>\<open>poll_write_vectored\<close>: the bytes written downstream are counted.\<close>

definition monitored_poll_write :: "metrics \<Rightarrow> usize poll \<Rightarrow> usize poll \<times> metrics" where
  "monitored_poll_write m inner =
     (case inner of Ready (Inr n) \<Rightarrow> (inner, metrics_add m 41 (of_nat n)) | _ \<Rightarrow> (inner, m))"

text \<open>\<^verbatim>\<open>copy\<close> monitors the client only when a rate is configured.\<close>

definition copy_client :: "upload \<Rightarrow> instant \<Rightarrow> monitored option" where
  "copy_client cfg now = (if bytes_per_second cfg = 0 then None else Some (monitored_new cfg now))"

section \<open>Stall guard and activity\<close>

record activity =
  ac_start :: instant
  ac_last_ms :: nat

definition as_millis :: "duration \<Rightarrow> nat" where
  "as_millis d = d div 1000000"

definition activity_new :: "instant \<Rightarrow> activity" where
  "activity_new now = \<lparr>ac_start = now, ac_last_ms = 0\<rparr>"

definition activity_touch :: "activity \<Rightarrow> instant \<Rightarrow> activity" where
  "activity_touch a now = a\<lparr>ac_last_ms := min (as_millis (saturating_duration_since now (ac_start a))) (2 ^ 64 - 1)\<rparr>"

text \<open>
  One turn of the loop of \<^verbatim>\<open>expired\<close>: it sleeps until \<open>activity_wake\<close> of the last activity it
  saw, and returns when the check of \<open>activity_expired\<close> holds after waking.
\<close>

definition activity_wake :: "activity \<Rightarrow> nat \<Rightarrow> instant" where
  "activity_wake a ms = ac_start a + from_millis (min (ac_last_ms a + ms) (2 ^ 64 - 1))"

definition activity_expired :: "activity \<Rightarrow> nat \<Rightarrow> instant \<Rightarrow> bool" where
  "activity_expired a ms now \<longleftrightarrow> as_millis (saturating_duration_since now (ac_start a)) \<ge> ac_last_ms a + ms"

record guarded =
  gu_stall_ms :: nat
  gu_timer :: "instant option"
  gu_eof :: bool
  gu_activity :: "activity option"

text \<open>The timer of \<^verbatim>\<open>check\<close> is a \<^verbatim>\<open>Sleep\<close>: ready once its deadline is reached.\<close>

definition guarded_check :: "guarded \<Rightarrow> metrics \<Rightarrow> 'x poll \<Rightarrow> instant \<Rightarrow> 'x poll \<times> guarded \<times> metrics" where
  "guarded_check g m result now =
     (if result \<noteq> Pending then (result, g\<lparr>gu_timer := None\<rparr>, m)
      else if gu_stall_ms g = 0 then (result, g, m)
      else
        let deadline = (case gu_timer g of Some t \<Rightarrow> t | None \<Rightarrow> now + from_millis (gu_stall_ms g));
            g = g\<lparr>gu_timer := Some deadline\<rparr>
        in if deadline \<le> now then (Ready (Inl TimedOut), g, metrics_inc m 45) else (Pending, g, m))"

text \<open>\<^verbatim>\<open>poll_read\<close>: an empty read into a buffer with space is end-of-stream, data is activity.\<close>

definition guarded_poll_read :: "guarded \<Rightarrow> bytes poll \<Rightarrow> usize \<Rightarrow> instant \<Rightarrow> bytes poll \<times> guarded" where
  "guarded_poll_read g inner space now =
     (let g = (case inner of Ready (Inr chunk) \<Rightarrow> if space > 0 \<and> chunk = [] then g\<lparr>gu_eof := True\<rparr> else g | _ \<Rightarrow> g);
          g = (case inner of
                 Ready (Inr chunk) \<Rightarrow>
                   if chunk \<noteq> [] then g\<lparr>gu_activity := map_option (\<lambda>a. activity_touch a now) (gu_activity g)\<rparr> else g
               | _ \<Rightarrow> g)
      in (inner, g))"

section \<open>The budget without saturation\<close>

definition upload_ok :: "upload \<Rightarrow> bool" where
  "upload_ok cfg \<longleftrightarrow> burst_bytes cfg < 2 ^ 64 \<and> bytes_per_second cfg < 2 ^ 64"

definition budget_wf :: "budget \<Rightarrow> bool" where
  "budget_wf b \<longleftrightarrow> upload_ok (bg_cfg b) \<and> bg_credit b \<le> burst_bytes (bg_cfg b) * SECOND"

lemma cap_fits: "upload_ok cfg \<Longrightarrow> burst_bytes cfg * SECOND \<le> u128_max"
proof -
  assume "upload_ok cfg"
  then have "burst_bytes cfg * SECOND \<le> (2 ^ 64 - 1) * SECOND"
    by (intro mult_right_mono) (simp_all add: upload_ok_def)
  also have "\<dots> \<le> u128_max" by (simp add: SECOND_def u128_max_def)
  finally show ?thesis .
qed

lemma budget_new_wf: "upload_ok cfg \<Longrightarrow> budget_wf (budget_new cfg now)"
  by (simp add: budget_wf_def budget_new_def)

text \<open>The saturating operations never bite below the cap, so the refill is exact.\<close>

lemma refill_exact:
  "c \<le> u128_max \<Longrightarrow> min (u128_saturating_add a (u128_saturating_mul d r)) c = min (a + d * r) c"
  by (auto simp: u128_saturating_add_def u128_saturating_mul_def min_def)

lemma budget_take_exact:
  assumes "budget_wf b"
  shows "budget_take b n now =
    (let credit = min (bg_credit b + (now - bg_last b) * bytes_per_second (bg_cfg b)) (burst_bytes (bg_cfg b) * SECOND)
     in if n * SECOND > credit then (False, b\<lparr>bg_credit := 0, bg_last := max (bg_last b) now\<rparr>)
        else (True, b\<lparr>bg_credit := credit - n * SECOND, bg_last := max (bg_last b) now\<rparr>))"
  using assms cap_fits
  by (simp add: budget_take_def Let_def refill_exact saturating_duration_since_def budget_wf_def)

text \<open>
  The potential argument of one take: credit plus what was granted never exceeds the old
  credit plus the refill of the time that passed.
\<close>

lemma budget_take_potential:
  assumes "budget_wf b" "budget_take b n now = (ok, b')"
  shows "budget_wf b' \<and> bg_cfg b' = bg_cfg b \<and> bg_last b' = max (bg_last b) now \<and>
    bg_credit b' + (if ok then n * SECOND else 0)
      \<le> bg_credit b + (bg_last b' - bg_last b) * bytes_per_second (bg_cfg b)"
  using assms
  by (auto simp: budget_take_exact Let_def budget_wf_def max_def split: if_splits)

text \<open>A sequence of chunks with their arrival times: the bytes that were granted.\<close>

fun takes :: "(nat \<times> instant) list \<Rightarrow> budget \<Rightarrow> nat \<times> budget" where
  "takes [] b = (0, b)"
| "takes ((n, now) # cs) b =
     (case budget_take b n now of (ok, b') \<Rightarrow> case takes cs b' of (g, b'') \<Rightarrow> ((if ok then n else 0) + g, b''))"

lemma takes_potential:
  assumes "budget_wf b" "takes cs b = (g, b')"
  shows "budget_wf b' \<and> bg_cfg b' = bg_cfg b \<and> bg_last b \<le> bg_last b' \<and>
    bg_credit b' + g * SECOND \<le> bg_credit b + (bg_last b' - bg_last b) * bytes_per_second (bg_cfg b)"
  using assms
proof (induction cs arbitrary: b g)
  case (Cons c cs)
  obtain n now where c: "c = (n, now)" by (cases c)
  obtain ok b1 where t: "budget_take b n now = (ok, b1)" by fastforce
  obtain g1 where r: "takes cs b1 = (g1, b')" "g = (if ok then n else 0) + g1"
    using Cons.prems(2) c t by (auto split: prod.splits)
  note p = budget_take_potential [OF Cons.prems(1) t]
  with Cons.IH [of b1 g1] r(1)
  have q: "budget_wf b' \<and> bg_cfg b' = bg_cfg b \<and> bg_last b1 \<le> bg_last b' \<and>
    bg_credit b' + g1 * SECOND \<le> bg_credit b1 + (bg_last b' - bg_last b1) * bytes_per_second (bg_cfg b)" by auto
  have le: "bg_last b \<le> bg_last b1" using p by simp
  have "(bg_last b' - bg_last b) * bytes_per_second (bg_cfg b) =
      (bg_last b' - bg_last b1) * bytes_per_second (bg_cfg b) + (bg_last b1 - bg_last b) * bytes_per_second (bg_cfg b)"
    using q le by (simp flip: add_mult_distrib)
  then show ?case using p q le r(2) by (auto simp: add_mult_distrib)
qed simp

section \<open>A connection's reads\<close>

text \<open>
  The reads of a connection, each with the result of the inner poll and its time: the
  bytes handed to the relay, and the monitor and metrics afterwards.
\<close>

fun relay_reads :: "(bytes poll \<times> instant) list \<Rightarrow> monitored \<Rightarrow> metrics \<Rightarrow> bytes \<times> monitored \<times> metrics" where
  "relay_reads [] x m = ([], x, m)"
| "relay_reads ((inner, now) # rs) x m =
     (case monitored_poll_read x m inner now of (out, x, m) \<Rightarrow>
      case relay_reads rs x m of (forwarded, s) \<Rightarrow>
        ((case out of Ready (Inr chunk) \<Rightarrow> chunk | _ \<Rightarrow> []) @ forwarded, s))"

fun received :: "bytes poll \<Rightarrow> bytes" where
  "received (Ready (Inr chunk)) = chunk"
| "received _ = []"

lemma received_case: "(case out of Ready (Inr chunk) \<Rightarrow> chunk | _ \<Rightarrow> []) = received out"
  by (auto split: poll.split sum.split)

lemma read_potential:
  assumes wf: "budget_wf (mo_budget x)" and "enforce (bg_cfg (mo_budget x))"
    and rd: "monitored_poll_read x m inner now = (out, x', m')"
  shows "budget_wf (mo_budget x') \<and> bg_cfg (mo_budget x') = bg_cfg (mo_budget x) \<and>
    bg_last (mo_budget x) \<le> bg_last (mo_budget x') \<and>
    bg_credit (mo_budget x') + length (received out) * SECOND \<le>
      bg_credit (mo_budget x) + (bg_last (mo_budget x') - bg_last (mo_budget x)) * bytes_per_second (bg_cfg (mo_budget x))"
proof (cases "\<exists>chunk. inner = Ready (Inr chunk) \<and> chunk \<noteq> []")
  case True
  then obtain chunk where c: "inner = Ready (Inr chunk)" "chunk \<noteq> []" by blast
  obtain ok b where t: "budget_take (mo_budget x) (length chunk) now = (ok, b)" by fastforce
  have "mo_budget x' = b" "out = (if ok then Ready (Inr chunk) else Ready (Inl PermissionDenied))"
    using rd c t assms(2) budget_take_potential [OF wf t]
    by (auto simp: monitored_poll_read_def Let_def split: if_splits)
  with budget_take_potential [OF wf t] show ?thesis by (cases ok) auto
next
  case False
  then have "mo_budget x' = mo_budget x" "received out = []"
    using rd by (auto simp: monitored_poll_read_def Let_def split: poll.splits sum.splits if_splits)
  with wf show ?thesis by simp
qed

lemma reads_potential:
  assumes "budget_wf (mo_budget x)" "enforce (bg_cfg (mo_budget x))" "relay_reads rs x m = (fw, x', m')"
  shows "bg_last (mo_budget x) \<le> bg_last (mo_budget x') \<and>
    bg_credit (mo_budget x') + length fw * SECOND \<le>
      bg_credit (mo_budget x) + (bg_last (mo_budget x') - bg_last (mo_budget x)) * bytes_per_second (bg_cfg (mo_budget x))"
  using assms
proof (induction rs arbitrary: x m fw)
  case (Cons r rs)
  obtain inner now where r: "r = (inner, now)" by (cases r)
  obtain out x1 m1 where rd: "monitored_poll_read x m inner now = (out, x1, m1)" by (metis prod_cases3)
  obtain fw1 where fw: "relay_reads rs x1 m1 = (fw1, x', m')" "fw = received out @ fw1"
    using Cons.prems(3) r rd by (auto simp: received_case split: prod.splits)
  note p = read_potential [OF Cons.prems(1,2) rd]
  have q: "bg_last (mo_budget x1) \<le> bg_last (mo_budget x') \<and>
      bg_credit (mo_budget x') + length fw1 * SECOND \<le> bg_credit (mo_budget x1) +
        (bg_last (mo_budget x') - bg_last (mo_budget x1)) * bytes_per_second (bg_cfg (mo_budget x))"
    using Cons.IH [OF _ _ fw(1)] p Cons.prems(2) by auto
  have "(bg_last (mo_budget x') - bg_last (mo_budget x)) * bytes_per_second (bg_cfg (mo_budget x)) =
      (bg_last (mo_budget x') - bg_last (mo_budget x1)) * bytes_per_second (bg_cfg (mo_budget x)) +
      (bg_last (mo_budget x1) - bg_last (mo_budget x)) * bytes_per_second (bg_cfg (mo_budget x))"
    using p q by (simp flip: add_mult_distrib)
  then show ?case using p q fw(2) by (auto simp: add_mult_distrib)
qed simp

section \<open>Properties\<close>

text \<open>
  C33: The upload budget holds on the wire: with enforcement, over any sequence of reads of
  any sizes at any clock readings, starting anywhere in the life of a connection, the
  bytes handed to the relay are at most the burst plus the rate times the time that the
  monitor's clock advanced; in exact nanosecond credit, with no rounding and no
  saturation.
\<close>

theorem upload_budget_enforced:
  assumes "budget_wf (mo_budget x)" "enforce (bg_cfg (mo_budget x))" "relay_reads rs x m = (forwarded, x', m')"
  shows "length forwarded * SECOND \<le> burst_bytes (bg_cfg (mo_budget x)) * SECOND +
    (bg_last (mo_budget x') - bg_last (mo_budget x)) * bytes_per_second (bg_cfg (mo_budget x))"
  using reads_potential [OF assms] assms(1) by (auto simp: budget_wf_def)

theorem upload_budget_enforced_witness:
  "let x = monitored_new \<lparr>bytes_per_second = 1, burst_bytes = 3, enforce = True\<rparr> 5;
       r = relay_reads [(Ready (Inr [1, 2]), 6), (Pending, 7), (Ready (Inr [3, 4]), 1000000008)] x metrics_new in
   fst r = [1, 2, 3, 4] \<and>
   length (fst r) * SECOND \<le> 3 * SECOND + (bg_last (mo_budget (fst (snd r))) - bg_last (mo_budget x)) * 1"
proof -
  let ?cfg = "\<lparr>bytes_per_second = 1, burst_bytes = 3, enforce = True\<rparr>"
  let ?x = "monitored_new ?cfg 5"
  let ?rs = "[(Ready (Inr [1, 2]), 6), (Pending, 7), (Ready (Inr [3, 4]), 1000000008)]"
  have wf: "budget_wf (mo_budget ?x)" "enforce (bg_cfg (mo_budget ?x))" "bg_cfg (mo_budget ?x) = ?cfg"
    using budget_new_wf [of ?cfg 5] by (simp_all add: monitored_new_def upload_ok_def budget_new_def)
  have "fst (relay_reads ?rs ?x metrics_new) = [1, 2, 3, 4]"
    by (simp add: monitored_poll_read_def monitored_new_def budget_new_def budget_take_def Let_def SECOND_def
        saturating_duration_since_def u128_saturating_add_def u128_saturating_mul_def u128_max_def)
  moreover have "length (fst (relay_reads ?rs ?x metrics_new)) * SECOND \<le>
      3 * SECOND + (bg_last (mo_budget (fst (snd (relay_reads ?rs ?x metrics_new)))) - bg_last (mo_budget ?x)) * 1"
    using upload_budget_enforced [OF wf(1,2), of ?rs metrics_new] wf(3)
    by (cases "relay_reads ?rs ?x metrics_new") auto
  ultimately show ?thesis by (simp only: Let_def)
qed

lemma observed_read:
  assumes "\<not> enforce (bg_cfg (mo_budget x))" "monitored_poll_read x m inner now = (out, x', m')" "metrics_wf m"
  shows "out = inner \<and> \<not> enforce (bg_cfg (mo_budget x')) \<and> metrics_wf m' \<and>
    metrics_get m' 40 = metrics_get m 40 + of_nat (length (received inner)) \<and>
    metrics_get m' 39 = metrics_get m 39 + of_bool (mo_flagged x' \<and> \<not> mo_flagged x) \<and> (mo_flagged x \<longrightarrow> mo_flagged x')"
proof -
  have "bg_cfg (snd (budget_take b n t)) = bg_cfg b" for b n t by (simp add: budget_take_def Let_def)
  then have "bg_cfg b' = bg_cfg b" if "budget_take b n t = (ok, b')" for b n t ok b' by (metis that snd_conv)
  with assms show ?thesis
    by (auto simp: monitored_poll_read_def Let_def metrics_gets split: poll.splits sum.splits if_splits prod.splits)
qed

text \<open>
  Without enforcement the monitor is transparent: whatever the budget says, the relay
  receives exactly what the client sent, every byte is counted, and a connection is
  counted as over budget at most once.
\<close>

theorem upload_monitor_transparent:
  assumes "\<not> enforce (bg_cfg (mo_budget x))" "\<not> mo_flagged x" "metrics_wf m"
    and "relay_reads rs x m = (forwarded, x', m')"
  shows "forwarded = concat (map (received \<circ> fst) rs) \<and>
    metrics_get m' 40 = metrics_get m 40 + of_nat (length forwarded) \<and>
    metrics_get m' 39 = metrics_get m 39 + of_bool (mo_flagged x')"
proof -
  have "fw = concat (map (received \<circ> fst) rs) \<and> metrics_get m' 40 = metrics_get m 40 + of_nat (length fw) \<and>
      metrics_get m' 39 = metrics_get m 39 + of_bool (mo_flagged x' \<and> \<not> mo_flagged x) \<and> (mo_flagged x \<longrightarrow> mo_flagged x')"
    if "\<not> enforce (bg_cfg (mo_budget x))" "metrics_wf m" "relay_reads rs x m = (fw, x', m')" for x m fw
    using that
  proof (induction rs arbitrary: x m fw)
    case (Cons r rs)
    obtain inner now where r: "r = (inner, now)" by (cases r)
    obtain out x1 m1 where rd: "monitored_poll_read x m inner now = (out, x1, m1)" by (metis prod_cases3)
    obtain fw1 where fw: "relay_reads rs x1 m1 = (fw1, x', m')" "fw = received out @ fw1"
      using Cons.prems(3) r rd by (auto simp: received_case split: prod.splits)
    note obs = observed_read [OF Cons.prems(1) rd Cons.prems(2)]
    then have ih: "fw1 = concat (map (received \<circ> fst) rs)" "metrics_get m' 40 = metrics_get m1 40 + of_nat (length fw1)"
      "metrics_get m' 39 = metrics_get m1 39 + of_bool (mo_flagged x' \<and> \<not> mo_flagged x1)" "mo_flagged x1 \<longrightarrow> mo_flagged x'"
      using Cons.IH [OF _ _ fw(1)] by blast+
    have "fw = concat (map (received \<circ> fst) (r # rs))" using obs ih(1) fw(2) r by simp
    moreover have "metrics_get m' 40 = metrics_get m 40 + of_nat (length fw)"
      unfolding ih(2) fw(2) using obs by simp
    moreover have "metrics_get m' 39 = metrics_get m 39 + of_bool (mo_flagged x' \<and> \<not> mo_flagged x)"
      unfolding ih(3) using obs ih(4) by (cases "mo_flagged x"; cases "mo_flagged x1") simp_all
    ultimately show ?case using obs ih(4) by blast
  qed simp
  from this [OF assms(1,3,4)] assms(2) show ?thesis by simp
qed

theorem upload_monitor_transparent_witness:
  "fst (relay_reads [(Ready (Inr [1, 2]), 6), (Ready (Inr [3]), 7)]
     (monitored_new \<lparr>bytes_per_second = 1, burst_bytes = 1, enforce = False\<rparr> 5) metrics_new) = [1, 2, 3]"
proof -
  let ?x = "monitored_new \<lparr>bytes_per_second = 1, burst_bytes = 1, enforce = False\<rparr> 5"
  have "\<not> enforce (bg_cfg (mo_budget ?x))" "\<not> mo_flagged ?x" by (simp_all add: monitored_new_def budget_new_def)
  moreover obtain fw x' m' where run: "relay_reads [(Ready (Inr [1, 2]), 6), (Ready (Inr [3]), 7)] ?x metrics_new = (fw, x', m')"
    by (metis prod_cases3)
  ultimately have "fw = concat (map (received \<circ> fst) [(Ready (Inr [1, 2]), 6), (Ready (Inr [3]), 7 :: instant)])"
    using upload_monitor_transparent metrics_new_wf by blast
  then show ?thesis unfolding run by simp
qed

text \<open>
  The stall guard fires exactly when a write has been blocked for \<^verbatim>\<open>stall_ms\<close>: after a
  write that made progress, over any polls of a blocked write, a poll reports the
  timeout if and only if the deadline, counted from the first blocked poll, has come;
  intermediate polls never move it, and any progress clears it.
\<close>

theorem stall_guard_exact:
  assumes "gu_timer g = None" "0 < gu_stall_ms g"
  shows "let g' = fold (\<lambda>t g. fst (snd (guarded_check g m (Pending :: 'x poll) t))) (first # ts) g in
    fst (guarded_check g' m (Pending :: 'x poll) now) =
      (if first + from_millis (gu_stall_ms g) \<le> now then Ready (Inl TimedOut) else Pending) \<and>
    (\<forall>r t. gu_timer (fst (snd (guarded_check g' m (Ready r :: 'x poll) t))) = None)"
proof -
  let ?d = "first + from_millis (gu_stall_ms g)" and ?poll = "\<lambda>t g. fst (snd (guarded_check g m (Pending :: 'x poll) t))"
  have set: "?poll t h = h\<lparr>gu_timer := Some (case gu_timer h of Some d \<Rightarrow> d | None \<Rightarrow> t + from_millis (gu_stall_ms h))\<rparr>"
    if "0 < gu_stall_ms h" for t h
    using that by (simp add: guarded_check_def Let_def)
  have "fold ?poll ts (g\<lparr>gu_timer := Some ?d\<rparr>) = g\<lparr>gu_timer := Some ?d\<rparr>"
    using assms(2) by (induction ts) (simp_all add: set)
  then have "fold ?poll (first # ts) g = g\<lparr>gu_timer := Some ?d\<rparr>" using assms by (simp add: set)
  then show ?thesis unfolding Let_def using assms(2) by (simp add: guarded_check_def Let_def)
qed

theorem stall_guard_exact_witness:
  "let g = \<lparr>gu_stall_ms = 2, gu_timer = None, gu_eof = False, gu_activity = None\<rparr>;
       g' = fold (\<lambda>t g. fst (snd (guarded_check g metrics_new (Pending :: usize poll) t))) [5, 6] g in
   fst (guarded_check g' metrics_new (Pending :: usize poll) 2000004) = Pending \<and>
   fst (guarded_check g' metrics_new (Pending :: usize poll) 2000005) = Ready (Inl TimedOut)"
  using stall_guard_exact [of "\<lparr>gu_stall_ms = 2, gu_timer = None, gu_eof = False, gu_activity = None\<rparr>" metrics_new 5 "[6]" 2000004,
      where 'x = usize]
    stall_guard_exact [of "\<lparr>gu_stall_ms = 2, gu_timer = None, gu_eof = False, gu_activity = None\<rparr>" metrics_new 5 "[6]" 2000005,
      where 'x = usize]
  unfolding Let_def by (simp add: from_millis_def)

text \<open>
  The idle clock of the client neither fires early nor hangs: when \<^verbatim>\<open>expired\<close> returns, no
  data has arrived for the configured time (to the millisecond), and if none arrives, its
  next wake-up returns.
\<close>

theorem idle_clock:
  assumes "ac_start a \<le> t" "as_millis (t - ac_start a) + ms < 2 ^ 64"
  shows "(\<forall>now \<ge> ac_start a. activity_expired (activity_touch a t) ms now \<longrightarrow> t + from_millis ms < now + from_millis 1) \<and>
    activity_expired (activity_touch a t) ms (activity_wake (activity_touch a t) ms)"
proof -
  let ?b = "activity_touch a t"
  have b: "ac_start ?b = ac_start a" "ac_last_ms ?b = (t - ac_start a) div 1000000"
    using assms(2) by (simp_all add: activity_touch_def as_millis_def saturating_duration_since_def)
  have "t + from_millis ms < now + from_millis 1" if "activity_expired ?b ms now" "ac_start a \<le> now" for now
  proof -
    have "(t - ac_start a) div 1000000 + ms \<le> (now - ac_start a) div 1000000"
      using that b by (simp add: activity_expired_def as_millis_def saturating_duration_since_def)
    then have "((t - ac_start a) div 1000000 + ms) * 1000000 \<le> (now - ac_start a) div 1000000 * 1000000"
      by (rule mult_right_mono) simp
    also have "\<dots> \<le> now - ac_start a" by simp
    finally have "(t - ac_start a) div 1000000 * 1000000 + ms * 1000000 \<le> now - ac_start a" by (simp add: algebra_simps)
    moreover have "t - ac_start a < (t - ac_start a) div 1000000 * 1000000 + 1000000"
      by (metis add.commute mod_less_divisor mod_div_mult_eq nat_add_left_cancel_less zero_less_numeral)
    ultimately show ?thesis using assms(1) that(2) unfolding from_millis_def by linarith
  qed
  moreover have "activity_expired ?b ms (activity_wake ?b ms)"
    using assms(2) b by (simp add: activity_expired_def activity_wake_def as_millis_def from_millis_def
        saturating_duration_since_def)
  ultimately show ?thesis by blast
qed

theorem idle_clock_witness:
  "activity_expired (activity_touch (activity_new 5) 3000000) 20 (activity_wake (activity_touch (activity_new 5) 3000000) 20)"
  using idle_clock [of "activity_new 5" 3000000 20] by (simp add: activity_new_def as_millis_def)

end
