(* ===== verification/Relay_Copy.thy ===== *)
theory Relay_Copy
  imports Relay
begin

text \<open>
  relay.rs, \<^verbatim>\<open>protected_copy\<close> and \<^verbatim>\<open>copy\<close>: one relayed connection as a task that the runtime
  polls. A poll of tokio's \<^verbatim>\<open>copy_bidirectional\<close> is the list of calls it makes on the two
  streams, with the results of the sockets below them, and the byte counts when it is
  finished; both are arguments. Its documented behaviour is that the first error ends it.
  The random branch order of each \<^verbatim>\<open>select!\<close> is an argument too.
\<close>

section \<open>The two streams\<close>

datatype side = ClientSide | ServerSide

text \<open>
  A stream is the socket, under a \<^verbatim>\<open>Guarded\<close> when a relay timeout is configured; the client's
  has a \<^verbatim>\<open>Monitored\<close> on top when an upload rate is.
\<close>

record endpoints =
  ep_client :: "guarded option"
  ep_server :: "guarded option"
  ep_monitor :: "monitored option"
  ep_met :: metrics

definition guarded_new :: "nat \<Rightarrow> activity option \<Rightarrow> guarded" where
  "guarded_new stall_ms act = \<lparr>gu_stall_ms = stall_ms, gu_timer = None, gu_eof = False, gu_activity = act\<rparr>"

fun ep_guard :: "endpoints \<Rightarrow> side \<Rightarrow> guarded option" where
  "ep_guard ep ClientSide = ep_client ep"
| "ep_guard ep ServerSide = ep_server ep"

fun ep_set_guard :: "side \<Rightarrow> guarded \<Rightarrow> endpoints \<Rightarrow> endpoints" where
  "ep_set_guard ClientSide g ep = ep\<lparr>ep_client := Some g\<rparr>"
| "ep_set_guard ServerSide g ep = ep\<lparr>ep_server := Some g\<rparr>"

definition ep_read_guarded :: "endpoints \<Rightarrow> side \<Rightarrow> usize \<Rightarrow> bytes poll \<Rightarrow> instant \<Rightarrow> endpoints" where
  "ep_read_guarded ep s space r now =
     (case ep_guard ep s of None \<Rightarrow> ep | Some g \<Rightarrow> ep_set_guard s (snd (guarded_poll_read g r space now)) ep)"

definition ep_read :: "endpoints \<Rightarrow> side \<Rightarrow> usize \<Rightarrow> bytes poll \<Rightarrow> instant \<Rightarrow> bytes poll \<times> endpoints" where
  "ep_read ep s space inner now =
     (let ep = ep_read_guarded ep s space inner now in
      case (s, ep_monitor ep) of
        (ClientSide, Some x) \<Rightarrow>
          (case monitored_poll_read x (ep_met ep) inner now of (out, x, m) \<Rightarrow> (out, ep\<lparr>ep_monitor := Some x, ep_met := m\<rparr>))
      | _ \<Rightarrow> (inner, ep))"

text \<open>\<^verbatim>\<open>check\<close> on the result of a write, a flush or a shutdown.\<close>

definition ep_check :: "endpoints \<Rightarrow> side \<Rightarrow> 'x poll \<Rightarrow> instant \<Rightarrow> 'x poll \<times> endpoints" where
  "ep_check ep s inner now =
     (case ep_guard ep s of
        None \<Rightarrow> (inner, ep)
      | Some g \<Rightarrow> (case guarded_check g (ep_met ep) inner now of (out, g, m) \<Rightarrow> (out, (ep_set_guard s g ep)\<lparr>ep_met := m\<rparr>)))"

definition ep_write :: "endpoints \<Rightarrow> side \<Rightarrow> usize poll \<Rightarrow> instant \<Rightarrow> usize poll \<times> endpoints" where
  "ep_write ep s inner now =
     (case ep_check ep s inner now of (out, ep) \<Rightarrow>
      case (s, ep_monitor ep) of
        (ClientSide, Some x) \<Rightarrow> (case monitored_poll_write (ep_met ep) out of (out, m) \<Rightarrow> (out, ep\<lparr>ep_met := m\<rparr>))
      | _ \<Rightarrow> (out, ep))"

section \<open>The transfer\<close>

datatype io_call = ReadCall side usize "bytes poll" | WriteCall side "usize poll"
  | FlushCall side "unit poll" | ShutdownCall side "unit poll"

fun poll_failure :: "'x poll \<Rightarrow> io_error option" where
  "poll_failure (Ready (Inl e)) = Some e"
| "poll_failure _ = None"

fun ep_call :: "endpoints \<Rightarrow> io_call \<Rightarrow> instant \<Rightarrow> io_error option \<times> endpoints" where
  "ep_call ep (ReadCall s space inner) now = map_prod poll_failure id (ep_read ep s space inner now)"
| "ep_call ep (WriteCall s inner) now = map_prod poll_failure id (ep_write ep s inner now)"
| "ep_call ep (FlushCall s inner) now = map_prod poll_failure id (ep_check ep s inner now)"
| "ep_call ep (ShutdownCall s inner) now = map_prod poll_failure id (ep_check ep s inner now)"

fun ep_calls :: "endpoints \<Rightarrow> io_call list \<Rightarrow> instant \<Rightarrow> io_error option \<times> endpoints" where
  "ep_calls ep [] now = (None, ep)"
| "ep_calls ep (c # cs) now =
     (case ep_call ep c now of (Some e, ep) \<Rightarrow> (Some e, ep) | (None, ep) \<Rightarrow> ep_calls ep cs now)"

type_synonym copied = "nat \<times> nat"
type_synonym transfer = "io_call list \<times> copied option"

definition transfer_poll :: "endpoints \<Rightarrow> transfer \<Rightarrow> instant \<Rightarrow> copied poll \<times> endpoints" where
  "transfer_poll ep tp now =
     (case ep_calls ep (fst tp) now of
        (Some e, ep) \<Rightarrow> (Ready (Inl e), ep)
      | (None, ep) \<Rightarrow> (case snd tp of None \<Rightarrow> (Pending, ep) | Some n \<Rightarrow> (Ready (Inr n), ep)))"

section \<open>The guards around it\<close>

datatype drain = Copying | HalfClosed instant

record relay =
  rl_half_ms :: nat
  rl_idle_ms :: nat
  rl_ep :: endpoints
  rl_drain :: drain
  rl_wake :: "instant option"

text \<open>With no timeout configured there are no guards, and the task is the transfer.\<close>

definition relay_new :: "upload \<Rightarrow> nat \<Rightarrow> nat \<Rightarrow> nat \<Rightarrow> metrics \<Rightarrow> instant \<Rightarrow> relay" where
  "relay_new cfg stall_ms half_ms idle_ms m now =
     (let plain = (stall_ms = 0 \<and> half_ms = 0 \<and> idle_ms = 0);
          act = (if idle_ms > 0 then Some (activity_new now) else None)
      in \<lparr>rl_half_ms = half_ms, rl_idle_ms = idle_ms,
          rl_ep = \<lparr>ep_client = (if plain then None else Some (guarded_new stall_ms act)),
                   ep_server = (if plain then None else Some (guarded_new stall_ms None)),
                   ep_monitor = copy_client cfg now, ep_met = m\<rparr>,
          rl_drain = Copying, rl_wake = None\<rparr>)"

text \<open>The \<^verbatim>\<open>Notify\<close> both guards share: once a stream has ended, its permit is there.\<close>

definition ep_eof :: "endpoints \<Rightarrow> bool" where
  "ep_eof ep \<longleftrightarrow> (\<exists>s \<in> {ClientSide, ServerSide}. case ep_guard ep s of None \<Rightarrow> False | Some g \<Rightarrow> gu_eof g)"

text \<open>\<^verbatim>\<open>timeout\<close> polls the transfer first and the deadline after it.\<close>

definition half_closed_poll :: "relay \<Rightarrow> instant \<Rightarrow> transfer \<Rightarrow> instant \<Rightarrow> copied poll \<times> relay" where
  "half_closed_poll r deadline tp now =
     (case transfer_poll (rl_ep r) tp now of (out, ep) \<Rightarrow>
      let r = r\<lparr>rl_ep := ep, rl_drain := HalfClosed deadline\<rparr> in
      if out = Pending \<and> deadline \<le> now
      then (Ready (Inl TimedOut), r\<lparr>rl_ep := ep\<lparr>ep_met := metrics_inc (ep_met ep) 46\<rparr>\<rparr>)
      else (out, r))"

text \<open>
  The future \<^verbatim>\<open>drain\<close>. When the branch of the transfer runs first and reports the end of a
  stream, the transfer is polled a second time, inside the \<^verbatim>\<open>timeout\<close>.
\<close>

definition drain_poll :: "bool \<Rightarrow> relay \<Rightarrow> transfer \<Rightarrow> transfer \<Rightarrow> instant \<Rightarrow> copied poll \<times> relay" where
  "drain_poll eof_first r tp1 tp2 now =
     (let deadline = now + from_millis (rl_half_ms r) in
      case rl_drain r of
        HalfClosed d \<Rightarrow> half_closed_poll r d tp1 now
      | Copying \<Rightarrow>
          if eof_first \<and> 0 < rl_half_ms r \<and> ep_eof (rl_ep r) then half_closed_poll r deadline tp1 now
          else (case transfer_poll (rl_ep r) tp1 now of (out, ep) \<Rightarrow>
            let r = r\<lparr>rl_ep := ep\<rparr> in
            if out = Pending \<and> \<not> eof_first \<and> 0 < rl_half_ms r \<and> ep_eof ep then half_closed_poll r deadline tp2 now
            else (out, r)))"

text \<open>
  The loop of \<^verbatim>\<open>expired\<close>, resumed at its sleep: it returns whether it is done, and otherwise
  the instant it sleeps until. \<open>None\<close> is a loop that spins.
\<close>

partial_function (option) expired_loop :: "activity \<Rightarrow> nat \<Rightarrow> instant \<Rightarrow> instant \<Rightarrow> (bool \<times> instant) option" where
  "expired_loop a ms wake now =
     (if now < wake then Some (False, wake)
      else if activity_expired a ms now then Some (True, wake)
      else expired_loop a ms (activity_wake a ms) now)"

definition ep_activity :: "endpoints \<Rightarrow> activity option" where
  "ep_activity ep = Option.bind (ep_client ep) gu_activity"

definition expired_poll :: "relay \<Rightarrow> instant \<Rightarrow> (bool \<times> relay) option" where
  "expired_poll r now =
     (case ep_activity (rl_ep r) of
        None \<Rightarrow> Some (False, r)
      | Some a \<Rightarrow>
          let wake = (case rl_wake r of Some w \<Rightarrow> w | None \<Rightarrow> activity_wake a (rl_idle_ms r)) in
          map_option (map_prod id (\<lambda>w. r\<lparr>rl_wake := Some w\<rparr>)) (expired_loop a (rl_idle_ms r) wake now))"

definition relay_idle :: "relay \<Rightarrow> copied poll \<times> relay" where
  "relay_idle r = (Ready (Inl TimedOut), r\<lparr>rl_ep := (rl_ep r)\<lparr>ep_met := metrics_inc (ep_met (rl_ep r)) 49\<rparr>\<rparr>)"

text \<open>
  A wake-up of the task: the order of the branches, what the transfer does, and the clock and
  the shared counters as it finds them.
\<close>

record wakeup =
  wk_idle_first :: bool
  wk_eof_first :: bool
  wk_transfer :: transfer
  wk_again :: transfer
  wk_now :: instant
  wk_met :: metrics

definition relay_select :: "relay \<Rightarrow> wakeup \<Rightarrow> (copied poll \<times> relay) option" where
  "relay_select r p =
     (let drain = (\<lambda>r. drain_poll (wk_eof_first p) r (wk_transfer p) (wk_again p) (wk_now p)) in
      if rl_idle_ms r = 0 then Some (drain r)
      else if wk_idle_first p then
        (case expired_poll r (wk_now p) of
           None \<Rightarrow> None
         | Some (True, r) \<Rightarrow> Some (relay_idle r)
         | Some (False, r) \<Rightarrow> Some (drain r))
      else
        (case drain r of
           (Ready x, r) \<Rightarrow> Some (Ready x, r)
         | (Pending, r) \<Rightarrow>
             (case expired_poll r (wk_now p) of
                None \<Rightarrow> None
              | Some (True, r) \<Rightarrow> Some (relay_idle r)
              | Some (False, r) \<Rightarrow> Some (Pending, r))))"

definition relay_load :: "relay \<Rightarrow> metrics \<Rightarrow> relay" where
  "relay_load r m = r\<lparr>rl_ep := (rl_ep r)\<lparr>ep_met := m\<rparr>\<rparr>"

definition relay_poll :: "relay \<Rightarrow> wakeup \<Rightarrow> (copied poll \<times> relay) option" where
  "relay_poll r p = relay_select (relay_load r (wk_met p)) p"

text \<open>The life of the task: it is polled until it is ready.\<close>

fun relay_run :: "relay \<Rightarrow> wakeup list \<Rightarrow> (copied poll \<times> relay) option" where
  "relay_run r [] = Some (Pending, r)"
| "relay_run r (p # ps) =
     (case relay_poll r p of
        Some (Pending, r) \<Rightarrow> relay_run r ps
      | result \<Rightarrow> result)"

abbreviation wk_drain :: "wakeup \<Rightarrow> relay \<Rightarrow> copied poll \<times> relay" where
  "wk_drain p r \<equiv> drain_poll (wk_eof_first p) r (wk_transfer p) (wk_again p) (wk_now p)"

lemma all_side: "(\<forall>s. P s) \<longleftrightarrow> P ClientSide \<and> P ServerSide"
  by (metis side.exhaust)

lemma ep_guard_set [simp]: "ep_guard (ep_set_guard s g ep) t = (if t = s then Some g else ep_guard ep t)"
  by (cases s; cases t) auto

lemma ep_guard_frame [simp]:
  "ep_guard (ep\<lparr>ep_met := m\<rparr>) s = ep_guard ep s" "ep_guard (ep\<lparr>ep_monitor := x\<rparr>) s = ep_guard ep s"
  "ep_met (ep_set_guard s g ep) = ep_met ep" "ep_monitor (ep_set_guard s g ep) = ep_monitor ep"
  by (cases s; simp)+

lemma ep_activity_guard: "ep_activity ep = Option.bind (ep_guard ep ClientSide) gu_activity"
  by (simp add: ep_activity_def)

lemma drain_poll_copying:
  assumes "rl_drain r = Copying" "transfer_poll (rl_ep r) tp1 now = (out, ep)"
  shows "drain_poll f r tp1 tp2 now =
    (if f \<and> 0 < rl_half_ms r \<and> ep_eof (rl_ep r) then half_closed_poll r (now + from_millis (rl_half_ms r)) tp1 now
     else if out = Pending \<and> \<not> f \<and> 0 < rl_half_ms r \<and> ep_eof ep
       then half_closed_poll (r\<lparr>rl_ep := ep\<rparr>) (now + from_millis (rl_half_ms r)) tp2 now
     else (out, r\<lparr>rl_ep := ep\<rparr>))"
  using assms by (simp add: drain_poll_def Let_def)

section \<open>The counters a relay moves\<close>

inductive bumps :: "metrics \<Rightarrow> metrics \<Rightarrow> bool" for m :: metrics where
  bumps_refl: "bumps m m"
| bumps_add: "bumps m m' \<Longrightarrow> i \<in> {39, 40, 41, 45, 46, 49} \<Longrightarrow> bumps m (metrics_add m' i v)"

lemma bumps_inc: "bumps m m' \<Longrightarrow> i \<in> {39, 40, 41, 45, 46, 49} \<Longrightarrow> bumps m (metrics_inc m' i)"
  unfolding metrics_inc_def by (rule bumps_add)

lemma bumps_trans: "bumps m' m'' \<Longrightarrow> bumps m m' \<Longrightarrow> bumps m m''"
  by (induction rule: bumps.induct) (auto intro: bumps_add)

lemmas bumps_intros = bumps_refl bumps_add bumps_inc

lemma ep_read_bumps: "bumps (ep_met ep) (ep_met (snd (ep_read ep s space r now)))"
proof -
  have "ep_met (ep_read_guarded ep s space r now) = ep_met ep"
    by (auto simp: ep_read_guarded_def split: option.split)
  moreover have "bumps m (snd (snd (monitored_poll_read x m r now)))" for x m
    by (auto simp: monitored_poll_read_def Let_def split: poll.split sum.split prod.split intro!: bumps_intros)
  ultimately show ?thesis
    by (auto simp: ep_read_def Let_def case_prod_beta split: side.split option.split intro!: bumps_intros)
qed

lemma ep_check_bumps: "bumps (ep_met ep) (ep_met (snd (ep_check ep s r now)))"
proof -
  have "bumps m (snd (snd (guarded_check g m r now)))" for g m
    by (auto simp: guarded_check_def Let_def intro!: bumps_intros)
  then show ?thesis by (auto simp: ep_check_def case_prod_beta split: option.split intro!: bumps_intros)
qed

lemma ep_write_bumps: "bumps (ep_met ep) (ep_met (snd (ep_write ep s r now)))"
  using ep_check_bumps [of ep s r now]
  by (auto simp: ep_write_def monitored_poll_write_def case_prod_beta
      split: side.split option.split poll.split sum.split intro!: bumps_intros)

lemma ep_calls_bumps: "bumps (ep_met ep) (ep_met (snd (ep_calls ep cs now)))"
proof (induction cs arbitrary: ep)
  case (Cons c cs)
  have "bumps (ep_met ep) (ep_met (snd (ep_call ep c now)))"
    by (cases c) (auto simp: ep_read_bumps ep_write_bumps ep_check_bumps)
  with bumps_trans [OF Cons.IH] show ?case by (auto split: prod.split option.split)
qed (simp add: bumps_refl)

lemma transfer_poll_bumps: "bumps (ep_met ep) (ep_met (snd (transfer_poll ep tp now)))"
  using ep_calls_bumps [of ep "fst tp" now] by (auto simp: transfer_poll_def split: prod.split option.split)

lemma half_closed_bumps: "bumps (ep_met (rl_ep r)) (ep_met (rl_ep (snd (half_closed_poll r d tp now))))"
  using transfer_poll_bumps [of "rl_ep r" tp now]
  by (auto simp: half_closed_poll_def Let_def case_prod_beta intro!: bumps_inc)

lemma drain_poll_bumps: "bumps (ep_met (rl_ep r)) (ep_met (rl_ep (snd (drain_poll f r tp1 tp2 now))))"
proof -
  obtain out ep where tp: "transfer_poll (rl_ep r) tp1 now = (out, ep)" by fastforce
  then have 1: "bumps (ep_met (rl_ep r)) (ep_met ep)" using transfer_poll_bumps [of "rl_ep r" tp1 now] by simp
  then have "bumps (ep_met (rl_ep r)) (ep_met (rl_ep (snd (half_closed_poll (r\<lparr>rl_ep := ep\<rparr>) d tp now))))" for d tp
    using bumps_trans [OF half_closed_bumps [of "r\<lparr>rl_ep := ep\<rparr>" d tp now]] by simp
  with 1 half_closed_bumps [of r] show ?thesis
    by (cases "rl_drain r") (simp_all add: drain_poll_copying [OF _ tp], simp add: drain_poll_def)
qed

lemma expired_poll_met: "expired_poll r now = Some (b, r') \<Longrightarrow> rl_ep r' = rl_ep r"
  by (auto simp: expired_poll_def Let_def split: option.splits)

lemma relay_poll_bumps:
  assumes "relay_poll r p = Some (out, r')"
  shows "bumps (wk_met p) (ep_met (rl_ep r'))"
proof -
  have drain: "bumps (ep_met (rl_ep r)) (ep_met (rl_ep r'))" if "wk_drain p r = (out, r')" for r r' out
    using drain_poll_bumps [of r "wk_eof_first p" "wk_transfer p" "wk_again p" "wk_now p"] that by simp
  have "bumps (ep_met (rl_ep r)) (ep_met (rl_ep r'))" if "relay_select r p = Some (out, r')" for r
    using that
    by (auto simp: relay_select_def Let_def relay_idle_def split: if_splits option.splits prod.splits poll.splits bool.splits
        dest!: expired_poll_met drain intro!: bumps_inc bumps_refl)
  from this [of "relay_load r (wk_met p)"] assms show ?thesis by (simp add: relay_poll_def relay_load_def)
qed

end
