(* ===== verification/Relay_Deadlines.thy ===== *)
theory Relay_Deadlines
  imports Relay_Copy
begin

text \<open>
  The deadlines of a relayed connection: what the calls of a wake-up do to the timers and
  counters, the invariant of a relay that still runs, and from it that every timeout has its
  reason and that a relay whose deadline has come is over.
\<close>

section \<open>What the environment does\<close>

text \<open>Errors of the sockets themselves; the other two kinds are raised by the wrappers.\<close>

fun inner_call :: "io_call \<Rightarrow> bool" where
  "inner_call (ReadCall _ _ inner) = (poll_failure inner \<in> {None, Some InnerError})"
| "inner_call (WriteCall _ inner) = (poll_failure inner \<in> {None, Some InnerError})"
| "inner_call (FlushCall _ inner) = (poll_failure inner \<in> {None, Some InnerError})"
| "inner_call (ShutdownCall _ inner) = (poll_failure inner \<in> {None, Some InnerError})"

text \<open>The client sent data; a stream ended.\<close>

fun sends :: "io_call \<Rightarrow> bool" where
  "sends (ReadCall ClientSide _ (Ready (Inr chunk))) = (chunk \<noteq> [])"
| "sends _ = False"

fun hangs_up :: "io_call \<Rightarrow> bool" where
  "hangs_up (ReadCall _ space (Ready (Inr chunk))) = (0 < space \<and> chunk = [])"
| "hangs_up _ = False"

definition wk_calls :: "wakeup \<Rightarrow> io_call list" where
  "wk_calls p = fst (wk_transfer p) @ fst (wk_again p)"

section \<open>The effect of the calls\<close>

definition timeout_counts :: "metrics \<Rightarrow> u64 \<times> u64 \<times> u64" where
  "timeout_counts m = (metrics_get m 45, metrics_get m 46, metrics_get m 49)"

lemma activity_touch_touch [simp]: "activity_touch (activity_touch a now) now = activity_touch a now"
  by (simp add: activity_touch_def)

lemma guarded_check_effect:
  assumes "guarded_check g m r now = (out, g', m')" "metrics_wf m" "poll_failure r \<in> {None, Some InnerError}"
  shows "gu_eof g' = gu_eof g \<and> gu_activity g' = gu_activity g \<and> metrics_wf m' \<and>
    timeout_counts m' = (metrics_get m 45 + of_bool (poll_failure out = Some TimedOut), metrics_get m 46, metrics_get m 49)"
  using assms by (auto simp: guarded_check_def Let_def timeout_counts_def metrics_gets split: if_splits)

lemma ep_check_effect:
  assumes "ep_check ep s r now = (out, ep')" "metrics_wf (ep_met ep)" "poll_failure r \<in> {None, Some InnerError}"
  shows "ep_eof ep' = ep_eof ep \<and> ep_activity ep' = ep_activity ep \<and> metrics_wf (ep_met ep') \<and>
    (\<forall>s. (ep_guard ep' s = None) = (ep_guard ep s = None)) \<and>
    timeout_counts (ep_met ep') = (metrics_get (ep_met ep) 45 + of_bool (poll_failure out = Some TimedOut),
      metrics_get (ep_met ep) 46, metrics_get (ep_met ep) 49)"
proof (cases "ep_guard ep s")
  case None
  with assms show ?thesis by (auto simp: ep_check_def timeout_counts_def)
next
  case (Some g)
  then show ?thesis
    using assms by (cases s) (auto simp: all_side ep_check_def ep_eof_def ep_activity_def dest!: guarded_check_effect split: prod.splits)
qed

text \<open>
  Any call: only the stall guard moves a timeout counter, once and with the error; data from
  the client is activity; the end of a stream is remembered.
\<close>

definition call_effect :: "endpoints \<Rightarrow> endpoints \<Rightarrow> io_error option \<Rightarrow> bool \<Rightarrow> bool \<Rightarrow> instant \<Rightarrow> bool" where
  "call_effect ep ep' e sent ended now \<longleftrightarrow>
     metrics_wf (ep_met ep') \<and> (\<forall>s. (ep_guard ep' s = None) = (ep_guard ep s = None)) \<and>
     timeout_counts (ep_met ep') = (metrics_get (ep_met ep) 45 + of_bool (e = Some TimedOut),
       metrics_get (ep_met ep) 46, metrics_get (ep_met ep) 49) \<and>
     ep_activity ep' = (if sent then map_option (\<lambda>a. activity_touch a now) (ep_activity ep) else ep_activity ep) \<and>
     (ep_eof ep' \<longleftrightarrow> ep_eof ep \<or> ended \<and> ep_guard ep ClientSide \<noteq> None)"

definition paired :: "endpoints \<Rightarrow> bool" where
  "paired ep \<longleftrightarrow> (ep_client ep = None) = (ep_server ep = None)"

lemma monitored_read_effect:
  assumes "monitored_poll_read x m r now = (out, x', m')" "metrics_wf m" "poll_failure r \<in> {None, Some InnerError}"
  shows "metrics_wf m' \<and> timeout_counts m' = timeout_counts m \<and> poll_failure out \<noteq> Some TimedOut"
  using assms
  by (auto simp: monitored_poll_read_def Let_def timeout_counts_def metrics_gets
      split: poll.splits sum.splits if_splits prod.splits)

lemma guarded_read_effect:
  "gu_eof (snd (guarded_poll_read g r space now)) = (gu_eof g \<or> hangs_up (ReadCall s space r))"
  "gu_activity (snd (guarded_poll_read g r space now)) =
     (if sends (ReadCall ClientSide space r) then map_option (\<lambda>a. activity_touch a now) (gu_activity g) else gu_activity g)"
  by (auto simp: guarded_poll_read_def Let_def split: poll.splits sum.splits)

lemma ep_read_guarded_effect:
  assumes "paired ep"
  shows "ep_met (ep_read_guarded ep s space r now) = ep_met ep \<and>
    ep_monitor (ep_read_guarded ep s space r now) = ep_monitor ep \<and>
    (\<forall>t. (ep_guard (ep_read_guarded ep s space r now) t = None) = (ep_guard ep t = None)) \<and>
    ep_activity (ep_read_guarded ep s space r now) =
      (if sends (ReadCall s space r) then map_option (\<lambda>a. activity_touch a now) (ep_activity ep) else ep_activity ep) \<and>
    (ep_eof (ep_read_guarded ep s space r now) \<longleftrightarrow> ep_eof ep \<or> hangs_up (ReadCall s space r) \<and> ep_guard ep ClientSide \<noteq> None)"
proof (cases "ep_guard ep s")
  case None
  with assms have "ep_client ep = None" by (cases s) (simp_all add: paired_def)
  with None show ?thesis by (simp add: ep_read_guarded_def ep_activity_def)
next
  case (Some g)
  have cs: "ep_guard ep ClientSide \<noteq> None" using assms Some by (cases s) (auto simp: paired_def)
  have "ep_eof (ep_read_guarded ep s space r now) \<longleftrightarrow> ep_eof ep \<or> hangs_up (ReadCall s space r)"
    using Some by (cases s) (auto simp: ep_read_guarded_def ep_eof_def guarded_read_effect(1) [of _ _ _ _ s])
  moreover have "ep_activity (ep_read_guarded ep s space r now) =
      (if sends (ReadCall s space r) then map_option (\<lambda>a. activity_touch a now) (ep_activity ep) else ep_activity ep)"
    using Some by (cases s) (simp_all add: ep_read_guarded_def ep_activity_def guarded_read_effect(2))
  ultimately show ?thesis using Some cs by (simp add: ep_read_guarded_def)
qed

lemma ep_read_effect:
  assumes "ep_read ep s space r now = (out, ep')" "metrics_wf (ep_met ep)" "poll_failure r \<in> {None, Some InnerError}"
    and "paired ep"
  shows "call_effect ep ep' (poll_failure out) (sends (ReadCall s space r)) (hangs_up (ReadCall s space r)) now"
proof -
  let ?ep = "ep_read_guarded ep s space r now"
  note mid = ep_read_guarded_effect [OF assms(4), of s space r now]
  show ?thesis
  proof (cases "s = ClientSide \<and> ep_monitor ?ep \<noteq> None")
    case True
    then obtain x where "ep_monitor ?ep = Some x" by blast
    then obtain x' m' where "monitored_poll_read x (ep_met ?ep) r now = (out, x', m')"
      "ep' = ?ep\<lparr>ep_monitor := Some x', ep_met := m'\<rparr>"
      using True assms(1) by (auto simp: ep_read_def Let_def split: prod.splits)
    with monitored_read_effect [of x "ep_met ?ep" r now out x' m'] assms(2,3) mid show ?thesis
      by (auto simp: call_effect_def timeout_counts_def ep_eof_def ep_activity_guard simp del: ep_guard.simps)
  next
    case False
    then have "out = r" "ep' = ?ep"
      using assms(1) by (cases s; auto simp: ep_read_def Let_def split: option.splits)+
    with assms(2,3) mid show ?thesis by (auto simp: call_effect_def timeout_counts_def)
  qed
qed

lemma ep_check_call_effect:
  assumes "ep_check ep s r now = (out, ep')" "metrics_wf (ep_met ep)" "poll_failure r \<in> {None, Some InnerError}"
  shows "call_effect ep ep' (poll_failure out) False False now"
  using ep_check_effect [OF assms] by (simp add: call_effect_def)

lemma ep_write_effect:
  assumes "ep_write ep s r now = (out, ep')" "metrics_wf (ep_met ep)" "poll_failure r \<in> {None, Some InnerError}"
  shows "call_effect ep ep' (poll_failure out) False False now"
proof -
  obtain o1 ep1 where c: "ep_check ep s r now = (o1, ep1)" by fastforce
  then have "out = o1 \<and> (ep' = ep1 \<or> (\<exists>n. ep' = ep1\<lparr>ep_met := metrics_add (ep_met ep1) 41 n\<rparr>))"
    using assms(1) by (auto simp: ep_write_def monitored_poll_write_def split: side.splits option.splits poll.splits sum.splits)
  with ep_check_effect [OF c assms(2,3)] show ?thesis
    by (auto simp: call_effect_def timeout_counts_def metrics_gets ep_eof_def ep_activity_def)
qed

lemma ep_call_effect:
  assumes "ep_call ep c now = (e, ep')" "metrics_wf (ep_met ep)" "paired ep" "inner_call c"
  shows "call_effect ep ep' e (sends c) (hangs_up c) now"
proof (cases c)
  case (ReadCall s space r)
  obtain out where "ep_read ep s space r now = (out, ep')" "e = poll_failure out"
    using assms(1) ReadCall by (auto simp: map_prod_def split: prod.splits)
  with ep_read_effect assms ReadCall show ?thesis by simp
next
  case (WriteCall s r)
  obtain out where "ep_write ep s r now = (out, ep')" "e = poll_failure out"
    using assms(1) WriteCall by (auto simp: map_prod_def split: prod.splits)
  with ep_write_effect assms WriteCall show ?thesis by simp
next
  case (FlushCall s r)
  obtain out where "ep_check ep s r now = (out, ep')" "e = poll_failure out"
    using assms(1) FlushCall by (auto simp: map_prod_def split: prod.splits)
  with ep_check_call_effect assms FlushCall show ?thesis by simp
next
  case (ShutdownCall s r)
  obtain out where "ep_check ep s r now = (out, ep')" "e = poll_failure out"
    using assms(1) ShutdownCall by (auto simp: map_prod_def split: prod.splits)
  with ep_check_call_effect assms ShutdownCall show ?thesis by simp
qed

lemma call_effect_paired: "call_effect ep ep' e b c now \<Longrightarrow> paired ep \<Longrightarrow> paired ep'"
  unfolding call_effect_def paired_def by (metis ep_guard.simps)

lemma call_effect_trans:
  assumes "call_effect ep ep1 None b c now" "call_effect ep1 ep2 e b' c' now"
  shows "call_effect ep ep2 e (b \<or> b') (c \<or> c') now"
  using assms by (auto simp: call_effect_def timeout_counts_def option.map_comp o_def simp del: ep_guard.simps)

text \<open>
  A poll of the transfer: what it read is between nothing and all its calls when an error cut
  it short, and all of them otherwise.
\<close>

lemma ep_calls_effect:
  assumes "ep_calls ep cs now = (e, ep')" "metrics_wf (ep_met ep)" "paired ep" "list_all inner_call cs"
  shows "\<exists>b c. call_effect ep ep' e b c now \<and> (e = None \<longrightarrow> b = list_ex sends cs \<and> c = list_ex hangs_up cs) \<and>
    (b \<longrightarrow> list_ex sends cs) \<and> (c \<longrightarrow> list_ex hangs_up cs)"
  using assms
proof (induction cs arbitrary: ep)
  case Nil
  then show ?case by (auto simp: call_effect_def timeout_counts_def)
next
  case (Cons c cs)
  obtain e1 ep1 where call: "ep_call ep c now = (e1, ep1)" by fastforce
  with Cons.prems have eff: "call_effect ep ep1 e1 (sends c) (hangs_up c) now" by (intro ep_call_effect) auto
  show ?case
  proof (cases e1)
    case None
    with call Cons.prems(1) have "ep_calls ep1 cs now = (e, ep')" by simp
    moreover have "metrics_wf (ep_met ep1)" "paired ep1"
      using eff call_effect_paired [OF eff Cons.prems(3)] by (simp_all add: call_effect_def)
    ultimately obtain b d where "call_effect ep1 ep' e b d now" "e = None \<longrightarrow> b = list_ex sends cs \<and> d = list_ex hangs_up cs"
      "b \<longrightarrow> list_ex sends cs" "d \<longrightarrow> list_ex hangs_up cs" using Cons.IH [of ep1] Cons.prems(4) by auto
    with call_effect_trans [of ep ep1 "sends c" "hangs_up c" now ep' e b d] eff None show ?thesis by auto
  next
    case (Some x)
    with call Cons.prems(1) eff show ?thesis by auto
  qed
qed

lemma transfer_poll_effect:
  assumes "transfer_poll ep tp now = (out, ep')" "metrics_wf (ep_met ep)" "paired ep" "list_all inner_call (fst tp)"
  obtains b c where "call_effect ep ep' (poll_failure out) b c now"
    "out = Pending \<Longrightarrow> b = list_ex sends (fst tp) \<and> c = list_ex hangs_up (fst tp)"
    "b \<Longrightarrow> list_ex sends (fst tp)" "c \<Longrightarrow> list_ex hangs_up (fst tp)"
proof -
  obtain e ep1 where calls: "ep_calls ep (fst tp) now = (e, ep1)" by fastforce
  with assms(1) have "ep1 = ep'" "poll_failure out = e" "out = Pending \<longrightarrow> e = None"
    by (auto simp: transfer_poll_def split: option.splits)
  moreover obtain b c where "call_effect ep ep1 e b c now" "e = None \<longrightarrow> b = list_ex sends (fst tp) \<and> c = list_ex hangs_up (fst tp)"
    "b \<longrightarrow> list_ex sends (fst tp)" "c \<longrightarrow> list_ex hangs_up (fst tp)"
    using ep_calls_effect [OF calls assms(2,3,4)] by blast
  ultimately show thesis using that [of b c] by blast
qed

section \<open>The effect of a wake-up\<close>

text \<open>
  The future \<^verbatim>\<open>drain\<close>: \<open>b\<close> tells whether client data was seen, \<open>c\<close> whether a stream ended. A
  timeout it reports is counted once, and the one it adds to the transfer's own is that of a
  half-closed connection whose deadline has come.
\<close>

definition drain_effect :: "relay \<Rightarrow> copied poll \<Rightarrow> relay \<Rightarrow> bool \<Rightarrow> bool \<Rightarrow> instant \<Rightarrow> bool" where
  "drain_effect r out r' b c now \<longleftrightarrow>
     rl_half_ms r' = rl_half_ms r \<and> rl_idle_ms r' = rl_idle_ms r \<and> rl_wake r' = rl_wake r \<and>
     metrics_wf (ep_met (rl_ep r')) \<and> paired (rl_ep r') \<and>
     (ep_guard (rl_ep r') ClientSide = None \<longleftrightarrow> ep_guard (rl_ep r) ClientSide = None) \<and>
     (\<exists>x y. timeout_counts (ep_met (rl_ep r')) = (metrics_get (ep_met (rl_ep r)) 45 + x,
          metrics_get (ep_met (rl_ep r)) 46 + y, metrics_get (ep_met (rl_ep r)) 49) \<and>
        (x, y) \<in> (if out = Ready (Inl TimedOut) then {(1, 0), (0, 1)} else {(0, 0)}) \<and>
        (y = 1 \<longrightarrow> (\<exists>d \<le> now. rl_drain r = HalfClosed d))) \<and>
     ep_activity (rl_ep r') =
       (if b then map_option (\<lambda>a. activity_touch a now) (ep_activity (rl_ep r)) else ep_activity (rl_ep r)) \<and>
     (ep_eof (rl_ep r') \<longleftrightarrow> ep_eof (rl_ep r) \<or> c \<and> ep_guard (rl_ep r) ClientSide \<noteq> None)"

lemma poll_failure_timed_out: "poll_failure out = Some TimedOut \<longleftrightarrow> out = Ready (Inl TimedOut)"
  by (cases out rule: poll_failure.cases) auto

lemma half_closed_effect:
  assumes "half_closed_poll r d tp now = (out, r')" "metrics_wf (ep_met (rl_ep r))" "paired (rl_ep r)"
    and "list_all inner_call (fst tp)" "d \<le> now \<longrightarrow> rl_drain r = HalfClosed d"
  obtains b c where "drain_effect r out r' b c now" "out = Pending \<Longrightarrow> now < d" "rl_drain r' = HalfClosed d"
    "out = Pending \<Longrightarrow> b = list_ex sends (fst tp) \<and> c = list_ex hangs_up (fst tp)"
    "b \<Longrightarrow> list_ex sends (fst tp)" "c \<Longrightarrow> list_ex hangs_up (fst tp)"
proof -
  obtain o1 ep where tp: "transfer_poll (rl_ep r) tp now = (o1, ep)" by fastforce
  obtain b c where eff: "call_effect (rl_ep r) ep (poll_failure o1) b c now"
    "o1 = Pending \<Longrightarrow> b = list_ex sends (fst tp) \<and> c = list_ex hangs_up (fst tp)"
    "b \<Longrightarrow> list_ex sends (fst tp)" "c \<Longrightarrow> list_ex hangs_up (fst tp)"
    using transfer_poll_effect [OF tp assms(2,3,4)] by metis
  show thesis
  proof (cases "o1 = Pending \<and> d \<le> now")
    case True
    then have r': "out = Ready (Inl TimedOut)"
      "r' = r\<lparr>rl_ep := ep\<lparr>ep_met := metrics_inc (ep_met ep) 46\<rparr>, rl_drain := HalfClosed d\<rparr>"
      using assms(1) tp by (auto simp: half_closed_poll_def Let_def)
    have "drain_effect r out r' b c now"
      using eff(1) r' True assms(3,5) call_effect_paired [OF eff(1) assms(3)]
      by (auto simp: drain_effect_def call_effect_def timeout_counts_def metrics_gets ep_eof_def ep_activity_def paired_def all_side)
    with that r' eff(3,4) True show thesis by auto
  next
    case False
    then have r': "out = o1" "r' = r\<lparr>rl_ep := ep, rl_drain := HalfClosed d\<rparr>"
      using assms(1) tp by (auto simp: half_closed_poll_def Let_def)
    have "drain_effect r out r' b c now"
      using eff(1) r' call_effect_paired [OF eff(1) assms(3)]
      by (auto simp: drain_effect_def call_effect_def timeout_counts_def all_side poll_failure_timed_out)
    with that r' eff(2-) False show thesis by auto
  qed
qed

lemma drain_effect_after:
  assumes "call_effect (rl_ep r) ep None b c now" "drain_effect (r\<lparr>rl_ep := ep\<rparr>) out r' b' c' now"
  shows "drain_effect r out r' (b \<or> b') (c \<or> c') now"
  using assms
  by (auto simp: drain_effect_def call_effect_def timeout_counts_def option.map_comp o_def simp del: ep_guard.simps split: if_splits)

text \<open>
  A pending \<^verbatim>\<open>drain\<close> is before its deadline. The deadline is set once, at a wake-up that knows
  of an ended stream, and every wake-up that starts with such knowledge has one.
\<close>

definition drain_deadline :: "relay \<Rightarrow> relay \<Rightarrow> instant \<Rightarrow> bool" where
  "drain_deadline r r' now \<longleftrightarrow>
     (\<forall>d. rl_drain r' = HalfClosed d \<longrightarrow> now < d \<and>
        (rl_drain r = HalfClosed d \<or> rl_drain r = Copying \<and> d = now + from_millis (rl_half_ms r) \<and> ep_eof (rl_ep r'))) \<and>
     (\<forall>d. rl_drain r = HalfClosed d \<longrightarrow> rl_drain r' = HalfClosed d) \<and>
     (0 < rl_half_ms r \<and> ep_eof (rl_ep r) \<longrightarrow> (\<exists>d. rl_drain r' = HalfClosed d))"

definition drain_ok :: "relay \<Rightarrow> copied poll \<Rightarrow> relay \<Rightarrow> io_call list \<Rightarrow> io_call list \<Rightarrow> instant \<Rightarrow> bool" where
  "drain_ok r out r' cs1 cs2 now \<longleftrightarrow>
     (\<exists>b c. drain_effect r out r' b c now \<and>
        (out = Pending \<longrightarrow> drain_deadline r r' now \<and> (list_ex sends cs1 \<longrightarrow> b) \<and> (list_ex hangs_up cs1 \<longrightarrow> c)) \<and>
        (b \<longrightarrow> list_ex sends (cs1 @ cs2)) \<and> (c \<longrightarrow> list_ex hangs_up (cs1 @ cs2)))"

lemma drain_half_closed:
  assumes "half_closed_poll r d tp1 now = (out, r')" "metrics_wf (ep_met (rl_ep r))" "paired (rl_ep r)"
    and "list_all inner_call (fst tp1)"
    and "rl_drain r = HalfClosed d \<or>
      rl_drain r = Copying \<and> d = now + from_millis (rl_half_ms r) \<and> 0 < rl_half_ms r \<and> ep_eof (rl_ep r)"
  shows "drain_ok r out r' (fst tp1) (fst tp2) now"
proof -
  have "d \<le> now \<longrightarrow> rl_drain r = HalfClosed d" using assms(5) by (auto simp: from_millis_def)
  then obtain b c where e: "drain_effect r out r' b c now" "out = Pending \<Longrightarrow> now < d" "rl_drain r' = HalfClosed d"
    "out = Pending \<Longrightarrow> b = list_ex sends (fst tp1) \<and> c = list_ex hangs_up (fst tp1)"
    "b \<Longrightarrow> list_ex sends (fst tp1)" "c \<Longrightarrow> list_ex hangs_up (fst tp1)"
    using half_closed_effect [OF assms(1-4)] by metis
  have "drain_deadline r r' now" if "out = Pending"
    using e(1,3) e(2) [OF that] assms(5) by (auto simp: drain_deadline_def drain_effect_def)
  with e(1,4,5,6) show ?thesis unfolding drain_ok_def by (intro exI [of _ b] exI [of _ c]) auto
qed

lemma drain_copying:
  assumes "transfer_poll (rl_ep r) tp1 now = (out, ep)" "metrics_wf (ep_met (rl_ep r))" "paired (rl_ep r)"
    and "list_all inner_call (fst tp1)" "rl_drain r = Copying" "out = Pending \<and> 0 < rl_half_ms r \<longrightarrow> \<not> ep_eof (rl_ep r)"
  shows "drain_ok r out (r\<lparr>rl_ep := ep\<rparr>) (fst tp1) (fst tp2) now"
proof -
  obtain b c where e: "call_effect (rl_ep r) ep (poll_failure out) b c now"
    "out = Pending \<Longrightarrow> b = list_ex sends (fst tp1) \<and> c = list_ex hangs_up (fst tp1)"
    "b \<Longrightarrow> list_ex sends (fst tp1)" "c \<Longrightarrow> list_ex hangs_up (fst tp1)"
    using transfer_poll_effect [OF assms(1-4)] by metis
  have "drain_effect r out (r\<lparr>rl_ep := ep\<rparr>) b c now"
    using e(1) call_effect_paired [OF e(1) assms(3)]
    by (auto simp: drain_effect_def call_effect_def timeout_counts_def all_side poll_failure_timed_out)
  moreover have "drain_deadline r (r\<lparr>rl_ep := ep\<rparr>) now" if "out = Pending"
    using assms(5,6) that by (auto simp: drain_deadline_def)
  ultimately show ?thesis using e(2-) unfolding drain_ok_def by (intro exI [of _ b] exI [of _ c]) auto
qed

lemma drain_closing:
  assumes "transfer_poll (rl_ep r) tp1 now = (Pending, ep)" "metrics_wf (ep_met (rl_ep r))" "paired (rl_ep r)"
    and "list_all inner_call (fst tp1 @ fst tp2)" "rl_drain r = Copying" "0 < rl_half_ms r" "ep_eof ep"
    and "half_closed_poll (r\<lparr>rl_ep := ep\<rparr>) (now + from_millis (rl_half_ms r)) tp2 now = (out, r')"
  shows "drain_ok r out r' (fst tp1) (fst tp2) now"
proof -
  obtain b c where e: "call_effect (rl_ep r) ep None b c now"
    "b = list_ex sends (fst tp1) \<and> c = list_ex hangs_up (fst tp1)"
    by (rule transfer_poll_effect [OF assms(1-3)]) (use assms(4) in auto)
  have late: "now + from_millis (rl_half_ms r) \<le> now \<longrightarrow> rl_drain (r\<lparr>rl_ep := ep\<rparr>) = HalfClosed (now + from_millis (rl_half_ms r))"
    and wf: "metrics_wf (ep_met (rl_ep (r\<lparr>rl_ep := ep\<rparr>)))" "paired (rl_ep (r\<lparr>rl_ep := ep\<rparr>))" "list_all inner_call (fst tp2)"
    using assms(4,6) e(1) call_effect_paired [OF e(1) assms(3)] by (simp_all add: from_millis_def call_effect_def)
  obtain b' c' where h: "drain_effect (r\<lparr>rl_ep := ep\<rparr>) out r' b' c' now"
    "rl_drain r' = HalfClosed (now + from_millis (rl_half_ms r))"
    "b' \<Longrightarrow> list_ex sends (fst tp2)" "c' \<Longrightarrow> list_ex hangs_up (fst tp2)"
    using half_closed_effect [OF assms(8) wf late] by metis
  have "drain_deadline r r' now"
    using h(1,2) assms(5,6,7) by (auto simp: drain_deadline_def drain_effect_def from_millis_def)
  moreover have "drain_effect r out r' (b \<or> b') (c \<or> c') now" using drain_effect_after [OF e(1) h(1)] .
  ultimately show ?thesis using e(2) h(3,4) unfolding drain_ok_def
    by (intro exI [of _ "b \<or> b'"] exI [of _ "c \<or> c'"]) auto
qed

lemma drain_poll_ok:
  assumes "drain_poll f r tp1 tp2 now = (out, r')" "metrics_wf (ep_met (rl_ep r))" "paired (rl_ep r)"
    and "list_all inner_call (fst tp1 @ fst tp2)"
  shows "drain_ok r out r' (fst tp1) (fst tp2) now"
proof -
  let ?d = "now + from_millis (rl_half_ms r)"
  obtain o1 ep where tp: "transfer_poll (rl_ep r) tp1 now = (o1, ep)" by fastforce
  have calls: "list_all inner_call (fst tp1)" using assms(4) by simp
  have mono: "ep_eof ep" if "ep_eof (rl_ep r)"
    by (rule transfer_poll_effect [OF tp assms(2,3) calls]) (use that in \<open>simp add: call_effect_def\<close>)
  show ?thesis
  proof (cases "rl_drain r")
    case (HalfClosed d)
    with assms(1) have "half_closed_poll r d tp1 now = (out, r')" by (simp add: drain_poll_def)
    with HalfClosed show ?thesis using drain_half_closed [OF _ assms(2,3) calls] by blast
  next
    case copying: Copying
    consider (known) "f \<and> 0 < rl_half_ms r \<and> ep_eof (rl_ep r)"
      | (closing) "\<not> (f \<and> 0 < rl_half_ms r \<and> ep_eof (rl_ep r))" "o1 = Pending \<and> \<not> f \<and> 0 < rl_half_ms r \<and> ep_eof ep"
      | (going) "\<not> (f \<and> 0 < rl_half_ms r \<and> ep_eof (rl_ep r))" "\<not> (o1 = Pending \<and> \<not> f \<and> 0 < rl_half_ms r \<and> ep_eof ep)"
      by blast
    then show ?thesis
    proof cases
      case known
      with assms(1) copying have "half_closed_poll r ?d tp1 now = (out, r')" by (simp add: drain_poll_def)
      with known copying show ?thesis using drain_half_closed [OF _ assms(2,3) calls] by blast
    next
      case closing
      with assms(1) copying tp have "half_closed_poll (r\<lparr>rl_ep := ep\<rparr>) ?d tp2 now = (out, r')"
        by (simp add: drain_poll_def Let_def)
      with closing copying show ?thesis using drain_closing [OF _ assms(2,3,4)] tp by blast
    next
      case going
      have "drain_poll f r tp1 tp2 now = (o1, r\<lparr>rl_ep := ep\<rparr>)"
        unfolding drain_poll_copying [OF copying tp] if_not_P [OF going(1)] if_not_P [OF going(2)] ..
      with assms(1) have "out = o1" "r' = r\<lparr>rl_ep := ep\<rparr>" by simp_all
      with going copying mono show ?thesis using drain_copying [OF tp assms(2,3) calls] by blast
    qed
  qed
qed

section \<open>The idle clock\<close>

lemma activity_wake_iff:
  assumes "ac_last_ms a + ms < 2 ^ 64" "ac_start a \<le> now"
  shows "activity_expired a ms now \<longleftrightarrow> activity_wake a ms \<le> now"
proof -
  have "activity_expired a ms now \<longleftrightarrow> (ac_last_ms a + ms) * 1000000 \<le> now - ac_start a"
    by (simp add: activity_expired_def as_millis_def saturating_duration_since_def less_eq_div_iff_mult_less_eq)
  also have "\<dots> \<longleftrightarrow> activity_wake a ms \<le> now" using assms by (auto simp: activity_wake_def from_millis_def)
  finally show ?thesis .
qed

text \<open>The loop returns: it goes round at most once in a poll.\<close>

lemma expired_loop_eq:
  assumes "ac_last_ms a + ms < 2 ^ 64" "ac_start a \<le> now" "w \<le> activity_wake a ms"
  shows "expired_loop a ms w now =
    Some (activity_wake a ms \<le> now, if now < w \<or> activity_wake a ms \<le> now then w else activity_wake a ms)"
  using assms
  by (subst expired_loop.simps, subst expired_loop.simps) (auto simp: activity_wake_iff)

text \<open>The wake-ups come in the order of time, on a clock that has not run for \<open>2 ^ 64\<close> milliseconds.\<close>

definition relay_clock :: "instant \<Rightarrow> nat \<Rightarrow> wakeup list \<Rightarrow> bool" where
  "relay_clock t0 idle ps \<longleftrightarrow> sorted (t0 # map wk_now ps) \<and> (\<forall>p \<in> set ps. as_millis (wk_now p - t0) + idle < 2 ^ 64)"

text \<open>The time of the last wake-up at which the client may have sent something.\<close>

definition last_data :: "instant \<Rightarrow> wakeup list \<Rightarrow> instant" where
  "last_data t0 ps = fold (\<lambda>p t. if list_ex sends (wk_calls p) then wk_now p else t) ps t0"

lemma last_data_simps [simp]:
  "last_data t0 [] = t0"
  "last_data t0 (ps @ [p]) = (if list_ex sends (wk_calls p) then wk_now p else last_data t0 ps)"
  by (simp_all add: last_data_def)

lemma relay_clock_snoc:
  "relay_clock t0 idle (ps @ [p]) \<longleftrightarrow>
     relay_clock t0 idle ps \<and> t0 \<le> wk_now p \<and> (\<forall>q \<in> set ps. wk_now q \<le> wk_now p) \<and> as_millis (wk_now p - t0) + idle < 2 ^ 64"
  by (auto simp: relay_clock_def sorted_append)

lemma last_data_mem: "last_data t0 ps \<in> insert t0 (wk_now ` set ps)"
  by (induction ps rule: rev_induct) auto

lemma last_data_bounds:
  assumes "relay_clock t0 idle (ps @ [p])"
  shows "t0 \<le> last_data t0 ps" "last_data t0 ps \<le> wk_now p"
  using last_data_mem [of t0 ps] assms by (auto simp: relay_clock_def sorted_append)

definition idle_ok :: "instant \<Rightarrow> nat \<Rightarrow> wakeup list \<Rightarrow> activity \<Rightarrow> bool" where
  "idle_ok t0 idle ps a \<longleftrightarrow>
     ac_start a = t0 \<and> ac_last_ms a \<le> as_millis (last_data t0 ps - t0) \<and>
     (ps \<noteq> [] \<longrightarrow> wk_now (last ps) < activity_wake a idle) \<and>
     (\<forall>q \<in> set ps. list_ex sends (fst (wk_transfer q)) \<longrightarrow> as_millis (wk_now q - t0) \<le> ac_last_ms a)"

definition idle_inv :: "instant \<Rightarrow> wakeup list \<Rightarrow> relay \<Rightarrow> bool" where
  "idle_inv t0 ps r \<longleftrightarrow>
     (\<exists>a. ep_activity (rl_ep r) = Some a \<and> idle_ok t0 (rl_idle_ms r) ps a \<and>
        (\<forall>w. rl_wake r = Some w \<longrightarrow> w \<le> activity_wake a (rl_idle_ms r)))"

lemma as_millis_mono: "x \<le> y \<Longrightarrow> as_millis x \<le> as_millis y"
  by (simp add: as_millis_def div_le_mono)

lemma activity_wake_mono: "ac_last_ms a \<le> ac_last_ms b \<Longrightarrow> ac_start a = ac_start b \<Longrightarrow> activity_wake a ms \<le> activity_wake b ms"
  by (auto simp: activity_wake_def from_millis_def)

lemma activity_wake_le: "activity_wake a ms \<le> ac_start a + from_millis (ac_last_ms a) + from_millis ms"
  using mult_right_mono [OF min.cobounded1 [of "ac_last_ms a + ms" "2 ^ 64 - 1"], of 1000000]
  by (simp add: activity_wake_def from_millis_def add_mult_distrib)

lemma idle_ok_last:
  assumes "idle_ok t0 idle ps a" "relay_clock t0 idle (ps @ [p])"
  shows "ac_last_ms a \<le> as_millis (wk_now p - t0)" "ac_last_ms a + idle < 2 ^ 64"
proof -
  show "ac_last_ms a \<le> as_millis (wk_now p - t0)"
    using assms(1) as_millis_mono [OF diff_le_mono [OF last_data_bounds(2) [OF assms(2)]], of t0]
    by (auto simp: idle_ok_def)
  with assms(2) show "ac_last_ms a + idle < 2 ^ 64" by (simp add: relay_clock_snoc)
qed

lemma touch_last:
  assumes "idle_ok t0 idle ps a" "relay_clock t0 idle (ps @ [p])"
  shows "ac_last_ms (activity_touch a (wk_now p)) = as_millis (wk_now p - t0)" "ac_start (activity_touch a (wk_now p)) = t0"
  using assms by (simp_all add: activity_touch_def idle_ok_def relay_clock_snoc saturating_duration_since_def)

lemma idle_ok_snoc:
  assumes "idle_ok t0 idle ps a" "relay_clock t0 idle (ps @ [p])"
    and "b \<longrightarrow> list_ex sends (wk_calls p)" "list_ex sends (fst (wk_transfer p)) \<longrightarrow> b"
    and "wk_now p < activity_wake a' idle" "a' = (if b then activity_touch a (wk_now p) else a)"
  shows "idle_ok t0 idle (ps @ [p]) a' \<and> activity_wake a idle \<le> activity_wake a' idle"
  using assms idle_ok_last [OF assms(1,2)] touch_last [OF assms(1,2)]
  by (auto simp: idle_ok_def intro!: activity_wake_mono)

lemma expired_poll_eq:
  assumes "ep_activity (rl_ep r) = Some a" "ac_last_ms a + rl_idle_ms r < 2 ^ 64" "ac_start a \<le> now"
    and "\<forall>w. rl_wake r = Some w \<longrightarrow> w \<le> activity_wake a (rl_idle_ms r)"
  obtains w where "expired_poll r now = Some (activity_wake a (rl_idle_ms r) \<le> now, r\<lparr>rl_wake := Some w\<rparr>)"
    "w \<le> activity_wake a (rl_idle_ms r)"
proof -
  define w where "w = (case rl_wake r of Some w \<Rightarrow> w | None \<Rightarrow> activity_wake a (rl_idle_ms r))"
  have "w \<le> activity_wake a (rl_idle_ms r)" using assms(4) by (auto simp: w_def split: option.split)
  with that expired_loop_eq [OF assms(2,3), of w] assms(1) show thesis
    by (auto simp: expired_poll_def Let_def simp flip: w_def)
qed

section \<open>The invariant of a relay\<close>

definition drain_inv :: "metrics \<Rightarrow> wakeup list \<Rightarrow> relay \<Rightarrow> bool" where
  "drain_inv m ps r \<longleftrightarrow>
     metrics_wf (ep_met (rl_ep r)) \<and> paired (rl_ep r) \<and> timeout_counts (ep_met (rl_ep r)) = timeout_counts m \<and>
     (ep_eof (rl_ep r) \<longrightarrow> (\<exists>q \<in> set ps. list_ex hangs_up (wk_calls q))) \<and>
     (\<forall>d. rl_drain r = HalfClosed d \<longrightarrow> ep_eof (rl_ep r) \<and> wk_now (last ps) < d \<and>
        (\<exists>q \<in> set ps. d = wk_now q + from_millis (rl_half_ms r)))"

text \<open>
  When a relay that started at \<open>t0\<close> with counters \<open>m\<close> ends: it counts a timeout exactly when it
  reports one, and a timeout other than that of a blocked write has its reason.
\<close>

definition verdict :: "metrics \<Rightarrow> instant \<Rightarrow> relay \<Rightarrow> wakeup list \<Rightarrow> wakeup \<Rightarrow> copied poll \<Rightarrow> metrics \<Rightarrow> bool" where
  "verdict m t0 r ps p out m' \<longleftrightarrow>
     (\<exists>x y z. timeout_counts m' = (metrics_get m 45 + x, metrics_get m 46 + y, metrics_get m 49 + z) \<and>
        (x, y, z) \<in> (if out = Ready (Inl TimedOut) then {(1, 0, 0), (0, 1, 0), (0, 0, 1)} else {(0, 0, 0)}) \<and>
        (y = 1 \<longrightarrow> (\<exists>q \<in> set ps. wk_now q + from_millis (rl_half_ms r) \<le> wk_now p) \<and>
           (\<exists>q \<in> set ps. list_ex hangs_up (wk_calls q))) \<and>
        (z = 1 \<longrightarrow> t0 + from_millis (rl_idle_ms r) \<le> wk_now p \<and>
           (\<forall>q \<in> set ps. list_ex sends (fst (wk_transfer q)) \<longrightarrow>
              wk_now q + from_millis (rl_idle_ms r) < wk_now p + from_millis 1)))"

lemma drain_verdict:
  assumes "drain_inv m ps r" "drain_ok r out r' cs1 cs2 (wk_now p)"
  shows "verdict m t0 r ps p out (ep_met (rl_ep r'))"
proof -
  obtain x y where xy: "timeout_counts (ep_met (rl_ep r')) = (metrics_get (ep_met (rl_ep r)) 45 + x,
          metrics_get (ep_met (rl_ep r)) 46 + y, metrics_get (ep_met (rl_ep r)) 49)"
    "(x, y) \<in> (if out = Ready (Inl TimedOut) then {(1, 0), (0, 1)} else {(0, 0)})"
    "y = 1 \<longrightarrow> (\<exists>d \<le> wk_now p. rl_drain r = HalfClosed d)"
    using assms(2) unfolding drain_ok_def drain_effect_def by blast
  have "timeout_counts (ep_met (rl_ep r')) = (metrics_get m 45 + x, metrics_get m 46 + y, metrics_get m 49 + 0)"
    using assms(1) xy(1) by (simp add: drain_inv_def timeout_counts_def)
  moreover have "(x, y, 0) \<in> (if out = Ready (Inl TimedOut) then {(1, 0, 0), (0, 1, 0), (0, 0, 1)} else {(0, 0, 0)})"
    using xy(2) by (auto split: if_splits)
  moreover have "y = 1 \<longrightarrow> (\<exists>q \<in> set ps. wk_now q + from_millis (rl_half_ms r) \<le> wk_now p) \<and>
      (\<exists>q \<in> set ps. list_ex hangs_up (wk_calls q))"
    using xy(3) assms(1) by (auto simp: drain_inv_def)
  ultimately show ?thesis unfolding verdict_def by fastforce
qed

lemma drain_inv_step:
  assumes "drain_inv m ps r" "drain_ok r Pending r' (fst (wk_transfer p)) (fst (wk_again p)) (wk_now p)"
  shows "drain_inv m (ps @ [p]) r'"
proof -
  obtain b c where e: "drain_effect r Pending r' b c (wk_now p)" "drain_deadline r r' (wk_now p)"
    "c \<longrightarrow> list_ex hangs_up (wk_calls p)"
    using assms(2) unfolding drain_ok_def wk_calls_def by blast
  have "timeout_counts (ep_met (rl_ep r')) = timeout_counts m"
    using e(1) assms(1) by (auto simp: drain_effect_def drain_inv_def timeout_counts_def)
  moreover have "ep_eof (rl_ep r') \<longrightarrow> (\<exists>q \<in> set (ps @ [p]). list_ex hangs_up (wk_calls q))"
    using e(1,3) assms(1) by (auto simp: drain_effect_def drain_inv_def)
  moreover have "ep_eof (rl_ep r') \<and> wk_now p < d \<and> (\<exists>q \<in> set (ps @ [p]). d = wk_now q + from_millis (rl_half_ms r'))"
    if "rl_drain r' = HalfClosed d" for d
    using that e(1,2) assms(1) unfolding drain_effect_def drain_deadline_def drain_inv_def by auto
  ultimately show ?thesis using e(1) by (auto simp: drain_inv_def drain_effect_def)
qed

lemma as_millis_le: "as_millis d \<le> n \<Longrightarrow> d < from_millis n + from_millis 1"
  unfolding as_millis_def from_millis_def by (simp add: div_less_iff_less_mult flip: less_Suc_eq_le)

lemma idle_verdict:
  assumes "timeout_counts (ep_met (rl_ep r)) = timeout_counts m" "metrics_wf (ep_met (rl_ep r))"
    and "ac_start a = t0" "ac_last_ms a + rl_idle_ms r < 2 ^ 64" "activity_wake a (rl_idle_ms r) \<le> wk_now p"
    and "\<And>q. q \<in> set ps \<Longrightarrow> list_ex sends (fst (wk_transfer q)) \<Longrightarrow> as_millis (wk_now q - t0) \<le> ac_last_ms a"
  shows "verdict m t0 r ps p (Ready (Inl TimedOut)) (metrics_inc (ep_met (rl_ep r)) 49)"
proof -
  have wake: "t0 + from_millis (ac_last_ms a) + from_millis (rl_idle_ms r) \<le> wk_now p"
    using assms(3,4,5) by (simp add: activity_wake_def from_millis_def algebra_simps)
  have "wk_now q + from_millis (rl_idle_ms r) < wk_now p + from_millis 1"
    if "q \<in> set ps" "list_ex sends (fst (wk_transfer q))" for q
    using as_millis_le [OF assms(6) [OF that]] wake by linarith
  moreover have "timeout_counts (metrics_inc (ep_met (rl_ep r)) 49) = (metrics_get m 45 + 0, metrics_get m 46 + 0, metrics_get m 49 + 1)"
    using assms(1,2) by (simp add: timeout_counts_def metrics_gets)
  moreover have "t0 + from_millis (rl_idle_ms r) \<le> wk_now p" using wake by linarith
  ultimately show ?thesis unfolding verdict_def by fastforce
qed

definition relay_inv :: "metrics \<Rightarrow> instant \<Rightarrow> wakeup list \<Rightarrow> relay \<Rightarrow> bool" where
  "relay_inv m t0 ps r \<longleftrightarrow> drain_inv m ps r \<and> (0 < rl_idle_ms r \<longrightarrow> idle_inv t0 ps r)"

text \<open>One wake-up: it returns, a pending one keeps the invariant, a finished one has its verdict.\<close>

definition wakeup_ok :: "metrics \<Rightarrow> instant \<Rightarrow> wakeup list \<Rightarrow> relay \<Rightarrow> wakeup \<Rightarrow> copied poll \<Rightarrow> relay \<Rightarrow> bool" where
  "wakeup_ok m t0 ps r p out r' \<longleftrightarrow>
     rl_half_ms r' = rl_half_ms r \<and> rl_idle_ms r' = rl_idle_ms r \<and>
     (out \<noteq> Pending \<longrightarrow> verdict m t0 r ps p out (ep_met (rl_ep r'))) \<and>
     (out = Pending \<longrightarrow> relay_inv m t0 (ps @ [p]) r' \<and> drain_deadline r r' (wk_now p) \<and>
        (ep_guard (rl_ep r') ClientSide = None \<longleftrightarrow> ep_guard (rl_ep r) ClientSide = None) \<and>
        (list_ex hangs_up (fst (wk_transfer p)) \<and> ep_guard (rl_ep r) ClientSide \<noteq> None \<longrightarrow> ep_eof (rl_ep r')))"

lemma drain_ok_wakeup:
  assumes "relay_inv m t0 ps r" "drain_ok r out r' (fst (wk_transfer p)) (fst (wk_again p)) (wk_now p)"
    and "out = Pending \<and> 0 < rl_idle_ms r \<longrightarrow> idle_inv t0 (ps @ [p]) r'"
  shows "wakeup_ok m t0 ps r p out r'"
proof -
  have inv: "drain_inv m ps r" using assms(1) by (simp add: relay_inv_def)
  obtain b c where e: "drain_effect r out r' b c (wk_now p)"
    "out = Pending \<longrightarrow> drain_deadline r r' (wk_now p) \<and> (list_ex hangs_up (fst (wk_transfer p)) \<longrightarrow> c)"
    using assms(2) unfolding drain_ok_def by blast
  then show ?thesis
    using drain_verdict [OF inv assms(2)] drain_inv_step [OF inv] assms(2,3)
    unfolding wakeup_ok_def relay_inv_def drain_effect_def by metis
qed

text \<open>The idle clock across the drain of a wake-up.\<close>

lemma drain_activity:
  assumes "ep_activity (rl_ep r) = Some a" "idle_ok t0 (rl_idle_ms r) ps a" "relay_clock t0 (rl_idle_ms r) (ps @ [p])"
    and "drain_ok r Pending r' (fst (wk_transfer p)) (fst (wk_again p)) (wk_now p)"
  obtains a' where "ep_activity (rl_ep r') = Some a'" "ac_start a' = t0" "ac_last_ms a' + rl_idle_ms r < 2 ^ 64"
    "activity_wake a (rl_idle_ms r) \<le> activity_wake a' (rl_idle_ms r)" "ac_last_ms a \<le> ac_last_ms a'"
    "wk_now p < activity_wake a' (rl_idle_ms r) \<Longrightarrow> idle_ok t0 (rl_idle_ms r) (ps @ [p]) a'"
proof -
  obtain b c where e: "drain_effect r Pending r' b c (wk_now p)"
    and b: "list_ex sends (fst (wk_transfer p)) \<longrightarrow> b" "b \<longrightarrow> list_ex sends (wk_calls p)"
    using assms(4) unfolding drain_ok_def wk_calls_def by blast
  have act: "ep_activity (rl_ep r') = Some (if b then activity_touch a (wk_now p) else a)"
    using e assms(1) by (simp add: drain_effect_def)
  let ?a = "if b then activity_touch a (wk_now p) else a"
  have "ac_start ?a = t0" "ac_last_ms ?a + rl_idle_ms r < 2 ^ 64" "ac_last_ms a \<le> ac_last_ms ?a"
    using idle_ok_last [OF assms(2,3)] touch_last [OF assms(2,3)] assms(2,3) by (auto simp: relay_clock_snoc idle_ok_def)
  with that [OF act] idle_ok_snoc [OF assms(2,3) b(2,1)] activity_wake_mono [of a ?a] assms(2) show thesis
    by (simp add: idle_ok_def)
qed

lemma idle_first_ok:
  assumes "relay_inv m t0 ps r" "relay_clock t0 (rl_idle_ms r) (ps @ [p])" "list_all inner_call (wk_calls p)"
    and "0 < rl_idle_ms r" "wk_idle_first p"
  shows "\<exists>out r'. relay_select r p = Some (out, r') \<and> wakeup_ok m t0 ps r p out r'"
proof -
  have inv: "drain_inv m ps r" "idle_inv t0 ps r" using assms(1,4) by (auto simp: relay_inv_def)
  then obtain a where a: "ep_activity (rl_ep r) = Some a" "idle_ok t0 (rl_idle_ms r) ps a"
    "\<forall>w. rl_wake r = Some w \<longrightarrow> w \<le> activity_wake a (rl_idle_ms r)"
    by (auto simp: idle_inv_def)
  note last = idle_ok_last [OF a(2) assms(2)]
  have "ac_start a \<le> wk_now p" using a(2) assms(2) by (simp add: idle_ok_def relay_clock_snoc)
  from expired_poll_eq [OF a(1) last(2) this a(3)] obtain w where
    w: "expired_poll r (wk_now p) = Some (activity_wake a (rl_idle_ms r) \<le> wk_now p, r\<lparr>rl_wake := Some w\<rparr>)"
      "w \<le> activity_wake a (rl_idle_ms r)" by blast
  let ?r = "r\<lparr>rl_wake := Some w\<rparr>"
  show ?thesis
  proof (cases "activity_wake a (rl_idle_ms r) \<le> wk_now p")
    case True
    then have "relay_select r p = Some (relay_idle ?r)" using w(1) assms(4,5) by (simp add: relay_select_def)
    moreover have "verdict m t0 r ps p (Ready (Inl TimedOut)) (metrics_inc (ep_met (rl_ep r)) 49)"
      using inv(1) a(2) last(2) True by (intro idle_verdict) (auto simp: drain_inv_def idle_ok_def)
    ultimately show ?thesis by (auto simp: relay_idle_def wakeup_ok_def)
  next
    case False
    obtain out r' where d: "wk_drain p ?r = (out, r')" by fastforce
    then have poll: "relay_select r p = Some (out, r')" using w(1) False assms(4,5) by (simp add: relay_select_def)
    have ok: "drain_ok ?r out r' (fst (wk_transfer p)) (fst (wk_again p)) (wk_now p)"
      using drain_poll_ok [OF d] inv(1) assms(3) by (simp add: drain_inv_def wk_calls_def)
    have "idle_inv t0 (ps @ [p]) r'" if "out = Pending"
    proof -
      obtain a' where a': "ep_activity (rl_ep r') = Some a'"
        "activity_wake a (rl_idle_ms r) \<le> activity_wake a' (rl_idle_ms r)"
        "wk_now p < activity_wake a' (rl_idle_ms r) \<Longrightarrow> idle_ok t0 (rl_idle_ms r) (ps @ [p]) a'"
        by (rule drain_activity [of ?r a t0 ps p r']) (use ok a(1,2) assms(2) \<open>out = Pending\<close> in auto)
      have "rl_wake r' = Some w" "rl_idle_ms r' = rl_idle_ms r" using ok by (auto simp: drain_ok_def drain_effect_def)
      with a' w(2) False show ?thesis unfolding idle_inv_def by force
    qed
    moreover have "relay_inv m t0 ps ?r"
      using assms(1) a w(2) by (auto simp: relay_inv_def drain_inv_def idle_inv_def)
    ultimately have "wakeup_ok m t0 ps ?r p out r'" using drain_ok_wakeup [OF _ ok] by blast
    then show ?thesis using poll by (simp add: wakeup_ok_def verdict_def drain_deadline_def)
  qed
qed

lemma drain_pending_ok:
  assumes "relay_inv m t0 ps r" "relay_clock t0 (rl_idle_ms r) (ps @ [p])"
    and "0 < rl_idle_ms r" "\<not> wk_idle_first p"
    and d: "wk_drain p r = (Pending, r1)"
    and ok: "drain_ok r Pending r1 (fst (wk_transfer p)) (fst (wk_again p)) (wk_now p)"
  shows "\<exists>out r'. relay_select r p = Some (out, r') \<and> wakeup_ok m t0 ps r p out r'"
proof -
  have inv: "drain_inv m ps r" "idle_inv t0 ps r" using assms(1,3) by (auto simp: relay_inv_def)
  obtain a where a: "ep_activity (rl_ep r) = Some a" "idle_ok t0 (rl_idle_ms r) ps a"
    "\<forall>w. rl_wake r = Some w \<longrightarrow> w \<le> activity_wake a (rl_idle_ms r)"
    using inv(2) by (auto simp: idle_inv_def)
  obtain a' where a': "ep_activity (rl_ep r1) = Some a'" "ac_start a' = t0" "ac_last_ms a' + rl_idle_ms r < 2 ^ 64"
    "activity_wake a (rl_idle_ms r) \<le> activity_wake a' (rl_idle_ms r)" "ac_last_ms a \<le> ac_last_ms a'"
    "wk_now p < activity_wake a' (rl_idle_ms r) \<Longrightarrow> idle_ok t0 (rl_idle_ms r) (ps @ [p]) a'"
    using drain_activity [OF a(1,2) assms(2)] ok by blast
  have frame: "rl_wake r1 = rl_wake r" "rl_idle_ms r1 = rl_idle_ms r" "rl_half_ms r1 = rl_half_ms r"
    using ok by (auto simp: drain_ok_def drain_effect_def)
  have start: "ac_start a' \<le> wk_now p" using a'(2) assms(2) by (simp add: relay_clock_snoc)
  have wake: "\<forall>w. rl_wake r1 = Some w \<longrightarrow> w \<le> activity_wake a' (rl_idle_ms r1)" using a(3) a'(4) frame by (metis order_trans)
  obtain w where w: "expired_poll r1 (wk_now p) = Some (activity_wake a' (rl_idle_ms r1) \<le> wk_now p, r1\<lparr>rl_wake := Some w\<rparr>)"
    "w \<le> activity_wake a' (rl_idle_ms r1)"
    using expired_poll_eq [OF a'(1) _ start wake] a'(3) frame by metis
  show ?thesis
  proof (cases "activity_wake a' (rl_idle_ms r) \<le> wk_now p")
    case True
    then have "relay_select r p = Some (relay_idle (r1\<lparr>rl_wake := Some w\<rparr>))"
      using w(1) d frame assms(3,4) by (simp add: relay_select_def)
    moreover have "verdict m t0 r1 ps p (Ready (Inl TimedOut)) (metrics_inc (ep_met (rl_ep r1)) 49)"
      using drain_inv_step [OF inv(1)] ok a(2) a' True frame
      by (intro idle_verdict) (fastforce simp: drain_inv_def idle_ok_def)+
    ultimately show ?thesis using frame by (auto simp: relay_idle_def wakeup_ok_def verdict_def)
  next
    case False
    let ?r = "r1\<lparr>rl_wake := Some w\<rparr>"
    have "relay_select r p = Some (Pending, ?r)"
      using w(1) d frame False assms(3,4) by (simp add: relay_select_def)
    moreover have "idle_inv t0 (ps @ [p]) ?r" "idle_inv t0 (ps @ [p]) r1"
      using a' w(2) False frame wake by (auto simp: idle_inv_def)
    moreover have "wakeup_ok m t0 ps r p Pending r1"
      using drain_ok_wakeup [OF assms(1)] ok calculation(3) by blast
    ultimately show ?thesis
      by (intro exI [of _ Pending] exI [of _ ?r]) (auto simp: wakeup_ok_def relay_inv_def drain_inv_def drain_deadline_def)
  qed
qed

lemma drain_first_ok:
  assumes "relay_inv m t0 ps r" "relay_clock t0 (rl_idle_ms r) (ps @ [p])" "list_all inner_call (wk_calls p)"
    and "0 < rl_idle_ms r" "\<not> wk_idle_first p"
  shows "\<exists>out r'. relay_select r p = Some (out, r') \<and> wakeup_ok m t0 ps r p out r'"
proof -
  obtain out r1 where d: "wk_drain p r = (out, r1)" by fastforce
  have ok: "drain_ok r out r1 (fst (wk_transfer p)) (fst (wk_again p)) (wk_now p)"
    using drain_poll_ok [OF d] assms(1,3) by (simp add: relay_inv_def drain_inv_def wk_calls_def)
  show ?thesis
  proof (cases "out = Pending")
    case False
    then have "relay_select r p = Some (out, r1)" using d assms(4,5) by (cases out) (auto simp: relay_select_def)
    with drain_ok_wakeup [OF assms(1) ok] False show ?thesis by blast
  next
    case True
    with drain_pending_ok [OF assms(1,2,4,5)] d ok show ?thesis by blast
  qed
qed

lemma relay_select_ok:
  assumes "relay_inv m t0 ps r" "relay_clock t0 (rl_idle_ms r) (ps @ [p])" "list_all inner_call (wk_calls p)"
  shows "\<exists>out r'. relay_select r p = Some (out, r') \<and> wakeup_ok m t0 ps r p out r'"
proof (cases "rl_idle_ms r = 0")
  case True
  obtain out r' where d: "wk_drain p r = (out, r')" by fastforce
  have "drain_ok r out r' (fst (wk_transfer p)) (fst (wk_again p)) (wk_now p)"
    using drain_poll_ok [OF d] assms(1,3) by (simp add: relay_inv_def drain_inv_def wk_calls_def)
  with drain_ok_wakeup [OF assms(1)] d True show ?thesis by (auto simp: relay_select_def)
next
  case False
  then show ?thesis using idle_first_ok drain_first_ok assms by blast
qed

text \<open>The invariant does not depend on the counters, which other tasks move between wake-ups.\<close>

lemma relay_load_sel [simp]:
  "rl_half_ms (relay_load r m) = rl_half_ms r" "rl_idle_ms (relay_load r m) = rl_idle_ms r"
  "rl_drain (relay_load r m) = rl_drain r" "rl_wake (relay_load r m) = rl_wake r"
  "ep_met (rl_ep (relay_load r m)) = m" "ep_guard (rl_ep (relay_load r m)) s = ep_guard (rl_ep r) s"
  by (simp_all add: relay_load_def)

lemma relay_inv_load: "relay_inv m t0 ps r \<Longrightarrow> metrics_wf m' \<Longrightarrow> relay_inv m' t0 ps (relay_load r m')"
  by (auto simp: relay_inv_def drain_inv_def idle_inv_def relay_load_def paired_def ep_eof_def ep_activity_def)

text \<open>What a relay may assume of its wake-ups.\<close>

definition relay_env :: "instant \<Rightarrow> nat \<Rightarrow> wakeup list \<Rightarrow> bool" where
  "relay_env t0 idle ps \<longleftrightarrow> relay_clock t0 idle ps \<and>
     (\<forall>p \<in> set ps. list_all inner_call (wk_calls p) \<and> metrics_wf (wk_met p))"

lemma relay_env_append: "relay_env t0 idle (ps @ qs) \<Longrightarrow> relay_env t0 idle ps"
  by (auto simp: relay_env_def relay_clock_def sorted_append)

lemma relay_poll_ok:
  assumes "relay_inv m t0 ps r" "relay_env t0 (rl_idle_ms r) (ps @ [p])"
  shows "\<exists>out r'. relay_poll r p = Some (out, r') \<and> wakeup_ok (wk_met p) t0 ps (relay_load r (wk_met p)) p out r'"
  unfolding relay_poll_def
  by (rule relay_select_ok) (use assms in \<open>auto simp: relay_env_def intro: relay_inv_load\<close>)

section \<open>A wake-up returns\<close>

text \<open>What a wake-up does to the idle clock: nothing, or it records the client's data.\<close>

definition touched :: "instant \<Rightarrow> endpoints \<Rightarrow> endpoints \<Rightarrow> bool" where
  "touched now ep ep' \<longleftrightarrow> ep_activity ep' \<in> {ep_activity ep, map_option (\<lambda>a. activity_touch a now) (ep_activity ep)}"

lemma touched_refl [simp]: "touched now ep ep"
  by (simp add: touched_def)

lemma touched_trans: "touched now ep ep' \<Longrightarrow> touched now ep' ep'' \<Longrightarrow> touched now ep ep''"
  by (auto simp: touched_def option.map_comp o_def activity_touch_def)

lemma touched_met [simp]: "touched now ep (ep'\<lparr>ep_met := m\<rparr>) = touched now ep ep'"
  by (simp add: touched_def ep_activity_def)

lemma ep_read_touched: "touched now ep (snd (ep_read ep s space r now))"
proof -
  have "gu_activity (snd (guarded_poll_read g r space now)) \<in>
      {gu_activity g, map_option (\<lambda>a. activity_touch a now) (gu_activity g)}" for g
    by (auto simp: guarded_poll_read_def Let_def split: poll.split sum.split)
  then have "touched now ep (ep_read_guarded ep s space r now)"
    by (cases s) (auto simp: touched_def ep_read_guarded_def ep_activity_def split: option.split)
  then show ?thesis
    by (auto simp: ep_read_def Let_def case_prod_beta touched_def ep_activity_def split: side.split option.split)
qed

lemma ep_check_touched: "touched now ep (snd (ep_check ep s r now))"
proof -
  have "gu_activity (fst (snd (guarded_check g m r now))) = gu_activity g" for g m
    by (simp add: guarded_check_def Let_def)
  then show ?thesis
    by (cases s) (auto simp: ep_check_def touched_def ep_activity_def case_prod_beta split: option.split)
qed

lemma ep_write_touched: "touched now ep (snd (ep_write ep s r now))"
  using ep_check_touched [of now ep s r] by (auto simp: ep_write_def case_prod_beta split: side.split option.split)

lemma ep_calls_touched: "touched now ep (snd (ep_calls ep cs now))"
proof (induction cs arbitrary: ep)
  case (Cons c cs)
  have "touched now ep (snd (ep_call ep c now))"
    by (cases c) (auto simp: ep_read_touched ep_write_touched ep_check_touched)
  with touched_trans [OF _ Cons.IH] show ?case by (auto split: prod.split option.split)
qed simp

lemma transfer_poll_touched: "touched now ep (snd (transfer_poll ep tp now))"
  using ep_calls_touched [of now ep "fst tp"] by (auto simp: transfer_poll_def split: prod.split option.split)

lemma half_closed_touched: "touched now (rl_ep r) (rl_ep (snd (half_closed_poll r d tp now)))"
  using transfer_poll_touched [of now "rl_ep r" tp] by (auto simp: half_closed_poll_def Let_def case_prod_beta)

lemma drain_poll_touched: "touched now (rl_ep r) (rl_ep (snd (drain_poll f r tp1 tp2 now)))"
proof -
  obtain out ep where tp: "transfer_poll (rl_ep r) tp1 now = (out, ep)" by fastforce
  then have 1: "touched now (rl_ep r) ep" using transfer_poll_touched [of now "rl_ep r" tp1] by simp
  have "touched now (rl_ep r) (rl_ep (snd (half_closed_poll (r\<lparr>rl_ep := ep\<rparr>) d tp now)))" for d tp
    using touched_trans [OF 1 half_closed_touched [of now "r\<lparr>rl_ep := ep\<rparr>" d tp, simplified]] .
  with 1 half_closed_touched [of now r] show ?thesis
    by (cases "rl_drain r") (simp_all add: drain_poll_copying [OF _ tp], simp add: drain_poll_def)
qed

lemma drain_poll_idle: "rl_idle_ms (snd (drain_poll f r tp1 tp2 now)) = rl_idle_ms r"
  by (simp add: drain_poll_def half_closed_poll_def Let_def case_prod_beta split: drain.split)

lemma expired_loop_total:
  assumes "ac_last_ms a + ms < 2 ^ 64"
  shows "expired_loop a ms w now \<noteq> None"
proof -
  have "now < activity_wake a ms \<or> activity_expired a ms now"
  proof (cases "ac_start a \<le> now")
    case True
    then show ?thesis using activity_wake_iff [OF assms] by auto
  next
    case False
    then show ?thesis by (simp add: activity_wake_def)
  qed
  then show ?thesis by (subst expired_loop.simps, subst expired_loop.simps) auto
qed

lemma expired_poll_total:
  assumes "\<And>a. ep_activity (rl_ep r) = Some a \<Longrightarrow> ac_last_ms a + rl_idle_ms r < 2 ^ 64"
  shows "expired_poll r now \<noteq> None"
  using expired_loop_total assms by (auto simp: expired_poll_def Let_def split: option.split)

lemma relay_poll_total:
  assumes "\<And>a. ep_activity (rl_ep r) = Some a \<Longrightarrow> ac_last_ms a + rl_idle_ms r < 2 ^ 64"
    and "as_millis (wk_now p) + rl_idle_ms r < 2 ^ 64"
  shows "relay_poll r p \<noteq> None"
proof -
  let ?r = "relay_load r (wk_met p)"
  obtain out r1 where d: "wk_drain p ?r = (out, r1)" by fastforce
  have idle: "rl_idle_ms ?r = rl_idle_ms r" "rl_idle_ms r1 = rl_idle_ms r"
    using drain_poll_idle [of "wk_eof_first p" ?r "wk_transfer p" "wk_again p" "wk_now p"] d by (simp_all add: relay_load_def)
  have act: "ep_activity (rl_ep ?r) = ep_activity (rl_ep r)" by (simp add: relay_load_def ep_activity_def)
  have "ac_last_ms (activity_touch a (wk_now p)) \<le> as_millis (wk_now p)" for a
    by (simp add: activity_touch_def as_millis_def saturating_duration_since_def div_le_mono min.coboundedI1)
  then have late: "ac_last_ms (activity_touch a (wk_now p)) + rl_idle_ms r < 2 ^ 64" for a
    using assms(2) by (meson add_le_mono1 le_less_trans)
  have "touched (wk_now p) (rl_ep r) (rl_ep r1)"
    using drain_poll_touched [of "wk_now p" ?r "wk_eof_first p" "wk_transfer p" "wk_again p"] d act by (simp add: touched_def)
  then have "ac_last_ms a + rl_idle_ms r1 < 2 ^ 64" if "ep_activity (rl_ep r1) = Some a" for a
    using that assms(1) late idle(2) by (cases "ep_activity (rl_ep r)") (auto simp: touched_def)
  then have "expired_poll r1 (wk_now p) \<noteq> None" by (rule expired_poll_total)
  moreover have "expired_poll ?r (wk_now p) \<noteq> None" by (rule expired_poll_total) (use assms(1) idle act in simp)
  ultimately show ?thesis using d unfolding relay_poll_def relay_select_def Let_def
    by (auto split: option.split poll.split bool.split prod.split)
qed

section \<open>A whole relay\<close>

lemma relay_new_inv:
  assumes "metrics_wf m"
  shows "relay_inv m t0 [] (relay_new cfg stall half idle m t0)"
  using assms
  by (auto simp: relay_inv_def drain_inv_def idle_inv_def idle_ok_def relay_new_def Let_def guarded_new_def activity_new_def
      paired_def ep_eof_def ep_activity_def timeout_counts_def)

lemma relay_new_sel [simp]:
  "rl_half_ms (relay_new cfg stall half idle m t0) = half" "rl_idle_ms (relay_new cfg stall half idle m t0) = idle"
  "0 < half \<Longrightarrow> ep_guard (rl_ep (relay_new cfg stall half idle m t0)) ClientSide \<noteq> None"
  by (simp_all add: relay_new_def Let_def)

lemma relay_run_pending_Cons:
  "relay_run r (p # ps) = Some (Pending, r') \<longleftrightarrow>
     (\<exists>r1. relay_poll r p = Some (Pending, r1) \<and> relay_run r1 ps = Some (Pending, r'))"
  by (auto split: option.splits prod.splits poll.splits)

lemma relay_run_append:
  "relay_run r (ps @ qs) = (case relay_run r ps of Some (Pending, r) \<Rightarrow> relay_run r qs | result \<Rightarrow> result)"
  by (induction ps arbitrary: r) (auto split: option.splits prod.splits poll.splits)

lemma relay_run_pending_append:
  "relay_run r (ps @ qs) = Some (Pending, r') \<longleftrightarrow>
     (\<exists>r1. relay_run r ps = Some (Pending, r1) \<and> relay_run r1 qs = Some (Pending, r'))"
  by (auto simp: relay_run_append split: option.splits prod.splits poll.splits)

text \<open>The run of a relay whose earlier wake-ups were \<open>qs\<close>: it never spins, and the deadline stays.\<close>

definition still_relaying :: "instant \<Rightarrow> wakeup list \<Rightarrow> relay \<Rightarrow> relay \<Rightarrow> bool" where
  "still_relaying t0 ps r r' \<longleftrightarrow> (\<exists>m. relay_inv m t0 ps r') \<and> rl_half_ms r' = rl_half_ms r \<and> rl_idle_ms r' = rl_idle_ms r \<and>
     (\<forall>d. rl_drain r = HalfClosed d \<longrightarrow> rl_drain r' = HalfClosed d) \<and>
     (ep_guard (rl_ep r') ClientSide = None \<longleftrightarrow> ep_guard (rl_ep r) ClientSide = None)"

lemma relay_poll_pending:
  assumes "relay_inv m t0 ps r" "relay_env t0 (rl_idle_ms r) (ps @ [p])" "relay_poll r p = Some (Pending, r')"
  shows "still_relaying t0 (ps @ [p]) r r'"
    "ep_guard (rl_ep r) ClientSide \<noteq> None \<Longrightarrow> list_ex hangs_up (fst (wk_transfer p)) \<Longrightarrow> ep_eof (rl_ep r')"
    "0 < rl_half_ms r \<Longrightarrow> ep_eof (rl_ep r) \<Longrightarrow> \<exists>d. rl_drain r' = HalfClosed d"
proof -
  have ok: "wakeup_ok (wk_met p) t0 ps (relay_load r (wk_met p)) p Pending r'"
    using relay_poll_ok [OF assms(1,2)] assms(3) by auto
  moreover have "ep_eof (rl_ep (relay_load r (wk_met p))) = ep_eof (rl_ep r)" by (simp add: ep_eof_def relay_load_def)
  ultimately show "still_relaying t0 (ps @ [p]) r r'"
    "ep_guard (rl_ep r) ClientSide \<noteq> None \<Longrightarrow> list_ex hangs_up (fst (wk_transfer p)) \<Longrightarrow> ep_eof (rl_ep r')"
    "0 < rl_half_ms r \<Longrightarrow> ep_eof (rl_ep r) \<Longrightarrow> \<exists>d. rl_drain r' = HalfClosed d"
    unfolding wakeup_ok_def drain_deadline_def still_relaying_def relay_load_sel by blast+
qed

lemma relay_run_ok:
  assumes "relay_inv m t0 qs r" "relay_env t0 (rl_idle_ms r) (qs @ ps)"
  shows "\<exists>out r'. relay_run r ps = Some (out, r') \<and> (out = Pending \<longrightarrow> still_relaying t0 (qs @ ps) r r')"
  using assms
proof (induction ps arbitrary: qs r m)
  case Nil
  then show ?case by (auto simp: still_relaying_def)
next
  case (Cons p ps)
  have env: "relay_env t0 (rl_idle_ms r) (qs @ [p])" by (rule relay_env_append [of _ _ _ ps]) (use Cons.prems(2) in simp)
  then obtain out r1 where step: "relay_poll r p = Some (out, r1)"
    using relay_poll_ok [OF Cons.prems(1)] by blast
  show ?case
  proof (cases "out = Pending")
    case True
    have st: "still_relaying t0 (qs @ [p]) r r1"
      by (rule relay_poll_pending(1) [OF Cons.prems(1) env]) (use step True in simp)
    then obtain m' where "relay_inv m' t0 (qs @ [p]) r1" "rl_idle_ms r1 = rl_idle_ms r" by (auto simp: still_relaying_def)
    with Cons.IH [of m' "qs @ [p]" r1] Cons.prems(2) step True st show ?thesis by (auto simp: still_relaying_def)
  qed (cases out; simp add: step)
qed

lemma relay_pending:
  assumes "metrics_wf m" "relay_env t0 idle ps" "relay_run (relay_new cfg stall half idle m t0) ps = Some (Pending, r)"
  obtains m' where "relay_inv m' t0 ps r" "rl_half_ms r = half" "rl_idle_ms r = idle"
    "0 < half \<Longrightarrow> ep_guard (rl_ep r) ClientSide \<noteq> None"
  using relay_run_ok [OF relay_new_inv [OF assms(1)], of t0 cfg stall half idle ps] assms(2,3)
    relay_new_sel(3) [of half cfg stall idle m t0] that by (auto simp: still_relaying_def)

text \<open>A run that is not over is pending, so ruling that out shows that it ends.\<close>

lemma relay_ends:
  assumes "metrics_wf m" "relay_env t0 idle ps"
    and "\<And>r. relay_run (relay_new cfg stall half idle m t0) ps = Some (Pending, r) \<Longrightarrow> False"
  shows "\<exists>x r. relay_run (relay_new cfg stall half idle m t0) ps = Some (Ready x, r)"
proof -
  obtain out r where "relay_run (relay_new cfg stall half idle m t0) ps = Some (out, r)"
    using relay_run_ok [OF relay_new_inv [OF assms(1)], of t0 cfg stall half idle ps] assms(2) by auto
  then show ?thesis using assms(3) by (cases out) auto
qed

text \<open>The two deadlines, as bounds on the wake-ups of a relay that still runs.\<close>

lemma silent_pending:
  assumes "metrics_wf m" "relay_env t0 idle ps" "relay_run (relay_new cfg stall half idle m t0) ps = Some (Pending, r)"
    and "0 < idle" "ps \<noteq> []"
  shows "wk_now (last ps) < last_data t0 ps + from_millis idle"
proof -
  obtain m' where "relay_inv m' t0 ps r" "rl_idle_ms r = idle" using relay_pending [OF assms(1-3)] by blast
  then obtain a where a: "idle_ok t0 idle ps a" using assms(4) by (auto simp: relay_inv_def idle_inv_def)
  have "t0 \<le> last_data t0 ps" using last_data_mem [of t0 ps] assms(2) by (auto simp: relay_env_def relay_clock_def)
  moreover have "from_millis (as_millis (last_data t0 ps - t0)) \<le> last_data t0 ps - t0"
    by (simp add: from_millis_def as_millis_def)
  moreover have "from_millis (ac_last_ms a) \<le> from_millis (as_millis (last_data t0 ps - t0))"
    using a by (simp add: idle_ok_def from_millis_def)
  moreover have "wk_now (last ps) < t0 + from_millis (ac_last_ms a) + from_millis idle"
    using a activity_wake_le [of a idle] assms(5) by (simp add: idle_ok_def)
  ultimately show ?thesis by linarith
qed

lemma half_closed_pending:
  assumes "metrics_wf m" "relay_env t0 idle (xs @ q # q' # ys)" "0 < half" "list_ex hangs_up (fst (wk_transfer q))"
    and "relay_run (relay_new cfg stall half idle m t0) (xs @ q # q' # ys) = Some (Pending, r)"
  shows "wk_now (last (xs @ q # q' # ys)) < wk_now q' + from_millis half"
proof -
  from assms(5) obtain r1 r2 r3 where run: "relay_run (relay_new cfg stall half idle m t0) xs = Some (Pending, r1)"
    "relay_poll r1 q = Some (Pending, r2)" "relay_poll r2 q' = Some (Pending, r3)" "relay_run r3 ys = Some (Pending, r)"
    unfolding relay_run_pending_append relay_run_pending_Cons by blast
  have env: "relay_env t0 idle xs" "relay_env t0 idle (xs @ [q])" "relay_env t0 idle ((xs @ [q]) @ [q'])"
    "relay_env t0 idle ((xs @ [q, q']) @ ys)"
    using assms(2) relay_env_append [of t0 idle xs "q # q' # ys"] relay_env_append [of t0 idle "xs @ [q]" "q' # ys"]
      relay_env_append [of t0 idle "xs @ [q, q']" ys] by simp_all
  obtain m1 where r1: "relay_inv m1 t0 xs r1" "rl_half_ms r1 = half" "rl_idle_ms r1 = idle"
      "ep_guard (rl_ep r1) ClientSide \<noteq> None"
    using relay_pending [OF assms(1) env(1) run(1)] assms(3) by blast
  have "ep_eof (rl_ep r2)" by (rule relay_poll_pending(2) [OF r1(1) _ run(2)]) (use env(2) r1 assms(4) in simp_all)
  moreover obtain m2 where r2: "relay_inv m2 t0 (xs @ [q]) r2" "rl_half_ms r2 = half" "rl_idle_ms r2 = idle"
    using relay_poll_pending(1) [OF r1(1) _ run(2)] env(2) r1(2,3) by (auto simp: still_relaying_def)
  ultimately obtain d where d: "rl_drain r3 = HalfClosed d"
    using relay_poll_pending(3) [OF r2(1) _ run(3)] env(3) assms(3) by auto
  obtain m3 where r3: "relay_inv m3 t0 (xs @ [q, q']) r3" "rl_half_ms r3 = half" "rl_idle_ms r3 = idle"
    using relay_poll_pending(1) [OF r2(1) _ run(3)] env(3) r2(2,3) by (auto simp: still_relaying_def)
  have "still_relaying t0 ((xs @ [q, q']) @ ys) r3 r"
    using relay_run_ok [OF r3(1), of ys] env(4) r3(3) run(4) by simp
  then have "wk_now (last (xs @ q # q' # ys)) < d"
    using d by (auto simp: still_relaying_def relay_inv_def drain_inv_def)
  moreover obtain p where "p \<in> set (xs @ [q, q'])" "d = wk_now p + from_millis half"
    using r3(1,2) d by (auto simp only: relay_inv_def drain_inv_def)
  moreover have "\<forall>p \<in> set (xs @ [q, q']). wk_now p \<le> wk_now q'"
    using env(3) by (auto simp: relay_env_def relay_clock_def sorted_append)
  ultimately show ?thesis by force
qed

section \<open>Properties\<close>



text \<open>
  C32: A half-closed connection is cut: once a stream has ended, no relay is left running
  \<^verbatim>\<open>half_close_ms\<close> after the next wake-up, however much the other direction still sends.
\<close>

theorem half_close_cut:
  assumes "metrics_wf m" "relay_env t0 idle (xs @ q # q' # ys)" "0 < half" "list_ex hangs_up (fst (wk_transfer q))"
    and "wk_now q' + from_millis half \<le> wk_now (last (xs @ q # q' # ys))"
  shows "\<exists>x r. relay_run (relay_new cfg stall half idle m t0) (xs @ q # q' # ys) = Some (Ready x, r)"
  using half_closed_pending [OF assms(1-4), of cfg stall] assms(5) by (intro relay_ends [OF assms(1,2)]) fastforce

theorem half_close_cut_witness:
  "let q = \<lparr>wk_idle_first = False, wk_eof_first = True, wk_transfer = ([ReadCall ClientSide 8 (Ready (Inr []))], None),
         wk_again = ([], None), wk_now = 6, wk_met = metrics_new\<rparr>;
       p = (\<lambda>t. \<lparr>wk_idle_first = False, wk_eof_first = True, wk_transfer = ([ReadCall ServerSide 8 (Ready (Inr [2]))], None),
         wk_again = ([], None), wk_now = t, wk_met = metrics_new\<rparr>) in
   \<exists>x r. relay_run (relay_new \<lparr>bytes_per_second = 0, burst_bytes = 0, enforce = False\<rparr> 0 1 0 metrics_new 5)
     ([] @ q # p 7 # [p 8, p 1000007]) = Some (Ready x, r)"
  unfolding Let_def
  by (rule half_close_cut) (simp_all add: relay_env_def relay_clock_def wk_calls_def as_millis_def from_millis_def)

end
