(* ===== verification/Text.thy ===== *)
theory Text
  imports Prelude
begin

text \<open>
  Decimal text: how the gate and the controller print integers, and how it reads back.
\<close>

text \<open>\<^verbatim>\<open>to_string\<close> of a non-negative integer.\<close>

function decimal :: "nat \<Rightarrow> bytes" where
  "decimal n = (if n < 10 then [of_nat (48 + n)] else decimal (n div 10) @ [of_nat (48 + n mod 10)])"
  by pat_completeness auto
termination
  by (relation "measure id") auto

declare decimal.simps [simp del]

lemma decimal_length: "n < 10 ^ Suc k \<Longrightarrow> length (decimal n) \<le> Suc k"
proof (induction k arbitrary: n)
  case 0
  then show ?case by (simp add: decimal.simps [of n])
next
  case (Suc k)
  then have "n div 10 < 10 ^ Suc k" by (simp add: div_less_iff_less_mult)
  from Suc.IH [OF this] show ?case by (simp add: decimal.simps [of n])
qed

text \<open>The same as characters.\<close>

definition to_text :: "nat \<Rightarrow> string" where
  "to_text n = map (\<lambda>b. char_of (unat b)) (decimal n)"

definition text_nat :: "string \<Rightarrow> nat" where
  "text_nat = foldl (\<lambda>n c. 10 * n + (of_char c - 48)) 0"

lemma to_text_rec: "to_text n = (if n < 10 then [char_of (48 + n)] else to_text (n div 10) @ [char_of (48 + n mod 10)])"
proof -
  have digit: "unat (of_nat (48 + d) :: byte) = 48 + d" if "d < 10" for d using that by (simp add: unat_of_nat del: of_nat_add)
  show ?thesis unfolding to_text_def by (subst decimal.simps) (simp add: digit del: of_nat_add)
qed

lemma to_text_induct [case_names digit more]:
  assumes "\<And>d. d < 10 \<Longrightarrow> P d [char_of (48 + d)]"
    and "\<And>n d s. 0 < n \<Longrightarrow> d < 10 \<Longrightarrow> P n s \<Longrightarrow> P (10 * n + d) (s @ [char_of (48 + d)])"
  shows "P n (to_text n)"
proof (induction n rule: less_induct)
  case (less n)
  show ?case
  proof (cases "n < 10")
    case True
    then show ?thesis using assms(1) by (simp add: to_text_rec [of n])
  next
    case False
    then have "P (10 * (n div 10) + n mod 10) (to_text (n div 10) @ [char_of (48 + n mod 10)])"
      by (intro assms(2) less.IH) auto
    then show ?thesis using False by (simp add: to_text_rec [of n])
  qed
qed

lemma to_text_digits: "set (to_text n) \<subseteq> char_of ` {48..57 :: nat}"
  by (rule to_text_induct [of "\<lambda>_ s. set s \<subseteq> char_of ` {48..57 :: nat}"]) auto

text \<open>Decimal text reads back as its number.\<close>

lemma text_nat_to_text [simp]: "text_nat (to_text n) = n"
  by (rule to_text_induct [of "\<lambda>n s. text_nat s = n"]) (auto simp: text_nat_def take_bit_nat_eq_self)

lemma to_text_no_separator: "CHR 0x0A \<notin> set (to_text n)" "CHR '' '' \<notin> set (to_text n)"
proof -
  have "of_char (CHR 0x0A) \<notin> {48..57 :: nat}" "of_char (CHR '' '') \<notin> {48..57 :: nat}" by simp_all
  moreover have "of_char c \<in> {48..57 :: nat}" if "c \<in> set (to_text n)" for c
    using to_text_digits [of n] that by (auto simp: of_char_of take_bit_nat_eq_self)
  ultimately show "CHR 0x0A \<notin> set (to_text n)" "CHR '' '' \<notin> set (to_text n)" by blast+
qed

end
