(* ===== verification/Cache.thy ===== *)
theory Cache
  imports Framing Packets Proxy_V2 Metrics Text
begin

text \<open>
  cache.rs: the status cache. A JSON status is prepared once (the framed original and,
  where it has a version object, the text around the protocol number), rendered per
  client version without touching JSON, and refreshed by one task that polls the
  backend. serde_json is the parameter \<open>js\<close>; the sender of PROXY headers of this file is
  in theory Proxy_V2.
\<close>

section \<open>Operations\<close>

text \<open>
  The serde_json operations in use: \<^verbatim>\<open>to_vec\<close> of a value and of a key, \<^verbatim>\<open>as_object\<close> (members
  in the map's order) and \<^verbatim>\<open>from_str\<close>.
\<close>

record 'j json_ops =
  js_to_vec :: "'j \<Rightarrow> bytes option"
  js_key_to_vec :: "bytes \<Rightarrow> bytes option"
  js_as_object :: "'j \<Rightarrow> (bytes \<times> 'j) list option"
  js_from_str :: "bytes \<Rightarrow> 'j option"

text \<open>The keys \<^verbatim>\<open>version\<close> and \<^verbatim>\<open>protocol\<close>, and the text up to the protocol number.\<close>

definition key_version :: bytes where
  "key_version = [118, 101, 114, 115, 105, 111, 110]"

definition key_protocol :: bytes where
  "key_protocol = [112, 114, 111, 116, 111, 99, 111, 108]"

definition status_prefix :: bytes where
  "status_prefix = [123, 34] @ key_version @ [34, 58, 123, 34] @ key_protocol @ [34, 58]"

function varint_size :: "usize \<Rightarrow> usize" where
  "varint_size n = (if n \<ge> 128 then 1 + varint_size (drop_bit 7 n) else 1)"
  by pat_completeness auto
termination
  by (relation "measure id") (auto simp: drop_bit_eq_div)

declare varint_size.simps [simp del]

definition wire_size :: "usize \<Rightarrow> usize option" where
  "wire_size json_len =
     Option.bind (checked_add json_len (varint_size json_len)) (\<lambda>b.
     Option.bind (checked_add b 1) (\<lambda>body_len. checked_add body_len (varint_size body_len)))"

definition status_frame :: "bytes \<Rightarrow> bytes" where
  "status_frame text = frame (put_varint (of_nat (length text)) [0] @ text)"

record prepared =
  pp_original :: bytes
  pp_parts :: "(bytes \<times> bytes) option"

text \<open>The loops of \<^verbatim>\<open>new\<close>: \<^verbatim>\<open>,key:value\<close> for every member but one.\<close>

fun json_members :: "'j json_ops \<Rightarrow> bytes \<Rightarrow> (bytes \<times> 'j) list \<Rightarrow> bytes option" where
  "json_members js skip [] = Some []"
| "json_members js skip ((key, val) # ms) =
     (if key = skip then json_members js skip ms
      else Option.bind (js_key_to_vec js key) (\<lambda>k. Option.bind (js_to_vec js val) (\<lambda>v.
        map_option (\<lambda>rest. 44 # k @ 58 # v @ rest) (json_members js skip ms))))"

definition version_object :: "'j json_ops \<Rightarrow> 'j \<Rightarrow> (bytes \<times> 'j) list option" where
  "version_object js value =
     Option.bind (js_as_object js value) (\<lambda>ms. Option.bind (map_of ms key_version) (js_as_object js))"

definition prepared_new :: "'j json_ops \<Rightarrow> 'j \<Rightarrow> usize \<Rightarrow> prepared option" where
  "prepared_new js value max_len =
     Option.bind (js_to_vec js value) (\<lambda>text.
     Option.bind (wire_size (length text)) (\<lambda>size.
       if size > max_len then None
       else case version_object js value of
         None \<Rightarrow> Some \<lparr>pp_original = status_frame text, pp_parts = None\<rparr>
       | Some version \<Rightarrow>
           Option.bind (json_members js key_protocol version) (\<lambda>inner.
           Option.bind (js_as_object js value) (\<lambda>members.
           Option.bind (json_members js key_version members) (\<lambda>outer.
             let suffix = inner @ [125] @ outer @ [125] in
             Option.bind (checked_add (length status_prefix) 10) (\<lambda>a.
             Option.bind (checked_add a (length suffix)) (\<lambda>b.
             Option.bind (wire_size b) (\<lambda>size.
               if size > max_len then None
               else Some \<lparr>pp_original = status_frame text, pp_parts = Some (status_prefix, suffix)\<rparr>))))))))"

definition prepared_render :: "prepared \<Rightarrow> i32 \<Rightarrow> bytes" where
  "prepared_render p version =
     (if sint version < 0 then pp_original p
      else case pp_parts p of
        None \<Rightarrow> pp_original p
      | Some (prefix, suffix) \<Rightarrow>
          let number = decimal (unat version); len = length prefix + length number + length suffix
          in frame (put_varint (of_nat len) [0] @ prefix @ number @ suffix))"

definition valid_status :: "'j json_ops \<Rightarrow> 'j \<Rightarrow> usize \<Rightarrow> bool" where
  "valid_status js value max_len \<longleftrightarrow> prepared_new js value max_len \<noteq> None"

record cached =
  cc_value :: prepared
  cc_at :: instant

record status_cache =
  sc_value :: "cached option"
  sc_fallback :: prepared
  sc_ttl :: duration

text \<open>\<^verbatim>\<open>expect\<close> panics on a fallback that does not prepare; validation rules it out.\<close>

definition status_cache_new :: "'j json_ops \<Rightarrow> 'j cache_cfg \<Rightarrow> status_cache option" where
  "status_cache_new js c = map_option
     (\<lambda>fallback. \<lparr>sc_value = None, sc_fallback = fallback, sc_ttl = from_secs (ca_ttl_seconds c)\<rparr>)
     (prepared_new js (ca_fallback c) (ca_max_response_bytes c))"

definition status_cache_get :: "status_cache \<Rightarrow> metrics \<Rightarrow> i32 \<Rightarrow> instant \<Rightarrow> bytes \<times> metrics" where
  "status_cache_get s m requested now =
     (case sc_value s of
        Some c \<Rightarrow>
          if now - cc_at c < sc_ttl s then (prepared_render (cc_value c) requested, m)
          else (prepared_render (sc_fallback s) requested, metrics_inc m 24)
      | None \<Rightarrow> (prepared_render (sc_fallback s) requested, metrics_inc m 24))"

text \<open>What \<^verbatim>\<open>poll\<close> makes of the backend's frame; every error of the source is \<open>None\<close> here.\<close>

definition poll_body :: "'j json_ops \<Rightarrow> usize \<Rightarrow> bytes \<Rightarrow> prepared option" where
  "poll_body js max_len body =
     (case cursor_int (cursor_new body) of
        Inl _ \<Rightarrow> None
      | Inr (n, c) \<Rightarrow> if n \<noteq> 0 then None
          else case cursor_string max_len c of
            Inl _ \<Rightarrow> None
          | Inr (text, c) \<Rightarrow> (case js_from_str js text of
              None \<Rightarrow> None
            | Some value \<Rightarrow> if js_as_object js value = None then None
                else if cursor_finish c \<noteq> Inr () then None
                else prepared_new js value max_len))"

text \<open>
  \<^verbatim>\<open>poll\<close> after its requests are written: read one frame within the response limit and
  the backend deadline.
\<close>

definition cache_poll :: "'j json_ops \<Rightarrow> 'w reader_ops \<Rightarrow> usize \<Rightarrow> duration \<Rightarrow> instant \<Rightarrow> 'w \<Rightarrow> prepared option \<times> 'w" where
  "cache_poll js ops max_len limit now w =
     (case read_frame ops max_len (max_len + 5) (now + limit) limit limit w of
        (Inl _, _, w) \<Rightarrow> (None, w)
      | (Inr f, _, w) \<Rightarrow> (poll_body js max_len (frame_body f), w))"

text \<open>
  One turn of \<^verbatim>\<open>refresh\<close> in two parts. Before the poll: \<open>permits\<close> are the free socket
  permits; a permit and the gauge are held while the poll is under way, or the turn ends
  as a failure. After it: \<open>polled\<close> is the result of the poll if it finished in time.
\<close>

definition refresh_begin :: "metrics \<Rightarrow> nat \<Rightarrow> bool \<times> metrics" where
  "refresh_begin m permits =
     (if permits = 0 then (False, metrics_inc m 23) else (True, metrics_inc (gauge_new m 3) 31))"

definition refresh_end :: "status_cache \<Rightarrow> metrics \<Rightarrow> prepared option \<Rightarrow> instant \<Rightarrow> status_cache \<times> metrics" where
  "refresh_end s m polled now =
     (case polled of
        Some v \<Rightarrow> (s\<lparr>sc_value := Some \<lparr>cc_value = v, cc_at = now\<rparr>\<rparr>, gauge_drop m 3)
      | None \<Rightarrow> (s, gauge_drop (metrics_inc m 23) 3))"

text \<open>What \<^verbatim>\<open>poll\<close> writes once it is connected: the PROXY header when configured, the handshake, the request.\<close>

definition poll_request :: "('a, 'b, 'j) config \<Rightarrow> socket_addr \<Rightarrow> bytes option" where
  "poll_request c local =
     (let request = status_handshake (ca_host (cfg_cache c)) (ca_port (cfg_cache c)) (ca_protocol (cfg_cache c)) @ [1, 0] in
      if cfg_proxy_v2 c then map_option (\<lambda>h. h @ request) (proxy_header local (cfg_backend c)) else Some request)"

section \<open>Sizes\<close>

lemma varint_size_mono: "m \<le> n \<Longrightarrow> varint_size m \<le> varint_size n"
proof (induction n arbitrary: m rule: less_induct)
  case (less n)
  show ?case
  proof (cases "128 \<le> m")
    case True
    then have "varint_size (drop_bit 7 m) \<le> varint_size (drop_bit 7 n)"
      using less by (intro less.IH) (auto simp: drop_bit_eq_div div_le_mono)
    then show ?thesis using True less.prems by (simp add: varint_size.simps [of m] varint_size.simps [of n])
  qed (simp add: varint_size.simps [of m] varint_size.simps [of n])
qed

lemma length_put_varint_size: "n < 2 ^ 32 \<Longrightarrow> length (put_varint_loop (of_nat n)) = varint_size n"
proof (induction n rule: less_induct)
  case (less n)
  have u: "unat (of_nat n :: u32) = n" using less.prems by (simp add: unsigned_of_nat take_bit_nat_eq_self)
  show ?case
  proof (cases "n < 128")
    case True
    then have "drop_bit 7 (of_nat n :: u32) = 0" using u by (simp add: drop_bit_zero_iff)
    then show ?thesis using True by (simp add: put_varint_loop_last varint_size.simps)
  next
    case False
    then have "drop_bit 7 (of_nat n :: u32) \<noteq> 0" using u by (simp add: drop_bit_zero_iff)
    moreover have "drop_bit 7 (of_nat n :: u32) = of_nat (drop_bit 7 n)"
    proof -
      have "drop_bit 7 (of_nat n :: u32) = of_nat (unat (drop_bit 7 (of_nat n :: u32)))" by simp
      also have "\<dots> = of_nat (drop_bit 7 n)" unfolding unat_drop_bit_eq u ..
      finally show ?thesis .
    qed
    moreover have "drop_bit 7 n < n" "drop_bit 7 n < 2 ^ 32"
      using False less.prems by (simp_all add: drop_bit_eq_div)
    ultimately show ?thesis
      using False less.IH [of "drop_bit 7 n"] by (simp add: put_varint_loop_more varint_size.simps [of n])
  qed
qed

lemma varint_size_le5: "n < 2 ^ 32 \<Longrightarrow> varint_size n \<le> 5"
  using length_put_varint_le5 [of "of_nat n"] length_put_varint_size by simp

lemma frame_length: "length body < 2 ^ 32 \<Longrightarrow> length (frame body) = length body + varint_size (length body)"
  by (simp add: frame_def put_varint_def length_put_varint_size)

lemma status_frame_length:
  assumes "length text < 2 ^ 31"
  shows "wire_size (length text) = Some (length (status_frame text))"
proof -
  let ?n = "length text"
  let ?b = "?n + varint_size ?n + 1"
  have s: "varint_size ?n \<le> 5" "varint_size ?b \<le> 5" if "?n < 2 ^ 31"
    using that varint_size_le5 [of ?n] varint_size_le5 [of ?b] by auto
  have "length (put_varint (of_nat ?n) [0] @ text) = ?b"
    using assms length_put_varint_size [of ?n] by (simp add: put_varint_def)
  moreover have "?b < 2 ^ 32" using s assms by simp
  ultimately have "length (status_frame text) = ?b + varint_size ?b"
    unfolding status_frame_def by (metis frame_length)
  then show ?thesis using s [OF assms] assms by (simp add: wire_size_def checked_add_def)
qed

lemma wire_size_mono:
  assumes "wire_size n = Some s" "m \<le> n"
  shows "\<exists>r. wire_size m = Some r \<and> r \<le> s"
proof -
  have v: "varint_size m \<le> varint_size n" using assms(2) by (rule varint_size_mono)
  then have b: "varint_size (m + varint_size m + 1) \<le> varint_size (n + varint_size n + 1)"
    using assms(2) by (intro varint_size_mono) simp
  show ?thesis
    using assms v b by (auto simp: wire_size_def checked_add_def bind_eq_Some_conv split: if_splits)
qed

lemma wire_size_ge: "wire_size n = Some s \<Longrightarrow> n \<le> s"
  by (auto simp: wire_size_def bind_eq_Some_conv)

text \<open>A rendered response is the framed text around the number.\<close>

lemma render_parts:
  assumes "pp_parts p = Some (prefix, suffix)" "0 \<le> sint version"
  shows "prepared_render p version = status_frame (prefix @ decimal (unat version) @ suffix)"
  using assms by (simp add: prepared_render_def status_frame_def Let_def add.assoc)

lemma nonneg_i32: "0 \<le> sint (v :: i32) \<Longrightarrow> unat v < 2 ^ 31"
proof -
  assume v: "0 \<le> sint v"
  have lt: "sint v < 2 ^ 31" using sint_less [of v] by simp
  then have "uint v = sint v" using v by (simp add: uint_sint take_bit_int_eq_self)
  then have "int (unat v) < int (2 ^ 31)" using lt by simp
  then show ?thesis by (simp only: of_nat_less_iff)
qed

section \<open>Responses\<close>

lemma render_bounded:
  assumes p: "prepared_new js value max_len = Some p" and m: "max_len < 2 ^ 31"
  shows "length (prepared_render p version) \<le> max_len"
proof -
  obtain tx size where t: "js_to_vec js value = Some tx" "wire_size (length tx) = Some size" "size \<le> max_len"
    and orig: "pp_original p = status_frame tx"
    using p by (auto simp: prepared_new_def bind_eq_Some_conv Let_def split: if_splits option.splits)
  have o: "length (pp_original p) \<le> max_len"
    using t m wire_size_ge [OF t(2)] status_frame_length [of tx] orig by simp
  show ?thesis
  proof (cases "0 \<le> sint version \<and> pp_parts p \<noteq> None")
    case True
    then obtain prefix suffix where ps: "pp_parts p = Some (prefix, suffix)" by auto
    then obtain s where s: "wire_size (length prefix + 10 + length suffix) = Some s" "s \<le> max_len"
      using p by (auto simp: prepared_new_def bind_eq_Some_conv Let_def split: if_splits option.splits)
    let ?text = "prefix @ decimal (unat version) @ suffix"
    have "unat version < 2 ^ 31" using True nonneg_i32 by blast
    then have "length (decimal (unat version)) \<le> 10" using decimal_length [of "unat version" 9] by simp
    then have "length ?text \<le> length prefix + 10 + length suffix" by simp
    with wire_size_mono [OF s(1)] obtain r where r: "wire_size (length ?text) = Some r" "r \<le> s" by blast
    have "length ?text < 2 ^ 31" using wire_size_ge [OF r(1)] r(2) s(2) m by linarith
    then show ?thesis using status_frame_length [of ?text] r s(2) True ps by (simp add: render_parts)
  next
    case False
    then have "prepared_render p version = pp_original p" by (auto simp: prepared_render_def split: option.split)
    with o show ?thesis by simp
  qed
qed

lemma poll_body_status:
  assumes "utf8_valid text" "length text \<le> max_len" "max_len < 2 ^ 31"
    and "js_from_str js text = Some value" "js_as_object js value \<noteq> None"
  shows "poll_body js max_len (put_varint (of_nat (length text)) [0] @ text) = prepared_new js value max_len"
proof -
  have "put_varint (of_nat (length text)) [0] @ text = 0 # put_varint_loop (of_nat (length text)) @ text @ []"
    by (simp add: put_varint_def)
  then show ?thesis
    using assms cursor_string_at [of "text" max_len "[0]" "[]"]
    by (auto simp: poll_body_def cursor_new_at)
qed

section \<open>The cache as a state machine\<close>

inductive cache_step :: "'j json_ops \<Rightarrow> usize \<Rightarrow> status_cache \<Rightarrow> status_cache \<Rightarrow> bool"
  for js :: "'j json_ops" and max_len :: usize where
  cache_refreshed: "\<lbrakk>polled = None \<or> (\<exists>body. polled = poll_body js max_len body); refresh_end s m polled now = (s', m')\<rbrakk>
    \<Longrightarrow> cache_step js max_len s s'"

abbreviation cache_reachable :: "'j json_ops \<Rightarrow> 'j cache_cfg \<Rightarrow> status_cache \<Rightarrow> bool" where
  "cache_reachable js c \<equiv> reachable (\<lambda>s. status_cache_new js c = Some s) (cache_step js (ca_max_response_bytes c))"

definition fits :: "usize \<Rightarrow> prepared \<Rightarrow> bool" where
  "fits max_len p \<longleftrightarrow> (\<forall>version. length (prepared_render p version) \<le> max_len)"

lemma poll_body_fits: "poll_body js max_len body = Some p \<Longrightarrow> max_len < 2 ^ 31 \<Longrightarrow> fits max_len p"
  unfolding fits_def
  by (auto simp: poll_body_def split: sum.splits if_splits option.splits prod.splits intro: render_bounded)

lemma cache_inv:
  assumes "cache_reachable js c s" "ca_max_response_bytes c < 2 ^ 31"
  shows "fits (ca_max_response_bytes c) (sc_fallback s) \<and>
    (\<forall>x. sc_value s = Some x \<longrightarrow> fits (ca_max_response_bytes c) (cc_value x)) \<and> sc_ttl s = from_secs (ca_ttl_seconds c)"
  using assms(1)
proof (induction rule: reachable.induct)
  case (reach_init s)
  then show ?case using assms(2) by (auto simp: status_cache_new_def fits_def intro: render_bounded)
next
  case (reach_step s s')
  from reach_step.hyps(2) show ?case
  proof cases
    case (cache_refreshed polled m now m')
    then show ?thesis
      using reach_step.IH poll_body_fits [OF sym assms(2)]
      by (auto simp: refresh_end_def split: option.splits)
  qed
qed

section \<open>Properties\<close>

text \<open>
  The size check is exact: \<^verbatim>\<open>wire_size\<close> of a JSON text is the length of the frame that
  \<^verbatim>\<open>status_frame\<close> builds around it, with both VarInt lengths and the packet id.
\<close>

lemma wire_size_exact:
  assumes "length text < 2 ^ 31"
  shows "wire_size (length text) = Some (length (status_frame text))"
  using assms by (rule status_frame_length)

text \<open>
  C36: No status response exceeds \<^verbatim>\<open>max_response_bytes\<close>: whatever the backend sends and
  whatever protocol version a client asks for, what the cache serves (the polled status
  while it is younger than the time to live, else the validated fallback) fits the limit.
\<close>

theorem status_response_bounded:
  assumes "cache_reachable js c s" "ca_max_response_bytes c < 2 ^ 31" "0 < ca_ttl_seconds c"
  shows "length (fst (status_cache_get s m version now)) \<le> ca_max_response_bytes c \<and>
    fst (status_cache_get s m version now) = prepared_render
      (case sc_value s of
         Some x \<Rightarrow> if now < cc_at x + from_secs (ca_ttl_seconds c) then cc_value x else sc_fallback s
       | None \<Rightarrow> sc_fallback s) version"
proof -
  note inv = cache_inv [OF assms(1,2)]
  have "now - t < d \<longleftrightarrow> now < t + d \<and> 0 < d" for t d :: nat by auto
  then show ?thesis
    using inv assms(3) by (auto simp: status_cache_get_def fits_def from_secs_def split: option.split)
qed

text \<open>A minimal JSON library: the only value is the empty object.\<close>

definition empty_json :: "unit json_ops" where
  "empty_json = \<lparr>js_to_vec = \<lambda>_. Some [123, 125], js_key_to_vec = Some, js_as_object = \<lambda>_. Some [], js_from_str = \<lambda>_. Some ()\<rparr>"

lemma empty_prepared:
  "prepared_new empty_json () 256 = Some \<lparr>pp_original = status_frame [123, 125], pp_parts = None\<rparr>"
  by (simp add: prepared_new_def empty_json_def wire_size_def checked_add_def varint_size.simps version_object_def)

theorem status_response_bounded_witness:
  "\<exists>s. length (fst (status_cache_get s metrics_new 770 9)) \<le> 256"
proof -
  let ?c = "\<lparr>ca_host = [], ca_port = 1, ca_protocol = 770, ca_ttl_seconds = 5, ca_max_response_bytes = 256, ca_fallback = ()\<rparr>"
  obtain s where "status_cache_new empty_json ?c = Some s"
    by (simp add: status_cache_new_def empty_prepared)
  then have "cache_reachable empty_json ?c s" by (intro reach_init)
  from status_response_bounded [OF this, of metrics_new 770 9] show ?thesis by auto
qed

text \<open>
  A healthy backend is cached: when the backend answers a poll promptly with a framed
  status text that is valid UTF-8 and parses to a JSON object whose preparation fits the
  limit, the poll succeeds with exactly that preparation, however the stream is split,
  and consumes nothing beyond the frame.
\<close>

theorem cache_poll_accepts:
  assumes "prompt_source ops pending limit'" "limit' \<le> now + limit"
    and "pending w = status_frame text @ rest" "utf8_valid text"
    and "js_from_str js text = Some value" "js_as_object js value \<noteq> None"
    and "prepared_new js value max_len = Some p"
    and "length (status_frame text) \<le> max_len" "max_len < 2 ^ 21"
  shows "\<exists>w'. cache_poll js ops max_len limit now w = (Some p, w') \<and> pending w' = rest"
proof -
  let ?body = "put_varint (of_nat (length text)) [0] @ text"
  have len: "length ?body \<le> length (status_frame text)" by (simp add: status_frame_def frame_def)
  have nz: "0 < length ?body" by (simp add: put_varint_def)
  have "length ?body < 2 ^ 21" "length ?body \<le> max_len" "length (frame ?body) \<le> max_len + 5"
    using len assms(8,9) by (simp_all add: status_frame_def)
  from prompt_source.read_frame_prompt [OF assms(1,2) nz this(1,2) assms(3) [unfolded status_frame_def] this(3), of limit limit]
  obtain f w' where f: "read_frame ops max_len (max_len + 5) (now + limit) limit limit w =
      (Inr f, max_len + 5 - length (frame ?body), w')" "frame_body f = ?body" "pending w' = rest" by blast
  have "poll_body js max_len ?body = Some p"
    using poll_body_status [OF assms(4) _ _ assms(5,6), of max_len] assms(7) \<open>length ?body \<le> max_len\<close> assms(9) by simp
  with f show ?thesis by (simp add: cache_poll_def)
qed

theorem cache_poll_accepts_witness:
  "\<exists>w'. cache_poll empty_json mem_ops 256 7 5 (status_frame [123, 125] @ [9], [3]) =
     (Some \<lparr>pp_original = status_frame [123, 125], pp_parts = None\<rparr>, w') \<and> fst w' = [9]"
proof -
  have "utf8_valid [123, 125]" by (simp add: utf8_valid_ascii)
  moreover have "length (status_frame [123, 125]) \<le> 256"
    by (simp add: status_frame_def frame_def put_varint_def put_varint_loop.simps)
  ultimately show ?thesis
    by (intro cache_poll_accepts [OF mem.prompt_source_axioms _ _ _ _ _ _ _ _, of 5 7 _ "[123, 125]" "[9]" _ "()"])
      (simp_all add: empty_prepared, simp_all add: empty_json_def)
qed

end
