(* ===== verification/Metrics_Http.thy ===== *)
theory Metrics_Http
  imports Cache Float64 "HOL-Library.Sublist"
begin

text \<open>
  metrics.rs, \<^verbatim>\<open>render\<close> and \<^verbatim>\<open>serve\<close>: the text exposition of the counters and the small HTTP
  endpoint that serves it. Text is \<^typ>\<open>string\<close>, one character per byte. The formatting of a
  float is the standard library's: \<open>show_f64\<close> is a parameter. The reads of a request are an
  argument; an exhausted list of reads is the two-second timeout.
\<close>

section \<open>Rendering\<close>

definition newline :: string where
  "newline = [CHR 0x0A]"

definition gauge_indexes :: "nat list" where
  "gauge_indexes = [1, 2, 3, 30, 32, 33, 34, 35, 36, 42]"

definition render_metric :: "metrics \<Rightarrow> nat \<times> string \<Rightarrow> string" where
  "render_metric m = (\<lambda>(i, name).
     let kind = (if i \<in> set gauge_indexes then ''gauge'' else ''counter'')
     in ''# TYPE xddp_gate_'' @ name @ '' '' @ kind @ newline @
        ''xddp_gate_'' @ name @ '' '' @ to_text (unat (metrics_get m i)) @ newline)"

definition average_prelogin :: "metrics \<Rightarrow> f64" where
  "average_prelogin m =
     (let count = unat (metrics_get m 19) in
      if count = 0 then 0 else f64_of_nat (unat (metrics_get m 18)) / f64_of_nat count / f64_of_nat 1000000)"

definition render :: "(f64 \<Rightarrow> string) \<Rightarrow> metrics \<Rightarrow> string" where
  "render show_f64 m =
     concat (map (render_metric m) (enumerate 0 metric_names)) @
     ''xddp_gate_average_prelogin_duration_seconds '' @ show_f64 (average_prelogin m) @ newline"

section \<open>The endpoint\<close>

datatype http_read = Got string | HttpFailed

definition windows :: "nat \<Rightarrow> string \<Rightarrow> string list" where
  "windows n s = map (\<lambda>i. take n (drop i s)) [0..<length s + 1 - n]"

definition blank_line :: string where
  "blank_line = [CHR 0x0D, CHR 0x0A, CHR 0x0D, CHR 0x0A]"

definition request_ended :: "string \<Rightarrow> bool" where
  "request_ended s \<longleftrightarrow> blank_line \<in> set (windows 4 s)"

definition request_capacity :: usize where
  "request_capacity = 2048"

text \<open>The loop of a request: \<open>None\<close> is a connection that is dropped without an answer.\<close>

fun http_request :: "string \<Rightarrow> http_read list \<Rightarrow> string option" where
  "http_request used [] = None"
| "http_request used (HttpFailed # rs) = None"
| "http_request used (Got chunk # rs) =
     (if length used = request_capacity then None
      else if chunk = [] then None
      else let used = used @ chunk in if request_ended used then Some used else http_request used rs)"

definition metrics_request :: string where
  "metrics_request = ''GET /metrics HTTP/1.''"

definition http_response :: "(f64 \<Rightarrow> string) \<Rightarrow> metrics \<Rightarrow> string \<Rightarrow> string" where
  "http_response show_f64 m request =
     (let ok = prefix metrics_request request;
          body = (if ok then render show_f64 m else ''not found'' @ newline);
          status = (if ok then ''200 OK'' else ''404 Not Found'');
          crlf = [CHR 0x0D, CHR 0x0A]
      in ''HTTP/1.1 '' @ status @ crlf @ ''Content-Type: text/plain; version=0.0.4'' @ crlf @
         ''Content-Length: '' @ to_text (length body) @ crlf @ ''Connection: close'' @ crlf @ crlf @ body)"

definition http_answer :: "(f64 \<Rightarrow> string) \<Rightarrow> metrics \<Rightarrow> http_read list \<Rightarrow> string option" where
  "http_answer show_f64 m rs = map_option (http_response show_f64 m) (http_request [] rs)"

text \<open>The accept loop: a connection takes one of eight slots or is dropped; its end gives it back.\<close>

definition http_slots :: nat where
  "http_slots = 8"

definition http_accept :: "nat \<Rightarrow> (bool \<times> nat)" where
  "http_accept slots = (if slots = 0 then (False, slots) else (True, slots - 1))"

definition http_done :: "nat \<Rightarrow> nat" where
  "http_done slots = slots + 1"

text \<open>The slots that are free and the requests that are being served.\<close>

inductive http_step :: "nat \<times> nat \<Rightarrow> nat \<times> nat \<Rightarrow> bool" where
  http_served: "http_accept slots = (True, slots') \<Longrightarrow> http_step (slots, active) (slots', active + 1)"
| http_dropped: "http_accept slots = (False, slots') \<Longrightarrow> http_step (slots, active) (slots', active)"
| http_finished: "http_step (slots, active + 1) (http_done slots, active)"

interpretation http: invariant_system "\<lambda>s. s = (http_slots, 0)" http_step "\<lambda>(slots, active). slots + active = http_slots"
  by unfold_locales (auto simp: http_accept_def http_done_def elim!: http_step.cases split: if_splits)

lemma http_at_most_eight: "reachable (\<lambda>s. s = (http_slots, 0)) http_step (slots, active) \<Longrightarrow> active \<le> 8"
  using http.always [of "(slots, active)"] by (simp add: http_slots_def)

section \<open>Reading it back\<close>

fun lines :: "string \<Rightarrow> string list" where
  "lines [] = []"
| "lines (c # s) = (if c = CHR 0x0A then [] # lines s else case lines s of [] \<Rightarrow> [[c]] | l # ls \<Rightarrow> (c # l) # ls)"

text \<open>A sample line is a name, a space and a value; the others are comments.\<close>

definition sample :: "string \<Rightarrow> (string \<times> string) option" where
  "sample l = (if prefix ''#'' l then None
     else Some (takeWhile (\<lambda>c. c \<noteq> CHR '' '') l, tl (dropWhile (\<lambda>c. c \<noteq> CHR '' '') l)))"

definition samples :: "string \<Rightarrow> (string \<times> string) list" where
  "samples text = List.map_filter sample (lines text)"

lemma lines_append: "CHR 0x0A \<notin> set l \<Longrightarrow> lines (l @ CHR 0x0A # s) = l # lines s"
  by (induction l) auto

lemma sample_line:
  assumes "CHR '' '' \<notin> set name" "\<not> prefix ''#'' name" "name \<noteq> []"
  shows "sample (name @ '' '' @ value) = Some (name, value)"
proof -
  have "takeWhile (\<lambda>c. c \<noteq> CHR '' '') (name @ '' '' @ value) = name"
    "dropWhile (\<lambda>c. c \<noteq> CHR '' '') (name @ '' '' @ value) = '' '' @ value"
    using assms(1) by (induction name; auto)+
  moreover have "\<not> prefix ''#'' (name @ '' '' @ value)" using assms(2,3) by (cases name) auto
  ultimately show ?thesis by (simp add: sample_def)
qed

lemma metric_names_plain: "name \<in> set metric_names \<Longrightarrow> CHR 0x0A \<notin> set name \<and> CHR '' '' \<notin> set name"
proof -
  have "list_all (\<lambda>name. CHR 0x0A \<notin> set name \<and> CHR '' '' \<notin> set name) metric_names" by code_simp
  then show "name \<in> set metric_names \<Longrightarrow> CHR 0x0A \<notin> set name \<and> CHR '' '' \<notin> set name" by (simp add: list_all_iff)
qed

lemma metric_names_distinct: "distinct metric_names"
  by code_simp

lemma samples_metric:
  assumes "CHR 0x0A \<notin> set name" "CHR '' '' \<notin> set name"
  shows "samples (render_metric m (i, name) @ rest) =
    (''xddp_gate_'' @ name, to_text (unat (metrics_get m i))) # samples rest"
proof -
  let ?kind = "if i \<in> set gauge_indexes then ''gauge'' else ''counter''"
  have "lines (render_metric m (i, name) @ rest) = (''# TYPE xddp_gate_'' @ name @ '' '' @ ?kind) #
      ((''xddp_gate_'' @ name) @ '' '' @ to_text (unat (metrics_get m i))) # lines rest"
    using lines_append [of "''# TYPE xddp_gate_'' @ name @ '' '' @ ?kind"] assms
      lines_append [of "(''xddp_gate_'' @ name) @ '' '' @ to_text (unat (metrics_get m i))"] to_text_no_separator
    by (simp add: render_metric_def newline_def Let_def)
  moreover have "sample ((''xddp_gate_'' @ name) @ '' '' @ to_text (unat (metrics_get m i))) =
      Some (''xddp_gate_'' @ name, to_text (unat (metrics_get m i)))"
    by (rule sample_line) (use assms in simp_all)
  moreover have "sample (''# TYPE xddp_gate_'' @ name @ '' '' @ ?kind) = None" by (simp add: sample_def)
  ultimately show ?thesis by (simp add: samples_def map_filter_simps)
qed

lemma samples_metrics:
  assumes "\<And>i name. (i, name) \<in> set xs \<Longrightarrow> CHR 0x0A \<notin> set name \<and> CHR '' '' \<notin> set name"
  shows "samples (concat (map (render_metric m) xs) @ rest) =
    map (\<lambda>(i, name). (''xddp_gate_'' @ name, to_text (unat (metrics_get m i)))) xs @ samples rest"
  using assms
proof (induction xs)
  case (Cons x xs)
  obtain i name where x: "x = (i, name)" by (cases x)
  have "samples (render_metric m (i, name) @ concat (map (render_metric m) xs) @ rest) =
      (''xddp_gate_'' @ name, to_text (unat (metrics_get m i))) # samples (concat (map (render_metric m) xs) @ rest)"
    by (rule samples_metric) (use Cons.prems x in auto)
  moreover have "samples (concat (map (render_metric m) xs) @ rest) =
      map (\<lambda>(i, name). (''xddp_gate_'' @ name, to_text (unat (metrics_get m i)))) xs @ samples rest"
    by (rule Cons.IH) (use Cons.prems in auto)
  ultimately show ?case by (simp add: x)
qed simp

section \<open>A request in pieces\<close>

lemma request_ended_iff: "request_ended s \<longleftrightarrow> (\<exists>a b. s = a @ blank_line @ b)"
proof
  assume "request_ended s"
  then obtain i where "take 4 (drop i s) = blank_line"
    unfolding request_ended_def windows_def by (metis (no_types, lifting) imageE list.set_map)
  then have "s = take i s @ blank_line @ drop 4 (drop i s)" by (metis append_take_drop_id)
  then show "\<exists>a b. s = a @ blank_line @ b" by blast
next
  assume "\<exists>a b. s = a @ blank_line @ b"
  then obtain a b where s: "s = a @ blank_line @ b" by blast
  then have "take 4 (drop (length a) s) = blank_line" "length a + 4 \<le> length s" by (simp_all add: blank_line_def)
  then show "request_ended s" unfolding request_ended_def windows_def set_map
    by (intro image_eqI [of _ _ "length a"]) simp_all
qed

lemma request_ended_append: "request_ended s \<Longrightarrow> request_ended (s @ t)"
  unfolding request_ended_iff by (metis append.assoc)

text \<open>Once a request has ended, what follows cannot change which resource it asks for.\<close>

lemma request_decided:
  assumes "request_ended s"
  shows "prefix metrics_request (s @ t) \<longleftrightarrow> prefix metrics_request s"
proof
  assume p: "prefix metrics_request (s @ t)"
  have "CHR 0x0D \<in> set s" using assms by (auto simp: request_ended_iff blank_line_def)
  moreover have "CHR 0x0D \<notin> set metrics_request" by (simp add: metrics_request_def)
  ultimately have "\<not> prefix s metrics_request" using set_mono_prefix by blast
  moreover have "prefix s (s @ t)" by simp
  ultimately show "prefix metrics_request s" using prefix_same_cases [OF p] by blast
qed simp

lemma http_request_pieces:
  assumes "\<not> request_ended used" "\<forall>c \<in> set cs. c \<noteq> []" "length used + length (concat cs) \<le> request_capacity"
  shows "case http_request used (map Got cs) of
      None \<Rightarrow> \<not> request_ended (used @ concat cs)
    | Some u \<Rightarrow> request_ended u \<and> prefix u (used @ concat cs)"
  using assms
proof (induction cs arbitrary: used)
  case (Cons c cs)
  have room: "length used \<noteq> request_capacity" using Cons.prems(2,3) by (cases c) auto
  show ?case
  proof (cases "request_ended (used @ c)")
    case True
    then show ?thesis using room Cons.prems(2) by (simp add: Let_def)
  next
    case False
    with Cons.IH [of "used @ c"] Cons.prems room show ?thesis by (simp add: Let_def split: option.splits)
  qed
qed simp

section \<open>Properties\<close>

text \<open>
  A scrape reads the counters: a reader that splits the rendered text into lines and the
  lines into samples finds each published name exactly once, the 56 metrics and the average,
  and under the name of every metric the decimal text of its current 64-bit value; for a
  formatting of floats that produces no line break.
\<close>

theorem metrics_scraped:
  assumes "CHR 0x0A \<notin> set (show_f64 (average_prelogin m))" "i < 56"
  shows "map_option text_nat (map_of (samples (render show_f64 m)) (''xddp_gate_'' @ metric_names ! i)) =
      Some (unat (metrics_get m i)) \<and>
    distinct (map fst (samples (render show_f64 m))) \<and> length (samples (render show_f64 m)) = 57"
proof -
  let ?avg = "''xddp_gate_average_prelogin_duration_seconds''"
  let ?f = "\<lambda>i. (''xddp_gate_'' @ metric_names ! i, to_text (unat (metrics_get m i)))"
  have enum: "enumerate 0 metric_names = map (\<lambda>i. (i, metric_names ! i)) [0..<56]"
    by (rule nth_equalityI) (simp_all add: nth_enumerate_eq)
  have "samples (?avg @ '' '' @ show_f64 (average_prelogin m) @ newline) = [(?avg, show_f64 (average_prelogin m))]"
    using lines_append [of "?avg @ '' '' @ show_f64 (average_prelogin m)" "[]"] assms(1)
      sample_line [of ?avg "show_f64 (average_prelogin m)"]
    by (simp add: samples_def map_filter_simps newline_def)
  moreover have "samples (concat (map (render_metric m) (enumerate 0 metric_names)) @ rest) = map ?f [0..<56] @ samples rest" for rest
    by (subst samples_metrics) (use metric_names_plain in \<open>auto simp: enum\<close>)
  ultimately have all: "samples (render show_f64 m) = map ?f [0..<56] @ [(?avg, show_f64 (average_prelogin m))]"
    by (simp add: render_def)
  have names: "map (\<lambda>i. metric_names ! i) [0..<56] = metric_names" using map_nth [of metric_names] by simp
  have fst: "map fst (samples (render show_f64 m)) = map ((@) ''xddp_gate_'') metric_names @ [?avg]"
    unfolding all by (subst (2) names [symmetric]) (simp add: comp_def)
  have "''average_prelogin_duration_seconds'' \<notin> set metric_names" by code_simp
  then have distinct: "distinct (map fst (samples (render show_f64 m)))"
    unfolding fst using metric_names_distinct by (auto simp: distinct_map inj_on_def)
  moreover have "?f i \<in> set (samples (render show_f64 m))" unfolding all using assms(2) by auto
  ultimately have "map_of (samples (render show_f64 m)) (''xddp_gate_'' @ metric_names ! i) = Some (to_text (unat (metrics_get m i)))"
    by (rule map_of_is_SomeI)
  with distinct show ?thesis by (simp add: all)
qed

theorem metrics_scraped_witness:
  "map_option text_nat (map_of (samples (render (\<lambda>_. ''0'') (metrics_add metrics_new 3 99))) ''xddp_gate_backend_connections'') = Some 99"
proof -
  have "map_option text_nat (map_of (samples (render (\<lambda>_. ''0'') (metrics_add metrics_new 3 99))) (''xddp_gate_'' @ metric_names ! 3)) =
      Some (unat (metrics_get (metrics_add metrics_new 3 99) 3))"
    by (rule metrics_scraped [THEN conjunct1]) simp_all
  moreover have "''xddp_gate_'' @ metric_names ! 3 = ''xddp_gate_backend_connections''" by (simp add: metric_names_def)
  moreover have "unat (metrics_get (metrics_add metrics_new 3 99) 3) = 99"
    by (simp add: metrics_gets) (simp add: metrics_get_def metrics_new_def)
  ultimately show ?thesis by (simp only:)
qed

text \<open>
  The endpoint answers what was asked, however it arrives: when the bytes of a request,
  at most 2048 of them, come in any pieces, the answer is that to the whole if it contains a
  blank line (the metrics for \<^verbatim>\<open>GET /metrics\<close>, not found otherwise), and none if it does not.
\<close>

theorem metrics_request_answered:
  assumes "\<forall>c \<in> set cs. c \<noteq> []" "length (concat cs) \<le> request_capacity"
  shows "http_answer show_f64 m (map Got cs) =
    (if request_ended (concat cs) then Some (http_response show_f64 m (concat cs)) else None)"
proof -
  have "\<not> request_ended []" by (simp add: request_ended_def windows_def)
  note pieces = http_request_pieces [OF this assms(1), unfolded append_Nil]
  show ?thesis
  proof (cases "http_request [] (map Got cs)")
    case None
    with pieces assms(2) show ?thesis by (simp add: http_answer_def)
  next
    case (Some u)
    with pieces assms(2) obtain t where u: "request_ended u" "concat cs = u @ t" by (auto elim: prefixE)
    with Some request_decided [OF u(1), of t] request_ended_append [OF u(1), of t] show ?thesis
      by (simp add: http_answer_def http_response_def)
  qed
qed

theorem metrics_request_answered_witness:
  "http_answer (\<lambda>_. ''0'') metrics_new (map Got [''GET /x HTTP/1.1'' @ [CHR 0x0D], [CHR 0x0A, CHR 0x0D], [CHR 0x0A] @ ''rest'']) =
     Some (http_response (\<lambda>_. ''0'') metrics_new (''GET /x HTTP/1.1'' @ blank_line @ ''rest''))"
proof -
  let ?cs = "[''GET /x HTTP/1.1'' @ [CHR 0x0D], [CHR 0x0A, CHR 0x0D], [CHR 0x0A] @ ''rest'']"
  have "request_ended (concat ?cs)" unfolding request_ended_iff
    by (rule exI [of _ "''GET /x HTTP/1.1''"], rule exI [of _ "''rest''"]) (simp add: blank_line_def)
  then show ?thesis
    using metrics_request_answered [of ?cs "\<lambda>_. ''0''" metrics_new] by (simp add: request_capacity_def blank_line_def)
qed

end
