(* ===== verification/Config_Validate.thy ===== *)
theory Config_Validate
  imports Cache Limiter_Ops Relay
begin

text \<open>
  config.rs: loading and validating the configuration, and what the other components may
  rely on once it has passed. Parsing is serde's, a parameter of \<open>config_load\<close>.
\<close>

section \<open>Validation\<close>

datatype config_error = ReadFailed | TooLarge | ParseFailed | BadBackendProtection | BadRelayDeadlines | BadUpload
  | BadWorkers | BadMetricsAddress | ZeroPort | Ipv6Disabled | BadProxyTrust | IdentityLoss | ProxyFamilies
  | BadLimits | BadRates | BadMultipliers | BadProtocol | BadPhaseDeadline | BadCache

definition check :: "bool \<Rightarrow> config_error \<Rightarrow> config_error + unit" where
  "check bad e = (if bad then Inl e else Inr ())"

definition bad_backend_protection :: "limits \<Rightarrow> backend_protection \<Rightarrow> bool" where
  "bad_backend_protection l b \<longleftrightarrow> bp_max_connecting b > lim_backend l \<or> bp_failure_threshold b > 10000 \<or>
     bp_cooldown_ms b > 120000 \<or> \<not> rate_valid (bp_attempts b) \<or>
     (bp_failure_threshold b = 0) \<noteq> (bp_cooldown_ms b = 0)"

definition bad_upload :: "upload \<Rightarrow> bool" where
  "bad_upload u \<longleftrightarrow> bytes_per_second u > 1000000000 \<or> burst_bytes u > 1000000000 \<or>
     (bytes_per_second u = 0) \<noteq> (burst_bytes u = 0)"

definition bad_proxy_trust :: "('a, 'b) ipnet_ops \<Rightarrow> bool \<Rightarrow> ('a, 'b) incoming_proxy_v2 \<Rightarrow> bool" where
  "bad_proxy_trust ops ipv6 x \<longleftrightarrow> ipx_enabled x \<and>
     (ipx_trusted_proxies x = [] \<or> length (ipx_trusted_proxies x) > 512 \<or>
      list_ex (\<lambda>net. net_prefix_len ops net = 0 \<or> net_is_ipv6 net \<and> \<not> ipv6) (ipx_trusted_proxies x))"

definition bad_limits :: "limits \<Rightarrow> bool" where
  "bad_limits l \<longleftrightarrow> lim_total_sockets l < 4 \<or> lim_total_sockets l > 100000 \<or> lim_prelogin l = 0 \<or>
     lim_status_connections l > lim_prelogin l \<or>
     lim_status_ip l > (if lim_status_connections l = 0 then lim_prelogin l else lim_status_connections l) \<or>
     lim_prelogin_ip l > lim_prelogin l \<or> lim_prelogin_prefix l > lim_prelogin l \<or>
     lim_prelogin l > lim_total_sockets l \<or> lim_admitted l > lim_total_sockets l \<or>
     lim_backend l > lim_total_sockets l \<or> lim_admitted l = 0 \<or> lim_backend l < 2 \<or>
     lim_prelogin l + lim_admitted l + lim_backend l > lim_total_sockets l \<or>
     lim_ip_entries l < 64 \<or> lim_ip_entries l > 1000000 \<or> lim_prefix_entries l < 64 \<or>
     lim_prefix_entries l > 1000000 \<or> lim_ip_entries l mod 64 \<noteq> 0 \<or> lim_prefix_entries l mod 64 \<noteq> 0 \<or>
     lim_ipv4_prefix l > 32 \<or> lim_ipv6_prefix l > 128 \<or> lim_idle_entry_seconds l = 0 \<or>
     lim_churn_half_life_seconds l = 0 \<or> lim_churn_window_seconds l > 60 \<or> lim_penalty_seconds l > 3600 \<or>
     \<not> is_finite (lim_churn_score_threshold l) \<or> lim_churn_score_threshold l < 0 \<or>
     \<not> is_finite (lim_churn_prefix_score_threshold l) \<or> lim_churn_prefix_score_threshold l < 0"

definition bad_rates :: "limits \<Rightarrow> bool" where
  "bad_rates l \<longleftrightarrow> list_ex (\<lambda>rates. list_ex (\<lambda>r. \<not> rate_valid r) (rates_list rates)) [lim_ip l, lim_prefix l, lim_global l]"

text \<open>\<^verbatim>\<open>windows(2).any(|x| x[1] > x[0])\<close>.\<close>

fun some_increase :: "f64 list \<Rightarrow> bool" where
  "some_increase (x # y # ys) \<longleftrightarrow> x < y \<or> some_increase (y # ys)"
| "some_increase _ \<longleftrightarrow> False"

definition bad_multipliers :: "limits \<Rightarrow> bool" where
  "bad_multipliers l \<longleftrightarrow>
     list_ex (\<lambda>x. \<not> is_finite x \<or> x \<le> 0 \<or> 1 < x) (lim_mode_multipliers l) \<or> some_increase (lim_mode_multipliers l)"

definition known_schemas :: "string list" where
  "known_schemas = [''legacy'', ''signed'', ''signed_uuid'', ''optional_uuid'', ''uuid'', ''backend'']"

definition bad_protocol :: "protocol \<Rightarrow> bool" where
  "bad_protocol p \<longleftrightarrow> \<not> (64 \<le> pr_max_frame p \<and> pr_max_frame p \<le> 65536) \<or>
     pr_max_initial_bytes p < pr_max_frame p + 5 \<or> pr_max_initial_bytes p > 131072 \<or>
     \<not> (1 \<le> pr_max_host_bytes p \<and> pr_max_host_bytes p \<le> 4096) \<or> pr_max_host_bytes p > pr_max_frame p \<or>
     0 \<in> set (pr_allowed_ports p) \<or> sint (pr_min_protocol p) < 0 \<or> sint (pr_min_protocol p) > sint (pr_max_protocol p) \<or>
     length (pr_allowed_hosts p) > 256 \<or> fm_len (pr_login_schemas p) > 1024 \<or>
     \<not> fmpred (\<lambda>_ x. x \<in> set known_schemas) (pr_login_schemas p) \<or>
     pr_future_login_schema p \<notin> set (''disabled'' # known_schemas)"

definition phase_deadlines :: "timeouts \<Rightarrow> nat list" where
  "phase_deadlines t = [to_first_progress_ms t, to_progress_ms t, to_handshake_ms t, to_login_ms t, to_status_ms t, to_backend_ms t]"

definition bad_cache :: "'j json_ops \<Rightarrow> timeouts \<Rightarrow> 'j cache_cfg \<Rightarrow> bool" where
  "bad_cache js t c \<longleftrightarrow> to_shutdown_seconds t > 3600 \<or> ca_ttl_seconds c = 0 \<or> ca_ttl_seconds c > 300 \<or>
     \<not> (256 \<le> ca_max_response_bytes c \<and> ca_max_response_bytes c \<le> 65536) \<or>
     ca_host c = [] \<or> length (ca_host c) > 255 \<or> ca_port c = 0 \<or>
     js_as_object js (ca_fallback c) = None \<or> \<not> valid_status js (ca_fallback c) (ca_max_response_bytes c)"

fun sock_is_ipv4 :: "socket_addr \<Rightarrow> bool" where
  "sock_is_ipv4 (SockV4 _ _) = True"
| "sock_is_ipv4 (SockV6 _ _ _ _) = False"

definition validate :: "('a, 'b) ipnet_ops \<Rightarrow> 'j json_ops \<Rightarrow> ('a, 'b, 'j) config \<Rightarrow> config_error + unit" where
  "validate ops js c =
     (let l = cfg_limits c; t = cfg_timeouts c in
      bind_result (check (bad_backend_protection l (cfg_backend_protection c)) BadBackendProtection) (\<lambda>_.
      bind_result (check (to_relay_stall_ms t > 3600000 \<or> to_half_close_ms t > 3600000 \<or> to_client_idle_ms t > 3600000)
        BadRelayDeadlines) (\<lambda>_.
      bind_result (check (bad_upload (cfg_upload c)) BadUpload) (\<lambda>_.
      bind_result (check (cfg_workers c = 0 \<or> cfg_workers c > 64 \<or>
        \<not> (1024 \<le> cfg_relay_buffer c \<and> cfg_relay_buffer c \<le> 65536)) BadWorkers) (\<lambda>_.
      bind_result (check (\<not> is_loopback (sock_ip (cfg_metrics c)) \<or> cfg_listen c = cfg_backend c \<or>
        cfg_listen c = cfg_metrics c) BadMetricsAddress) (\<lambda>_.
      bind_result (check (sock_port (cfg_listen c) = 0 \<or> sock_port (cfg_backend c) = 0 \<or> sock_port (cfg_metrics c) = 0)
        ZeroPort) (\<lambda>_.
      bind_result (check (\<not> cfg_ipv6 c \<and> (\<not> sock_is_ipv4 (cfg_listen c) \<or> \<not> sock_is_ipv4 (cfg_backend c)))
        Ipv6Disabled) (\<lambda>_.
      bind_result (check (bad_proxy_trust ops (cfg_ipv6 c) (cfg_incoming_proxy_v2 c)) BadProxyTrust) (\<lambda>_.
      bind_result (check (\<not> cfg_proxy_v2 c \<and> \<not> cfg_allow_backend_identity_loss c) IdentityLoss) (\<lambda>_.
      bind_result (check (cfg_proxy_v2 c \<and> sock_is_ipv4 (cfg_listen c) \<noteq> sock_is_ipv4 (cfg_backend c))
        ProxyFamilies) (\<lambda>_.
      bind_result (check (bad_limits l) BadLimits) (\<lambda>_.
      bind_result (check (bad_rates l) BadRates) (\<lambda>_.
      bind_result (check (bad_multipliers l) BadMultipliers) (\<lambda>_.
      bind_result (check (bad_protocol (cfg_protocol c)) BadProtocol) (\<lambda>_.
      bind_result (check (list_ex (\<lambda>ms. ms = 0 \<or> ms > 120000) (phase_deadlines t)) BadPhaseDeadline) (\<lambda>_.
      check (bad_cache js t (cfg_cache c)) BadCache))))))))))))))))"

text \<open>\<^verbatim>\<open>load\<close>: \<open>raw\<close> is the content of the file, or \<open>None\<close> when reading it fails.\<close>

definition config_load ::
    "('a, 'b) ipnet_ops \<Rightarrow> 'j json_ops \<Rightarrow> (bytes \<Rightarrow> ('a, 'b, 'j) config option) \<Rightarrow> bytes option
      \<Rightarrow> config_error + ('a, 'b, 'j) config" where
  "config_load ops js parse raw =
     (case raw of
        None \<Rightarrow> Inl ReadFailed
      | Some b \<Rightarrow>
          if length b > 262144 then Inl TooLarge
          else case parse b of
            None \<Rightarrow> Inl ParseFailed
          | Some c \<Rightarrow> bind_result (validate ops js c) (\<lambda>_. Inr c))"

lemma check_Inr [simp]: "check bad e = Inr x \<longleftrightarrow> \<not> bad"
  by (simp add: check_def)

lemma validate_Inr:
  "validate ops js c = Inr u \<longleftrightarrow>
     \<not> bad_backend_protection (cfg_limits c) (cfg_backend_protection c) \<and>
     to_relay_stall_ms (cfg_timeouts c) \<le> 3600000 \<and> to_half_close_ms (cfg_timeouts c) \<le> 3600000 \<and>
     to_client_idle_ms (cfg_timeouts c) \<le> 3600000 \<and> \<not> bad_upload (cfg_upload c) \<and>
     1 \<le> cfg_workers c \<and> cfg_workers c \<le> 64 \<and> 1024 \<le> cfg_relay_buffer c \<and> cfg_relay_buffer c \<le> 65536 \<and>
     is_loopback (sock_ip (cfg_metrics c)) \<and> cfg_listen c \<noteq> cfg_backend c \<and> cfg_listen c \<noteq> cfg_metrics c \<and>
     sock_port (cfg_listen c) \<noteq> 0 \<and> sock_port (cfg_backend c) \<noteq> 0 \<and> sock_port (cfg_metrics c) \<noteq> 0 \<and>
     (cfg_ipv6 c \<or> sock_is_ipv4 (cfg_listen c) \<and> sock_is_ipv4 (cfg_backend c)) \<and>
     \<not> bad_proxy_trust ops (cfg_ipv6 c) (cfg_incoming_proxy_v2 c) \<and>
     (cfg_proxy_v2 c \<or> cfg_allow_backend_identity_loss c) \<and>
     (cfg_proxy_v2 c \<longrightarrow> sock_is_ipv4 (cfg_listen c) = sock_is_ipv4 (cfg_backend c)) \<and>
     \<not> bad_limits (cfg_limits c) \<and> \<not> bad_rates (cfg_limits c) \<and> \<not> bad_multipliers (cfg_limits c) \<and>
     \<not> bad_protocol (cfg_protocol c) \<and>
     list_all (\<lambda>ms. 0 < ms \<and> ms \<le> 120000) (phase_deadlines (cfg_timeouts c)) \<and>
     \<not> bad_cache js (cfg_timeouts c) (cfg_cache c)"
  unfolding validate_def Let_def bind_result_Inr check_Inr
  by (auto simp: list_ex_iff list_all_iff not_less)

lemma good_multipliers: "\<not> bad_multipliers l \<Longrightarrow> list_all factor_ok (lim_mode_multipliers l)"
proof -
  assume good: "\<not> bad_multipliers l"
  have "factor_ok x" if "is_finite x" "\<not> x \<le> 0" "\<not> 1 < x" for x
    using that by (cases x) (auto simp: factor_ok_def is_finite_def f64_simps)
  with good show ?thesis by (auto simp: bad_multipliers_def list_ex_iff list_all_iff)
qed

lemma good_rates: "\<not> bad_rates l \<Longrightarrow> rates_valid (lim_ip l) \<and> rates_valid (lim_prefix l) \<and> rates_valid (lim_global l)"
  by (auto simp: bad_rates_def rates_valid_def list_ex_iff list_all_iff)

lemma valid_limits:
  assumes "validate ops js c = Inr ()" "length (lim_mode_multipliers (cfg_limits c)) = 4"
  shows "limits_ok (cfg_limits c)" "lim_total_sockets (cfg_limits c) \<le> 100000"
    "lim_prelogin (cfg_limits c) + lim_admitted (cfg_limits c) + lim_backend (cfg_limits c) \<le> lim_total_sockets (cfg_limits c)"
    "0 < lim_backend (cfg_limits c)"
  using assms(1) [unfolded validate_Inr] assms(2) good_multipliers good_rates
  by (auto simp: limits_ok_def bad_limits_def)

section \<open>The shipped configuration passes\<close>

text \<open>
  config/gate.json with the JSON library of theory Cache, whose only value stands for the
  fallback document.
\<close>

definition shipped_config :: "(cidr4, cidr6, unit) config" where
  "shipped_config = \<lparr>cfg_listen = SockV4 0x7F000001 25565, cfg_backend = SockV4 0x7F000001 25566,
     cfg_metrics = SockV4 0x7F000001 9109, cfg_proxy_v2 = False,
     cfg_incoming_proxy_v2 = \<lparr>ipx_enabled = False, ipx_trusted_proxies = []\<rparr>,
     cfg_allow_backend_identity_loss = True, cfg_ipv6 = False, cfg_observe = True, cfg_runtime_file = [47],
     cfg_workers = 2, cfg_relay_buffer = 8192,
     cfg_upload = \<lparr>bytes_per_second = 0, burst_bytes = 0, enforce = False\<rparr>,
     cfg_backend_protection = \<lparr>bp_max_connecting = 0, bp_failure_threshold = 0, bp_cooldown_ms = 0, bp_attempts = no_rate\<rparr>,
     cfg_limits = shipped_limits, cfg_timeouts = shipped_timeouts, cfg_protocol = shipped_protocol,
     cfg_cache = \<lparr>ca_host = [108], ca_port = 25565, ca_protocol = 47, ca_ttl_seconds = 5,
       ca_max_response_bytes = 32768, ca_fallback = ()\<rparr>\<rparr>"

lemma empty_valid_status: "valid_status empty_json () 32768"
  by (simp add: valid_status_def prepared_new_def empty_json_def wire_size_def checked_add_def varint_size.simps
      version_object_def)

lemma shipped_multipliers: "\<not> bad_multipliers shipped_limits"
proof -
  have ok: "is_finite x \<and> \<not> x \<le> 0 \<and> \<not> 1 < x" if "factor_ok x" for x
    using that by (cases x) (auto simp: factor_ok_def is_finite_def f64_simps)
  have m: "factor_ok (f64_of_rat (8 / 10))" "factor_ok (f64_of_rat (1 / 2))" "factor_ok (f64_of_rat (1 / 10))" "factor_ok 1"
    using shipped_factor by (simp_all add: factor_ok_def is_finite_def f64_simps)
  have "\<not> (1 :: f64) < f64_of_rat (8 / 10)" "\<not> f64_of_rat (8 / 10) < f64_of_rat (1 / 2)"
    "\<not> f64_of_rat (1 / 2) < f64_of_rat (1 / 10)"
    using ok [OF m(1)] f64_of_rat_mono [of "1 / 2" "8 / 10"] f64_of_rat_mono [of "1 / 10" "1 / 2"]
    by (simp_all add: less_f64_def)
  then show ?thesis
    using ok [OF m(1)] ok [OF m(2)] ok [OF m(3)] ok [OF m(4)]
    by (simp add: bad_multipliers_def shipped_limits_def)
qed

lemma shipped_limits_good: "\<not> bad_limits shipped_limits" "\<not> bad_rates shipped_limits"
  by (simp_all add: bad_limits_def shipped_limits_def is_finite_def f64_simps bad_rates_def no_rates_def rates_list_def)

lemma shipped_config_valid: "validate cidr_ops empty_json shipped_config = Inr ()"
proof -
  have "\<not> bad_protocol shipped_protocol" by (simp add: bad_protocol_def shipped_protocol_def known_schemas_def)
  moreover have "\<not> bad_cache empty_json shipped_timeouts (cfg_cache shipped_config)"
    by (simp add: bad_cache_def shipped_config_def shipped_timeouts_def empty_valid_status) (simp add: empty_json_def)
  moreover have "\<not> bad_backend_protection shipped_limits (cfg_backend_protection shipped_config)"
    by (simp add: bad_backend_protection_def shipped_config_def shipped_limits_def)
  ultimately show ?thesis
    using shipped_multipliers shipped_limits_good
    by (simp add: validate_Inr) (simp add: shipped_config_def shipped_timeouts_def bad_upload_def bad_proxy_trust_def
        phase_deadlines_def)
qed

section \<open>Properties\<close>

text \<open>
  C37: Validation establishes what the components rely on: a configuration that passes has
  valid rates and multipliers (the limiter's precondition), socket permits for every
  pre-login, admitted and backend connection at once, at most 100000 sockets, table
  capacities that the 64 shards divide, a dial budget and an upload budget in range, a
  positive half-life, a time to live, and a fallback status that the cache can prepare,
  so that its \<^verbatim>\<open>expect\<close> does not panic.
\<close>

theorem validate_establishes:
  assumes "validate ops js c = Inr ()" "length (lim_mode_multipliers (cfg_limits c)) = 4"
  shows "let l = cfg_limits c in
    limits_ok l \<and> lim_prelogin l + lim_admitted l + lim_backend l \<le> lim_total_sockets l \<and>
    lim_total_sockets l \<le> 100000 \<and> table_bound (table_new h (lim_ip_entries l)) = lim_ip_entries l \<and>
    table_bound (table_new h (lim_prefix_entries l)) = lim_prefix_entries l \<and>
    0 < lim_churn_half_life_seconds l \<and> rate_valid (bp_attempts (cfg_backend_protection c)) \<and>
    upload_ok (cfg_upload c) \<and> 0 < ca_ttl_seconds (cfg_cache c) \<and>
    (\<exists>s. status_cache_new js (cfg_cache c) = Some s)"
proof -
  note v = assms(1) [unfolded validate_Inr]
  have "SHARDS * (n div SHARDS) = n" if "n mod 64 = 0" for n using that mult_div_mod_eq [of 64 n] by (simp add: SHARDS_def)
  then have tb: "table_bound (table_new h n) = n" if "n mod 64 = 0" for n
    using that by (simp add: table_bound_def table_new_def)
  have lim: "lim_ip_entries (cfg_limits c) mod 64 = 0" "lim_prefix_entries (cfg_limits c) mod 64 = 0"
    "0 < lim_churn_half_life_seconds (cfg_limits c)"
    using v by (simp_all add: bad_limits_def)
  have "upload_ok (cfg_upload c)" using v by (simp add: bad_upload_def upload_ok_def)
  moreover have "rate_valid (bp_attempts (cfg_backend_protection c))" using v by (simp add: bad_backend_protection_def)
  moreover have "0 < ca_ttl_seconds (cfg_cache c)" "\<exists>s. status_cache_new js (cfg_cache c) = Some s"
    using v by (auto simp: bad_cache_def status_cache_new_def valid_status_def)
  ultimately show ?thesis using lim tb valid_limits [OF assms] by (simp add: Let_def)
qed

theorem validate_establishes_witness:
  "limits_ok (cfg_limits shipped_config) \<and> upload_ok (cfg_upload shipped_config) \<and>
   (\<exists>s. status_cache_new empty_json (cfg_cache shipped_config) = Some s)"
  using validate_establishes [OF shipped_config_valid, of "\<lambda>_. 0"]
  by (simp add: Let_def) (simp add: shipped_config_def shipped_limits_def)

text \<open>
  What validation does not rule out: a configuration whose backend address is the
  gate's own metrics endpoint passes, although the error of the address check says that
  listener, backend and metrics addresses must differ.
\<close>

theorem validate_accepts_backend_as_metrics:
  "validate cidr_ops empty_json (shipped_config\<lparr>cfg_backend := cfg_metrics shipped_config\<rparr>) = Inr ()"
  using shipped_config_valid unfolding validate_Inr
  by (simp add: shipped_config_def)

end
