(* ===== verification/Gate.thy ===== *)
theory Gate
  imports Limiter_Inv Backend Runtime Proxy_V2 Config_Validate Relay_Copy
begin

text \<open>
  main.rs: the gate itself. The async handler of a connection is a sequence of segments
  between its suspension points (reads, writes, the dial, the relay); a segment receives
  the outcome of the operation it waited for and one reading of the clocks, runs on the
  shared state, and leaves the connection waiting for the next operation or closed.
  Closing a connection is the drop of everything its handler holds. Connections
  interleave at segments.
\<close>

section \<open>The command line\<close>

text \<open>
  \<^verbatim>\<open>main\<close>: what the process does for its arguments, the program's name first. \<open>file\<close> is the
  content of a file, or \<open>None\<close> when it cannot be read.
\<close>

datatype 'c cli = PrintSizes | UsageError | ConfigError config_error | ConfigValid | RunGate 'c

definition main_mode :: "('a, 'b) ipnet_ops \<Rightarrow> 'j json_ops \<Rightarrow> (bytes \<Rightarrow> ('a, 'b, 'j) config option) \<Rightarrow> (string \<Rightarrow> bytes option)
    \<Rightarrow> string list \<Rightarrow> ('a, 'b, 'j) config cli" where
  "main_mode ops js parse file args =
     (if length args = 2 \<and> args ! 1 = ''--state-sizes'' then PrintSizes
      else if length args < 2 \<or> length args > 3 \<or> length args = 3 \<and> args ! 2 \<noteq> ''--check'' then UsageError
      else case config_load ops js parse (file (args ! 1)) of
        Inl e \<Rightarrow> ConfigError e
      | Inr cfg \<Rightarrow> if length args = 3 then ConfigValid else RunGate cfg)"

text \<open>The gate runs on validated configurations only.\<close>

lemma main_runs_validated: "main_mode ops js parse file args = RunGate cfg \<Longrightarrow> validate ops js cfg = Inr ()"
  by (auto simp: main_mode_def config_load_def bind_result_def split: if_splits sum.splits option.splits)

section \<open>State\<close>

record ('a, 'b, 'j) gate =
  gt_cfg :: "('a, 'b, 'j) config"
  gt_met :: metrics
  gt_lim :: limiter
  gt_rt :: "('a, 'b) runtime"
  gt_cache :: status_cache
  gt_sockets :: nat
  gt_prelogin :: nat
  gt_admitted :: nat
  gt_backend :: nat
  gt_status :: nat
  gt_prot :: protection

definition status_slots :: "limits \<Rightarrow> nat" where
  "status_slots l = (if lim_status_connections l = 0 then lim_prelogin l else lim_status_connections l)"

definition gate_new :: "'j json_ops \<Rightarrow> ('a, 'b, 'j) config \<Rightarrow> (ip_addr \<Rightarrow> nat) \<Rightarrow> (ip_addr \<Rightarrow> nat) \<Rightarrow> instant
    \<Rightarrow> ('a, 'b, 'j) gate option" where
  "gate_new js c hash_ip hash_prefix now = map_option (\<lambda>cache.
     \<lparr>gt_cfg = c, gt_met = metrics_new, gt_lim = limiter_new (cfg_limits c) hash_ip hash_prefix now,
      gt_rt = runtime_new (if cfg_runtime_file c = [] then cfg_observe c else True), gt_cache = cache,
      gt_sockets = lim_total_sockets (cfg_limits c), gt_prelogin = lim_prelogin (cfg_limits c),
      gt_admitted = lim_admitted (cfg_limits c), gt_backend = lim_backend (cfg_limits c) - 1,
      gt_status = status_slots (cfg_limits c),
      gt_prot = protection_new (cfg_backend_protection c) (lim_backend (cfg_limits c) - 1) now\<rparr>)
     (status_cache_new js (cfg_cache c))"

text \<open>What a handler is waiting for.\<close>

datatype hphase = AwaitIdentity | AwaitHandshake | AwaitRequest bool | AwaitReply bytes | AwaitPing | AwaitPong
  | AwaitLogin | AwaitBackend attempt | InRelay

text \<open>The locals of a handler; the permits and gauges it holds are determined by its phase.\<close>

record conn =
  cn_socket_peer :: socket_addr
  cn_start :: instant
  cn_phase :: hphase
  cn_peer :: socket_addr
  cn_dst :: socket_addr
  cn_ticket :: "ticket option"
  cn_left :: usize
  cn_version :: i32
  cn_handshake_wire :: bytes
  cn_login_wire :: bytes
  cn_relay :: "relay option"

fun in_status :: "hphase \<Rightarrow> bool" where
  "in_status (AwaitRequest _) = True"
| "in_status (AwaitReply _) = True"
| "in_status AwaitPing = True"
| "in_status AwaitPong = True"
| "in_status _ = False"

fun on_backend :: "hphase \<Rightarrow> bool" where
  "on_backend (AwaitBackend _) = True"
| "on_backend InRelay = True"
| "on_backend _ = False"

section \<open>Helpers\<close>

definition record_error :: "metrics \<Rightarrow> perror \<Rightarrow> metrics" where
  "record_error m e = (case e of
     VarInt \<Rightarrow> metrics_inc m 8 | Oversized \<Rightarrow> metrics_inc m 9 | Unsupported \<Rightarrow> metrics_inc m 10
   | Deadline \<Rightarrow> metrics_inc m 11 | Slow \<Rightarrow> metrics_inc m 12 | Invalid \<Rightarrow> metrics_inc m 5
   | Eof \<Rightarrow> m | Io \<Rightarrow> m)"

definition as_micros :: "duration \<Rightarrow> nat" where
  "as_micros d = d div 1000"

definition prelogin_time_drop :: "metrics \<Rightarrow> instant \<Rightarrow> instant \<Rightarrow> metrics" where
  "prelogin_time_drop m start now = metrics_inc (metrics_add m 18 (of_nat (min (as_micros (now - start)) (2 ^ 64 - 1)))) 19"

text \<open>\<^verbatim>\<open>drop(admission)\<close>: the pre-login permit, its gauge and its timer.\<close>

definition admission_drop :: "('a, 'b, 'j) gate \<Rightarrow> instant \<Rightarrow> instant \<Rightarrow> ('a, 'b, 'j) gate" where
  "admission_drop g start now =
     g\<lparr>gt_prelogin := gt_prelogin g + 1, gt_met := prelogin_time_drop (gauge_drop (gt_met g) 2) start now\<rparr>"

definition phase_limits :: "('a, 'b, 'j) config \<Rightarrow> nat \<Rightarrow> usize \<Rightarrow> instant \<Rightarrow> usize \<times> instant \<times> duration \<times> duration" where
  "phase_limits c ms max_len now =
     (min (pr_max_frame (cfg_protocol c)) max_len, now + from_millis ms,
      from_millis (to_progress_ms (cfg_timeouts c)), from_millis (to_progress_ms (cfg_timeouts c)))"

definition phase :: "'w reader_ops \<Rightarrow> ('a, 'b, 'j) config \<Rightarrow> usize \<Rightarrow> nat \<Rightarrow> usize \<Rightarrow> instant \<Rightarrow> 'w
    \<Rightarrow> (perror + frame_rec) \<times> usize \<times> 'w" where
  "phase rd c left ms max_len now w = (case phase_limits c ms max_len now of (m, deadline, progress, first) \<Rightarrow>
     read_frame rd m left deadline progress first w)"

text \<open>
  The end of a handler in any phase: its error is recorded, and everything it holds is
  dropped. An attempt that is still in flight (the task was aborted) counts as failed.
\<close>

definition close_backend :: "('a, 'b, 'j) gate \<Rightarrow> hphase \<Rightarrow> instant \<Rightarrow> ('a, 'b, 'j) gate" where
  "close_backend g ph now =
     (let g = (case ph of AwaitBackend a \<Rightarrow>
            (case attempt_drop (gt_prot g) (gt_met g) a now of (p, m) \<Rightarrow> g\<lparr>gt_prot := p, gt_met := m\<rparr>) | _ \<Rightarrow> g);
          g = (if ph = InRelay then g\<lparr>gt_met := gauge_drop (gt_met g) 30\<rparr> else g)
      in if on_backend ph then
           g\<lparr>gt_met := gauge_drop (gt_met g) 3, gt_admitted := gt_admitted g + 1, gt_backend := gt_backend g + 1,
             gt_sockets := gt_sockets g + 1\<rparr>
         else g)"

definition close_ticket :: "(f64 \<Rightarrow> f64) \<Rightarrow> ('a, 'b, 'j) gate \<Rightarrow> ticket option \<Rightarrow> instant \<Rightarrow> ('a, 'b, 'j) gate" where
  "close_ticket powf2 g t now = (case t of
     None \<Rightarrow> g
   | Some t \<Rightarrow> (case ticket_drop powf2 (gt_lim g) (gt_met g) t now of (l, m) \<Rightarrow> g\<lparr>gt_lim := l, gt_met := m\<rparr>))"

definition gate_close :: "(f64 \<Rightarrow> f64) \<Rightarrow> ('a, 'b, 'j) gate \<Rightarrow> conn \<Rightarrow> perror option \<Rightarrow> instant \<Rightarrow> ('a, 'b, 'j) gate" where
  "gate_close powf2 g c err now =
     (let g = close_backend g (cn_phase c) now;
          g = (if in_status (cn_phase c)
               then g\<lparr>gt_status := gt_status g + 1, gt_met := gauge_drop (gt_met g) 36\<rparr> else g);
          g = close_ticket powf2 g (cn_ticket c) now;
          g = (if cn_phase c = InRelay then g else admission_drop g (cn_start c) now);
          g = (case err of None \<Rightarrow> g | Some e \<Rightarrow> g\<lparr>gt_met := record_error (gt_met g) e\<rparr>)
      in g\<lparr>gt_sockets := gt_sockets g + 1, gt_met := gauge_drop (gt_met g) 1\<rparr>)"

section \<open>Segments\<close>

text \<open>The accept loop: trust, then a socket and a pre-login permit, then a handler.\<close>

definition gate_accept :: "('a, 'b) ipnet_ops \<Rightarrow> ('a, 'b, 'j) gate \<Rightarrow> socket_addr \<Rightarrow> instant
    \<Rightarrow> ('a, 'b, 'j) gate \<times> conn option" where
  "gate_accept ops g peer now =
     (let g = g\<lparr>gt_met := metrics_inc (gt_met g) 0\<rparr>; ipx = cfg_incoming_proxy_v2 (gt_cfg g) in
      if ipx_enabled ipx \<and> \<not> is_trusted ops (sock_ip peer) ipx
      then (g\<lparr>gt_met := metrics_inc (gt_met g) PROXY_V2_UNTRUSTED\<rparr>, None)
      else if gt_sockets g = 0 \<or> gt_prelogin g = 0 then (g\<lparr>gt_met := metrics_inc (gt_met g) 20\<rparr>, None)
      else (g\<lparr>gt_sockets := gt_sockets g - 1, gt_prelogin := gt_prelogin g - 1,
              gt_met := gauge_new (gauge_new (gt_met g) 1) 2\<rparr>,
            Some \<lparr>cn_socket_peer = peer, cn_start = now, cn_phase = AwaitIdentity, cn_peer = peer, cn_dst = peer,
                  cn_ticket = None, cn_left = 0, cn_version = 0, cn_handshake_wire = [], cn_login_wire = [],
                  cn_relay = None\<rparr>))"

definition accept_failed :: "('a, 'b, 'j) gate \<Rightarrow> ('a, 'b, 'j) gate" where
  "accept_failed g = g\<lparr>gt_met := metrics_inc (gt_met g) 26\<rparr>"

text \<open>
  The identity of the client: \<open>header\<close> is the outcome of \<open>identity_read\<close> and \<open>local\<close>
  the socket's own address; \<open>nodelay\<close> tells whether the socket option could be set.
\<close>

definition header_deadline :: "('a, 'b, 'j) config \<Rightarrow> instant \<Rightarrow> instant" where
  "header_deadline cfg start = min (start + from_millis (to_handshake_ms (cfg_timeouts cfg)))
     (start + from_millis (to_first_progress_ms (cfg_timeouts cfg)))"

definition identity_read :: "('a, 'b) ipnet_ops \<Rightarrow> 'w exact_read \<Rightarrow> ('a, 'b, 'j) config \<Rightarrow> conn \<Rightarrow> 'w
    \<Rightarrow> (perror + socket_addr \<times> socket_addr) \<times> 'w" where
  "identity_read ops rx cfg c w =
     proxy_read ops rx (cn_socket_peer c) (cfg_incoming_proxy_v2 cfg) (header_deadline cfg (cn_start c)) w"

definition gate_identity :: "('a, 'b, 'j) gate \<Rightarrow> socket_addr \<Rightarrow> bool \<Rightarrow> perror + socket_addr \<times> socket_addr
    \<Rightarrow> socket_addr option \<Rightarrow> (perror + socket_addr \<times> socket_addr) \<times> ('a, 'b, 'j) gate" where
  "gate_identity g socket_peer nodelay header local =
     (if \<not> nodelay then (Inl Io, g)
      else if ipx_enabled (cfg_incoming_proxy_v2 (gt_cfg g)) then
        (case header of
           Inr identity \<Rightarrow> (Inr identity, g\<lparr>gt_met := metrics_inc (gt_met g) PROXY_V2_ACCEPTED\<rparr>)
         | Inl e \<Rightarrow> (Inl e, g\<lparr>gt_met := metrics_inc (gt_met g)
             (if e = Deadline \<or> e = Slow then PROXY_V2_TIMEOUT else PROXY_V2_INVALID)\<rparr>))
      else (case local of Some dst \<Rightarrow> (Inr (socket_peer, dst), g) | None \<Rightarrow> (Inl Io, g)))"

definition seg_identity :: "('a, 'b) ipnet_ops \<Rightarrow> (f64 \<Rightarrow> f64) \<Rightarrow> ('a, 'b, 'j) gate \<Rightarrow> conn \<Rightarrow> bool
    \<Rightarrow> perror + socket_addr \<times> socket_addr \<Rightarrow> socket_addr option \<Rightarrow> nat \<Rightarrow> instant \<Rightarrow> ('a, 'b, 'j) gate \<times> conn option" where
  "seg_identity ops powf2 g c nodelay header local unix now =
     (case gate_identity g (cn_socket_peer c) nodelay header local of
        (Inl e, g) \<Rightarrow> (gate_close powf2 g c (Some e) now, None)
      | (Inr (peer, dst), g) \<Rightarrow>
          (case runtime_policy ops (gt_rt g) (sock_ip peer) unix now of (p, blocked) \<Rightarrow>
           if blocked \<or> (\<not> p_observe p \<and> p_mode p = 3) then (gate_close powf2 g c None now, None)
           else case accept (gt_lim g) (gt_met g) (sock_ip peer) p now of (t, l, m) \<Rightarrow>
             let g = g\<lparr>gt_lim := l, gt_met := m\<rparr> in
             case t of
               None \<Rightarrow> (gate_close powf2 g c None now, None)
             | Some t \<Rightarrow> (g, Some (c\<lparr>cn_phase := AwaitHandshake, cn_peer := peer, cn_dst := dst, cn_ticket := Some t,
                 cn_left := pr_max_initial_bytes (cfg_protocol (gt_cfg g))\<rparr>))))"

definition reject :: "ticket \<Rightarrow> ticket" where
  "reject t = t\<lparr>tk_server_rejected := True\<rparr>"

text \<open>One charge of the limiter by a segment.\<close>

definition gate_event :: "('a, 'b, 'j) gate \<Rightarrow> ticket \<Rightarrow> event_kind \<Rightarrow> policy \<Rightarrow> instant \<Rightarrow> bool \<times> ('a, 'b, 'j) gate" where
  "gate_event g t ev p now = (case event (gt_lim g) (gt_met g) t ev p now of (ok, l, m) \<Rightarrow> (ok, g\<lparr>gt_lim := l, gt_met := m\<rparr>))"

definition close_with :: "(f64 \<Rightarrow> f64) \<Rightarrow> ('a, 'b, 'j) gate \<Rightarrow> conn \<Rightarrow> ticket \<Rightarrow> perror option \<Rightarrow> instant
    \<Rightarrow> ('a, 'b, 'j) gate \<times> conn option" where
  "close_with powf2 g c t err now = (gate_close powf2 g (c\<lparr>cn_ticket := Some t\<rparr>) err now, None)"

text \<open>
  A status handshake: the per-source cap, then the status permit, then the charge; a
  permit that is acquired before a refused charge is back when the handler returns.
\<close>

definition begin_status :: "(f64 \<Rightarrow> f64) \<Rightarrow> ('a, 'b, 'j) gate \<Rightarrow> conn \<Rightarrow> ticket \<Rightarrow> bool \<Rightarrow> policy \<Rightarrow> instant
    \<Rightarrow> ('a, 'b, 'j) gate \<times> conn option" where
  "begin_status powf2 g c t separate p now =
     (case enter_status (gt_lim g) (gt_met g) t of (ok, t, l, m) \<Rightarrow>
      let g = g\<lparr>gt_lim := l, gt_met := m\<rparr> in
      if \<not> ok then close_with powf2 g c t None now
      else if gt_status g = 0
      then close_with powf2 (g\<lparr>gt_met := metrics_inc (metrics_inc (gt_met g) 20) 37\<rparr>) c (reject t) None now
      else case gate_event g t (if separate then EvStatus else EvHandshake) p now of (ok, g) \<Rightarrow>
        if \<not> ok then close_with powf2 g c (reject t) None now
        else (g\<lparr>gt_status := gt_status g - 1, gt_met := gauge_new (gt_met g) 36\<rparr>,
              Some (c\<lparr>cn_phase := AwaitRequest separate, cn_ticket := Some t\<rparr>)))"

definition begin_login :: "(f64 \<Rightarrow> f64) \<Rightarrow> ('a, 'b, 'j) gate \<Rightarrow> conn \<Rightarrow> ticket \<Rightarrow> policy \<Rightarrow> instant
    \<Rightarrow> ('a, 'b, 'j) gate \<times> conn option" where
  "begin_login powf2 g c t p now =
     (case gate_event g t EvHandshake p now of (ok, g) \<Rightarrow>
      if \<not> ok then close_with powf2 g c (reject t) None now
      else case login_max (cn_version c) (cfg_protocol (gt_cfg g)) of
        Inl e \<Rightarrow> close_with powf2 g c (reject t) (Some e) now
      | Inr _ \<Rightarrow> (g, Some (c\<lparr>cn_phase := AwaitLogin, cn_ticket := Some t\<rparr>)))"

definition seg_handshake :: "('a, 'b) ipnet_ops \<Rightarrow> (f64 \<Rightarrow> f64) \<Rightarrow> ('a, 'b, 'j) gate \<Rightarrow> conn \<Rightarrow> ticket
    \<Rightarrow> perror + frame_rec \<Rightarrow> usize \<Rightarrow> nat \<Rightarrow> instant \<Rightarrow> ('a, 'b, 'j) gate \<times> conn option" where
  "seg_handshake ops powf2 g c t fr left unix now =
     (case fr of
        Inl e \<Rightarrow> close_with powf2 g c t (Some e) now
      | Inr f \<Rightarrow>
          (case handshake (frame_body f) (cfg_protocol (gt_cfg g)) of
             Inl e \<Rightarrow> close_with powf2 g c t (Some e) now
           | Inr h \<Rightarrow>
               let t = t\<lparr>tk_handshake := True\<rparr>; g = g\<lparr>gt_met := metrics_inc (gt_met g) 4\<rparr>;
                   c = c\<lparr>cn_left := left, cn_version := hs_version h, cn_handshake_wire := fr_wire f\<rparr>;
                   separate = (hs_state h = 1 \<and> lim_separate_status_budget (cfg_limits (gt_cfg g)))
               in case runtime_policy ops (gt_rt g) (sock_ip (cn_peer c)) unix now of (p, blocked) \<Rightarrow>
                 if blocked then close_with powf2 g c (reject t) None now
                 else if hs_state h = 1 then begin_status powf2 g c t separate p now
                 else begin_login powf2 g c t p now))"

datatype write_outcome = Written | WriteFailed | WriteTimeout

definition write_error :: "write_outcome \<Rightarrow> perror option" where
  "write_error w = (case w of Written \<Rightarrow> None | WriteFailed \<Rightarrow> Some Io | WriteTimeout \<Rightarrow> Some Deadline)"

definition seg_request :: "('a, 'b) ipnet_ops \<Rightarrow> (f64 \<Rightarrow> f64) \<Rightarrow> ('a, 'b, 'j) gate \<Rightarrow> conn \<Rightarrow> ticket \<Rightarrow> bool
    \<Rightarrow> perror + frame_rec \<Rightarrow> usize \<Rightarrow> nat \<Rightarrow> instant \<Rightarrow> ('a, 'b, 'j) gate \<times> conn option" where
  "seg_request ops powf2 g c t separate fr left unix now =
     (case bind_result fr (\<lambda>f. status_request (frame_body f)) of
        Inl e \<Rightarrow> close_with powf2 g c t (Some e) now
      | Inr _ \<Rightarrow>
          let g = g\<lparr>gt_met := metrics_inc (gt_met g) 6\<rparr> in
          case runtime_policy ops (gt_rt g) (sock_ip (cn_peer c)) unix now of (p, blocked) \<Rightarrow>
            if blocked then close_with powf2 g c (reject t) None now
            else case if separate then (True, g) else gate_event g t EvStatus p now of (ok, g) \<Rightarrow>
              if \<not> ok then close_with powf2 g c (reject t) None now
              else case status_cache_get (gt_cache g) (gt_met g) (cn_version c) now of (response, m) \<Rightarrow>
                (g\<lparr>gt_met := m\<rparr>, Some (c\<lparr>cn_phase := AwaitReply response, cn_left := left\<rparr>)))"

definition seg_reply :: "(f64 \<Rightarrow> f64) \<Rightarrow> ('a, 'b, 'j) gate \<Rightarrow> conn \<Rightarrow> ticket \<Rightarrow> write_outcome \<Rightarrow> instant
    \<Rightarrow> ('a, 'b, 'j) gate \<times> conn option" where
  "seg_reply powf2 g c t w now =
     (case write_error w of
        Some e \<Rightarrow> close_with powf2 g c t (Some e) now
      | None \<Rightarrow> (g, Some (c\<lparr>cn_phase := AwaitPing, cn_ticket := Some (t\<lparr>tk_status_complete := True\<rparr>)\<rparr>)))"

definition seg_ping :: "(f64 \<Rightarrow> f64) \<Rightarrow> ('a, 'b, 'j) gate \<Rightarrow> conn \<Rightarrow> ticket \<Rightarrow> perror + frame_rec \<Rightarrow> usize \<Rightarrow> instant
    \<Rightarrow> ('a, 'b, 'j) gate \<times> conn option" where
  "seg_ping powf2 g c t fr left now =
     (case bind_result fr (\<lambda>f. ping (frame_body f)) of
        Inl e \<Rightarrow> close_with powf2 g c t (Some e) now
      | Inr _ \<Rightarrow> (g, Some (c\<lparr>cn_phase := AwaitPong, cn_left := left\<rparr>)))"

definition seg_pong :: "(f64 \<Rightarrow> f64) \<Rightarrow> ('a, 'b, 'j) gate \<Rightarrow> conn \<Rightarrow> ticket \<Rightarrow> write_outcome \<Rightarrow> instant
    \<Rightarrow> ('a, 'b, 'j) gate \<times> conn option" where
  "seg_pong powf2 g c t w now = close_with powf2 g c t (write_error w) now"

text \<open>After the login packet: policy and charge, the three permits, the circuit, the dial.\<close>

definition begin_dial :: "(f64 \<Rightarrow> f64) \<Rightarrow> ('a, 'b, 'j) gate \<Rightarrow> conn \<Rightarrow> ticket \<Rightarrow> instant \<Rightarrow> ('a, 'b, 'j) gate \<times> conn option" where
  "begin_dial powf2 g c t now =
     (if gt_admitted g = 0 \<or> gt_backend g = 0 \<or> gt_sockets g = 0
      then close_with powf2 (g\<lparr>gt_met := metrics_inc (gt_met g) 20\<rparr>) c (reject t) None now
      else case enter (gt_prot g) (gt_met g) now of (a, prot, m) \<Rightarrow>
        let g = g\<lparr>gt_prot := prot, gt_met := m\<rparr> in
        case a of
          None \<Rightarrow> close_with powf2 (g\<lparr>gt_met := metrics_inc (gt_met g) 47\<rparr>) c (reject t) None now
        | Some a \<Rightarrow>
            (g\<lparr>gt_admitted := gt_admitted g - 1, gt_backend := gt_backend g - 1, gt_sockets := gt_sockets g - 1,
               gt_met := metrics_inc (gauge_new (gt_met g) 3) 31\<rparr>,
             Some (c\<lparr>cn_phase := AwaitBackend a, cn_ticket := Some t\<rparr>)))"

definition seg_login :: "('a, 'b) ipnet_ops \<Rightarrow> (f64 \<Rightarrow> f64) \<Rightarrow> ('a, 'b, 'j) gate \<Rightarrow> conn \<Rightarrow> ticket
    \<Rightarrow> perror + frame_rec \<Rightarrow> usize \<Rightarrow> nat \<Rightarrow> instant \<Rightarrow> ('a, 'b, 'j) gate \<times> conn option" where
  "seg_login ops powf2 g c t fr left unix now =
     (case bind_result fr (\<lambda>f. login (frame_body f) (cn_version c) (cfg_protocol (gt_cfg g))) of
        Inl e \<Rightarrow> close_with powf2 g c t (Some e) now
      | Inr _ \<Rightarrow>
          let g = g\<lparr>gt_met := metrics_inc (gt_met g) 7\<rparr>;
              c = c\<lparr>cn_left := left, cn_login_wire := (case fr of Inr f \<Rightarrow> fr_wire f | Inl _ \<Rightarrow> [])\<rparr> in
          case runtime_policy ops (gt_rt g) (sock_ip (cn_peer c)) unix now of (p, blocked) \<Rightarrow>
            if blocked \<or> (\<not> p_observe p \<and> p_mode p = 3) then close_with powf2 g c (reject t) None now
            else case gate_event g t EvLogin p now of (ok, g) \<Rightarrow>
              if \<not> ok then close_with powf2 g c (reject t) None now
              else begin_dial powf2 g c t now)"

text \<open>
  The bytes that the dial writes to the backend: the PROXY header when configured (an
  address family mismatch fails the dial), then the client's two frames unchanged.
\<close>

definition backend_preamble :: "('a, 'b, 'j) config \<Rightarrow> conn \<Rightarrow> bytes option" where
  "backend_preamble cfg c =
     (if cfg_proxy_v2 cfg
      then map_option (\<lambda>h. h @ cn_handshake_wire c @ cn_login_wire c) (proxy_header (cn_peer c) (cn_dst c))
      else Some (cn_handshake_wire c @ cn_login_wire c))"

definition begin_relay :: "('a, 'b, 'j) config \<Rightarrow> metrics \<Rightarrow> instant \<Rightarrow> relay" where
  "begin_relay cfg m now =
     (let t = cfg_timeouts cfg
      in relay_new (cfg_upload cfg) (to_relay_stall_ms t) (to_half_close_ms t) (to_client_idle_ms t) m now)"

text \<open>\<open>ok\<close>: connecting, the socket option and every write succeeded before the deadline.\<close>

definition seg_backend :: "(f64 \<Rightarrow> f64) \<Rightarrow> ('a, 'b, 'j) gate \<Rightarrow> conn \<Rightarrow> ticket \<Rightarrow> attempt \<Rightarrow> bool \<Rightarrow> instant
    \<Rightarrow> ('a, 'b, 'j) gate \<times> conn option" where
  "seg_backend powf2 g c t a io_ok now =
     (let ok = (io_ok \<and> backend_preamble (gt_cfg g) c \<noteq> None) in
      case attempt_finish (gt_prot g) (gt_met g) a ok now of (prot, m) \<Rightarrow>
      let g = g\<lparr>gt_prot := prot, gt_met := m\<rparr> in
      if \<not> ok then
        (let g = g\<lparr>gt_met := gauge_drop (metrics_inc (gt_met g) 17) 3, gt_admitted := gt_admitted g + 1,
                   gt_backend := gt_backend g + 1, gt_sockets := gt_sockets g + 1\<rparr>
         in close_with powf2 g (c\<lparr>cn_phase := AwaitLogin\<rparr>) (reject t) None now)
      else
        (case mark_admitted (gt_lim g) t of (t, l) \<Rightarrow>
         let g = g\<lparr>gt_lim := l, gt_met := gauge_new (gt_met g) 30\<rparr>
         in (admission_drop g (cn_start c) now,
             Some (c\<lparr>cn_phase := InRelay, cn_relay := Some (begin_relay (gt_cfg g) (gt_met g) now), cn_ticket := Some t\<rparr>))))"

text \<open>
  A wake-up of the relay, on the shared counters. It may have to wait again; an error of the
  relay is counted. A relay that spins gives no result.
\<close>

definition seg_relay :: "(f64 \<Rightarrow> f64) \<Rightarrow> ('a, 'b, 'j) gate \<Rightarrow> conn \<Rightarrow> relay \<Rightarrow> wakeup \<Rightarrow> instant
    \<Rightarrow> (('a, 'b, 'j) gate \<times> conn option) option" where
  "seg_relay powf2 g c r p now =
     (case relay_poll r (p\<lparr>wk_now := now, wk_met := gt_met g\<rparr>) of
        None \<Rightarrow> None
      | Some (Pending, r) \<Rightarrow> Some (g\<lparr>gt_met := ep_met (rl_ep r)\<rparr>, Some (c\<lparr>cn_relay := Some r\<rparr>))
      | Some (Ready x, r) \<Rightarrow>
          (let g = g\<lparr>gt_met := ep_met (rl_ep r)\<rparr> in
           Some (gate_close powf2 (if isl x then g\<lparr>gt_met := metrics_inc (gt_met g) 25\<rparr> else g) c None now, None)))"

section \<open>Background tasks\<close>

text \<open>One turn of the maintenance task: sweep a shard, publish mode and telemetry.\<close>

definition gate_maintain :: "('a, 'b) ipnet_ops \<Rightarrow> ('a, 'b, 'j) gate \<Rightarrow> nat \<Rightarrow> nat \<Rightarrow> instant \<Rightarrow> ('a, 'b, 'j) gate" where
  "gate_maintain ops g shard unix now =
     (case sweep (gt_lim g) (gt_met g) shard now of (l, m) \<Rightarrow>
      let p = fst (runtime_policy ops (gt_rt g) (sock_ip (cfg_listen (gt_cfg g))) unix now);
          m = metrics_set (metrics_set m 34 (of_nat (p_mode p))) 35 (of_bool (p_observe p))
      in case telemetry (gt_rt g) unix now of (generation, rejected, missing) \<Rightarrow>
           g\<lparr>gt_lim := l, gt_met := metrics_set (metrics_set (metrics_set m 42 generation) 43 rejected) 51 missing\<rparr>)"

text \<open>The refresh task of the status cache, which holds a socket permit while it polls.\<close>

definition gate_poll :: "('a, 'b, 'j) gate \<Rightarrow> bool \<times> ('a, 'b, 'j) gate" where
  "gate_poll g = (case refresh_begin (gt_met g) (gt_sockets g) of (polling, m) \<Rightarrow>
     (polling, g\<lparr>gt_met := m, gt_sockets := gt_sockets g - of_bool polling\<rparr>))"

definition gate_polled :: "('a, 'b, 'j) gate \<Rightarrow> prepared option \<Rightarrow> instant \<Rightarrow> ('a, 'b, 'j) gate" where
  "gate_polled g polled now = (case refresh_end (gt_cache g) (gt_met g) polled now of (s, m) \<Rightarrow>
     g\<lparr>gt_cache := s, gt_met := m, gt_sockets := gt_sockets g + 1\<rparr>)"

definition refresh_abort :: "('a, 'b, 'j) gate \<Rightarrow> bool \<Rightarrow> ('a, 'b, 'j) gate" where
  "refresh_abort g polling =
     (if polling then g\<lparr>gt_met := gauge_drop (gt_met g) 3, gt_sockets := gt_sockets g + 1\<rparr> else g)"

section \<open>A connection\<close>

text \<open>
  The outcome of the operation that a handler waits for. \<open>resume\<close> runs the handler on it
  up to its next suspension; an outcome of another kind than the one it waits for does
  not occur and gives no result.
\<close>

datatype outcome =
    IdentityRead bool "perror + socket_addr \<times> socket_addr" "socket_addr option"
  | FrameRead "perror + frame_rec" usize
  | WriteDone write_outcome
  | DialDone bool
  | RelayWoken wakeup

definition resume :: "('a, 'b) ipnet_ops \<Rightarrow> (f64 \<Rightarrow> f64) \<Rightarrow> ('a, 'b, 'j) gate \<Rightarrow> conn \<Rightarrow> outcome \<Rightarrow> nat \<Rightarrow> instant
    \<Rightarrow> (('a, 'b, 'j) gate \<times> conn option) option" where
  "resume ops powf2 g c out unix now = (case cn_phase c of
     AwaitIdentity \<Rightarrow> (case out of
       IdentityRead nodelay header local \<Rightarrow> Some (seg_identity ops powf2 g c nodelay header local unix now) | _ \<Rightarrow> None)
   | AwaitHandshake \<Rightarrow> (case (out, cn_ticket c) of
       (FrameRead fr left, Some t) \<Rightarrow> Some (seg_handshake ops powf2 g c t fr left unix now) | _ \<Rightarrow> None)
   | AwaitRequest separate \<Rightarrow> (case (out, cn_ticket c) of
       (FrameRead fr left, Some t) \<Rightarrow> Some (seg_request ops powf2 g c t separate fr left unix now) | _ \<Rightarrow> None)
   | AwaitReply _ \<Rightarrow> (case (out, cn_ticket c) of
       (WriteDone w, Some t) \<Rightarrow> Some (seg_reply powf2 g c t w now) | _ \<Rightarrow> None)
   | AwaitPing \<Rightarrow> (case (out, cn_ticket c) of
       (FrameRead fr left, Some t) \<Rightarrow> Some (seg_ping powf2 g c t fr left now) | _ \<Rightarrow> None)
   | AwaitPong \<Rightarrow> (case (out, cn_ticket c) of
       (WriteDone w, Some t) \<Rightarrow> Some (seg_pong powf2 g c t w now) | _ \<Rightarrow> None)
   | AwaitLogin \<Rightarrow> (case (out, cn_ticket c) of
       (FrameRead fr left, Some t) \<Rightarrow> Some (seg_login ops powf2 g c t fr left unix now) | _ \<Rightarrow> None)
   | AwaitBackend a \<Rightarrow> (case (out, cn_ticket c) of
       (DialDone ok, Some t) \<Rightarrow> Some (seg_backend powf2 g c t a ok now) | _ \<Rightarrow> None)
   | InRelay \<Rightarrow> (case (out, cn_relay c) of
       (RelayWoken p, Some r) \<Rightarrow> seg_relay powf2 g c r p now | _ \<Rightarrow> None))"

text \<open>
  The read that a handler waits for: the handshake within a deadline counted from the
  accept, the others within their phase. \<open>serve\<close> is the read followed by the segment.
\<close>

definition handler_read :: "'w reader_ops \<Rightarrow> ('a, 'b, 'j) config \<Rightarrow> conn \<Rightarrow> instant \<Rightarrow> 'w
    \<Rightarrow> ((perror + frame_rec) \<times> usize \<times> 'w) option" where
  "handler_read rd cfg c now w = (let t = cfg_timeouts cfg in case cn_phase c of
     AwaitHandshake \<Rightarrow> Some (read_frame rd (handshake_max (cfg_protocol cfg)) (cn_left c)
       (cn_start c + from_millis (to_handshake_ms t)) (from_millis (to_progress_ms t)) (from_millis (to_first_progress_ms t)) w)
   | AwaitRequest _ \<Rightarrow> Some (phase rd cfg (cn_left c) (to_status_ms t) 5 now w)
   | AwaitPing \<Rightarrow> Some (phase rd cfg (cn_left c) (to_status_ms t) 13 now w)
   | AwaitLogin \<Rightarrow> (case login_max (cn_version c) (cfg_protocol cfg) of
       Inr max_len \<Rightarrow> Some (phase rd cfg (cn_left c) (to_login_ms t) max_len now w) | Inl _ \<Rightarrow> None)
   | _ \<Rightarrow> None)"

definition serve :: "'w reader_ops \<Rightarrow> ('a, 'b) ipnet_ops \<Rightarrow> (f64 \<Rightarrow> f64) \<Rightarrow> ('a, 'b, 'j) gate \<Rightarrow> conn \<Rightarrow> nat \<Rightarrow> instant
    \<Rightarrow> instant \<Rightarrow> 'w \<Rightarrow> (('a, 'b, 'j) gate \<times> conn option \<times> 'w) option" where
  "serve rd ops powf2 g c unix now now' w =
     (case handler_read rd (gt_cfg g) c now w of
        None \<Rightarrow> None
      | Some (fr, left, w') \<Rightarrow>
          map_option (\<lambda>(g, oc). (g, oc, w')) (resume ops powf2 g c (FrameRead fr left) unix now'))"

section \<open>The state machine of the gate\<close>

text \<open>
  The shared state, the handlers that are alive, what the refresh task does and whether
  the listener is open.
\<close>

datatype rphase = RefreshIdle | RefreshPolling | RefreshStopped

record ('a, 'b, 'j) gsys =
  gs_gate :: "('a, 'b, 'j) gate"
  gs_conns :: "conn multiset"
  gs_refresh :: rphase
  gs_listening :: bool

fun add_opt :: "'x option \<Rightarrow> 'x multiset \<Rightarrow> 'x multiset" where
  "add_opt None M = M"
| "add_opt (Some x) M = add_mset x M"

definition gate_init :: "'j json_ops \<Rightarrow> ('a, 'b, 'j) config \<Rightarrow> ('a, 'b, 'j) gsys \<Rightarrow> bool" where
  "gate_init js c s \<longleftrightarrow> gs_conns s = {#} \<and> gs_refresh s = RefreshIdle \<and> gs_listening s \<and>
     (\<exists>h1 h2 now. gate_new js c h1 h2 now = Some (gs_gate s))"

text \<open>
  The outcomes of reads, writes, dials and polls and the wake-ups of relays are arbitrary, so the machine
  covers every peer, every backend and every schedule. A handler is aborted only in the
  shutdown, wherever it waits.
\<close>

inductive gate_step :: "('a, 'b) ipnet_ops \<Rightarrow> (bytes \<Rightarrow> ('a, 'b) wire option) \<Rightarrow> (f64 \<Rightarrow> f64)
    \<Rightarrow> ('a, 'b, 'j) gsys \<Rightarrow> ('a, 'b, 'j) gsys \<Rightarrow> bool"
  for ops :: "('a, 'b) ipnet_ops" and parse :: "bytes \<Rightarrow> ('a, 'b) wire option" and powf2 :: "f64 \<Rightarrow> f64" where
  gate_accepts: "\<lbrakk>gs_listening s; gate_accept ops (gs_gate s) peer now = (g, oc)\<rbrakk>
    \<Longrightarrow> gate_step ops parse powf2 s (s\<lparr>gs_gate := g, gs_conns := add_opt oc (gs_conns s)\<rparr>)"
| gate_accept_fails: "gs_listening s
    \<Longrightarrow> gate_step ops parse powf2 s (s\<lparr>gs_gate := accept_failed (gs_gate s)\<rparr>)"
| gate_runs: "\<lbrakk>gs_conns s = add_mset c M; resume ops powf2 (gs_gate s) c out unix now = Some (g, oc)\<rbrakk>
    \<Longrightarrow> gate_step ops parse powf2 s (s\<lparr>gs_gate := g, gs_conns := add_opt oc M\<rparr>)"
| gate_watches: "cfg_runtime_file (gt_cfg (gs_gate s)) \<noteq> [] \<Longrightarrow> gate_step ops parse powf2 s
    (s\<lparr>gs_gate := (gs_gate s)\<lparr>gt_rt := watch_turn ops parse (gt_rt (gs_gate s)) doc unix now\<rparr>\<rparr>)"
| gate_polls: "\<lbrakk>gs_refresh s = RefreshIdle; gate_poll (gs_gate s) = (polling, g)\<rbrakk>
    \<Longrightarrow> gate_step ops parse powf2 s (s\<lparr>gs_gate := g, gs_refresh := (if polling then RefreshPolling else RefreshIdle)\<rparr>)"
| gate_poll_ends: "gs_refresh s = RefreshPolling
    \<Longrightarrow> gate_step ops parse powf2 s (s\<lparr>gs_gate := gate_polled (gs_gate s) polled now, gs_refresh := RefreshIdle\<rparr>)"
| gate_maintains: "gate_step ops parse powf2 s (s\<lparr>gs_gate := gate_maintain ops (gs_gate s) shard unix now\<rparr>)"
| gate_shuts_down: "gs_listening s
    \<Longrightarrow> gate_step ops parse powf2 s (s\<lparr>gs_gate := refresh_abort (gs_gate s) (gs_refresh s = RefreshPolling),
          gs_refresh := RefreshStopped, gs_listening := False\<rparr>)"
| gate_aborts: "\<lbrakk>\<not> gs_listening s; gs_conns s = add_mset c M\<rbrakk>
    \<Longrightarrow> gate_step ops parse powf2 s (s\<lparr>gs_gate := gate_close powf2 (gs_gate s) c None now, gs_conns := M\<rparr>)"

abbreviation gate_reachable :: "('a, 'b) ipnet_ops \<Rightarrow> 'j json_ops \<Rightarrow> (bytes \<Rightarrow> ('a, 'b) wire option) \<Rightarrow> (f64 \<Rightarrow> f64)
    \<Rightarrow> ('a, 'b, 'j) config \<Rightarrow> ('a, 'b, 'j) gsys \<Rightarrow> bool" where
  "gate_reachable ops js parse powf2 c \<equiv> reachable (gate_init js c) (gate_step ops parse powf2)"

end
