(* ===== verification/Gate_Inv.thy ===== *)
theory Gate_Inv
  imports Gate
begin

text \<open>
  The invariant of the whole gate: permits, gauges and limiter counters account for the
  connections that are alive, in every interleaving of their segments with the
  background tasks.
\<close>

section \<open>Metrics that are not gauges of connections\<close>

definition calm :: "metrics \<Rightarrow> metrics \<Rightarrow> bool" where
  "calm m m' \<longleftrightarrow> (metrics_wf m \<longrightarrow> metrics_wf m' \<and> (\<forall>j \<in> {1, 2, 3, 30, 36}. metrics_get m' j = metrics_get m j))"

definition quiet :: "metrics \<Rightarrow> metrics \<Rightarrow> bool" where
  "quiet m m' \<longleftrightarrow> calm m m' \<and> (metrics_wf m \<longrightarrow> (\<forall>j \<in> {32, 33}. metrics_get m' j = metrics_get m j))"

lemma calm_refl [simp]: "calm m m"
  by (simp add: calm_def)

lemma quiet_refl [simp]: "quiet m m"
  by (simp add: quiet_def)

lemma calm_trans: "calm m m' \<Longrightarrow> calm m' m'' \<Longrightarrow> calm m m''"
  by (simp add: calm_def)

lemma quiet_trans: "quiet m m' \<Longrightarrow> quiet m' m'' \<Longrightarrow> quiet m m''"
  by (auto simp: quiet_def calm_def)

lemma quiet_calm: "quiet m m' \<Longrightarrow> calm m m'"
  by (simp add: quiet_def)

lemma quiet_add:
  "quiet m m' \<Longrightarrow> i \<notin> {1, 2, 3, 30, 36, 32, 33} \<Longrightarrow> i < 56 \<Longrightarrow> quiet m (metrics_add m' i v)"
  by (auto simp: quiet_def calm_def metrics_gets)

lemma quiet_inc:
  "quiet m m' \<Longrightarrow> i \<notin> {1, 2, 3, 30, 36, 32, 33} \<Longrightarrow> i < 56 \<Longrightarrow> quiet m (metrics_inc m' i)"
  unfolding metrics_inc_def by (rule quiet_add)

lemma quiet_set:
  "quiet m m' \<Longrightarrow> i \<notin> {1, 2, 3, 30, 36, 32, 33} \<Longrightarrow> i < 56 \<Longrightarrow> quiet m (metrics_set m' i v)"
  by (auto simp: quiet_def calm_def metrics_gets)

lemma calm_inc: "calm m m' \<Longrightarrow> i \<notin> {1, 2, 3, 30, 36} \<Longrightarrow> i < 56 \<Longrightarrow> calm m (metrics_inc m' i)"
  by (auto simp: calm_def metrics_gets)

lemma calm_judged: "calm m m' \<Longrightarrow> r \<in> {14, 15, 16} \<Longrightarrow> calm m (snd (judged m' ok r p))"
  by (auto simp: judged_def intro: calm_inc)

lemma quiet_judged: "quiet m m' \<Longrightarrow> r \<in> {14, 15, 16} \<Longrightarrow> quiet m (snd (judged m' ok r p))"
  by (auto simp: judged_def intro: quiet_inc)

lemma commit_calm:
  assumes "calm m m'"
  shows "calm m (snd (snd (accept_commit l m' p b ip i ok b' px net ok' ok'')))"
proof -
  have "calm m m1 \<Longrightarrow> i < 56 \<Longrightarrow> j < 56 \<Longrightarrow> {i, j} \<inter> {1, 2, 3, 30, 36} = {} \<Longrightarrow>
      calm m (if c then metrics_inc (metrics_inc m1 i) j else m1)" for m1 i j c
    by (auto intro!: calm_inc)
  then show ?thesis unfolding accept_commit_def Let_def snd_conv using assms by simp
qed

lemma calm_branch: "(c \<Longrightarrow> calm m (snd (snd x))) \<Longrightarrow> (\<not> c \<Longrightarrow> calm m (snd (snd y))) \<Longrightarrow> calm m (snd (snd (if c then x else y)))"
  by simp

lemma accept_calm: "calm m (snd (snd (accept l m addr p now)))"
  unfolding accept_outcome Let_def
  by (intro calm_branch commit_calm; (simp only: snd_conv)?; intro calm_judged calm_inc calm_refl; simp)

lemma event_quiet: "quiet m (snd (snd (event l m t ev p now)))"
proof (cases "table_get (li_ip l) (tk_ip t) = None \<or> table_get (li_prefix l) (tk_prefix t) = None")
  case False
  then obtain i net where e: "table_get (li_ip l) (tk_ip t) = Some i" "table_get (li_prefix l) (tk_prefix t) = Some net"
    by auto
  show ?thesis unfolding event_outcome [OF e] Let_def by (auto intro!: quiet_judged)
qed (simp add: event_missing)

lemma enter_status_quiet: "quiet m (snd (snd (snd (enter_status l m t))))"
  by (auto simp: enter_status_def intro!: quiet_inc split: option.split)

lemma drop_metrics_quiet: "quiet m (drop_metrics t m)"
  by (auto simp: drop_metrics_def Let_def intro!: quiet_inc)

lemma record_error_quiet: "quiet m (record_error m e)"
  by (auto simp: record_error_def intro!: quiet_inc split: perror.split)

lemma enter_quiet: "quiet m (snd (snd (enter p m now)))"
  by (auto simp: enter_def Let_def intro!: quiet_inc split: prod.split)

lemma finish_quiet: "quiet m (snd (protection_finish p m g ok now))"
  by (auto simp: protection_finish_def Let_def intro!: quiet_inc)

lemma attempt_drop_quiet: "quiet m (snd (attempt_drop p m a now))"
  using finish_quiet [of m p "at_generation a" False now] by (simp add: attempt_drop_def case_prod_beta)

lemma attempt_finish_quiet: "quiet m (snd (attempt_finish p m a ok now))"
  using finish_quiet [of m p "at_generation a" ok now] by (simp add: attempt_finish_def attempt_drop_def case_prod_beta)

lemma prelogin_time_quiet: "quiet m m' \<Longrightarrow> quiet m (prelogin_time_drop m' start now)"
  unfolding prelogin_time_drop_def by (intro quiet_inc quiet_add) auto

section \<open>The limiter of the gate\<close>

lemma lsys_met:
  assumes "lsys_inv cfg \<lparr>ls_lim = l, ls_met = m, ls_conns = T\<rparr>" "metrics_wf m'"
    and "metrics_get m' 32 = metrics_get m 32" "metrics_get m' 33 = metrics_get m 33"
  shows "lsys_inv cfg \<lparr>ls_lim = l, ls_met = m', ls_conns = T\<rparr>"
  using assms by (simp add: lsys_inv_def gauged_def)

lemma lsys_wf: "lsys_inv cfg s \<Longrightarrow> metrics_wf (ls_met s)"
  by (simp add: lsys_inv_def gauged_def)

lemma lsys_quiet:
  "lsys_inv cfg \<lparr>ls_lim = l, ls_met = m, ls_conns = T\<rparr> \<Longrightarrow> quiet m m' \<Longrightarrow> lsys_inv cfg \<lparr>ls_lim = l, ls_met = m', ls_conns = T\<rparr>"
  using lsys_wf by (fastforce intro: lsys_met simp: quiet_def calm_def)

lemma lsys_drop:
  assumes "lsys_inv cfg \<lparr>ls_lim = l, ls_met = m, ls_conns = add_mset (t, Live) T\<rparr>"
    and "ticket_drop powf2 l m t now = (l', m')"
  shows "lsys_inv cfg \<lparr>ls_lim = l', ls_met = m', ls_conns = T\<rparr>"
proof -
  have "lsys_inv cfg \<lparr>ls_lim = drop_ip powf2 l t now, ls_met = drop_metrics t m, ls_conns = add_mset (t, Dropping now) T\<rparr>"
    using drop_ip_inv [OF assms(1), of t T powf2 now] by simp
  from drop_prefix_inv [OF this, of t now T powf2] assms(2) show ?thesis by (simp add: ticket_drop_steps)
qed

lemma lsys_mark:
  assumes "lsys_inv cfg \<lparr>ls_lim = l, ls_met = m, ls_conns = add_mset (t, Live) T\<rparr>" "mark_admitted l t = (t', l')"
  shows "lsys_inv cfg \<lparr>ls_lim = l', ls_met = m, ls_conns = add_mset (t', Live) T\<rparr>"
proof (cases "tk_admitted t")
  case True
  then show ?thesis using assms by (simp add: mark_admitted_def)
next
  case False
  have "lsys_inv cfg \<lparr>ls_lim = mark_ip l t, ls_met = m, ls_conns = add_mset (t, Marking) T\<rparr>"
    using mark_ip_inv [OF assms(1), of t T] False by simp
  from mark_prefix_inv [OF this, of t T] assms(2) False show ?thesis by (simp add: mark_admitted_steps)
qed

lemma lsys_flags:
  assumes "lsys_inv cfg \<lparr>ls_lim = l, ls_met = m, ls_conns = add_mset (t, Live) T\<rparr>"
  shows "lsys_inv cfg \<lparr>ls_lim = l, ls_met = m, ls_conns = add_mset
    (t\<lparr>tk_handshake := h, tk_status_complete := c, tk_server_rejected := r\<rparr>, Live) T\<rparr>"
  using flags_inv [OF assms, where t = t and rest = T and h = h and c = c and r = r] by simp

lemma lsys_event:
  assumes "lsys_inv cfg \<lparr>ls_lim = l, ls_met = m, ls_conns = add_mset (t, Live) T\<rparr>"
    and "event l m t ev p now = (ok, l', m')" "p_mode p < 4"
  shows "lsys_inv cfg \<lparr>ls_lim = l', ls_met = m', ls_conns = add_mset (t, Live) T\<rparr>"
  using step_inv [OF assms(1) step_event [of _ t T ev p now ok l' m']] assms(2,3) by simp

lemma lsys_refused:
  assumes "lsys_inv cfg \<lparr>ls_lim = l, ls_met = m, ls_conns = T\<rparr>"
    and "accept l m addr p now = (None, l', m')" "p_mode p < 4"
  shows "lsys_inv cfg \<lparr>ls_lim = l', ls_met = m', ls_conns = T\<rparr>"
  using step_inv [OF assms(1) step_refuse [of _ addr p now l' m']] assms(2,3) by simp

lemma lsys_accepted:
  assumes "lsys_inv cfg \<lparr>ls_lim = l, ls_met = m, ls_conns = T\<rparr>"
    and "accept l m addr p now = (Some t, l', m')" "p_mode p < 4" "size T < lim_total_sockets cfg"
  shows "lsys_inv cfg \<lparr>ls_lim = l', ls_met = m', ls_conns = add_mset (t, Live) T\<rparr>"
  using accept_inv [OF assms(1), of addr p now t l' m'] assms(2-4) by simp

lemma lsys_status:
  assumes "lsys_inv cfg \<lparr>ls_lim = l, ls_met = m, ls_conns = add_mset (t, Live) T\<rparr>"
    and "enter_status l m t = (ok, t', l', m')"
  shows "lsys_inv cfg \<lparr>ls_lim = l', ls_met = m', ls_conns = add_mset (t', Live) T\<rparr>"
  using status_inv [OF assms(1), of t T ok t' l' m'] assms(2) by simp

lemma lsys_sweep:
  assumes "lsys_inv cfg \<lparr>ls_lim = l, ls_met = m, ls_conns = T\<rparr>" "sweep l m shard now = (l', m')"
  shows "lsys_inv cfg \<lparr>ls_lim = l', ls_met = m', ls_conns = T\<rparr>"
proof -
  obtain ip m1 where ip: "table_sweep (li_cfg l) (li_ip l) m 32 shard now = (ip, m1)" by fastforce
  obtain px m2 where px: "table_sweep (li_cfg l) (li_prefix l) m1 33 shard now = (px, m2)" by fastforce
  have "lsys_inv cfg \<lparr>ls_lim = l\<lparr>li_ip := ip\<rparr>, ls_met = m1, ls_conns = T\<rparr>"
    using sweep_ip_inv [OF assms(1), of shard now ip m1] ip by simp
  from sweep_prefix_inv [OF this, of shard now px m2] px assms(2) ip show ?thesis by (simp add: sweep_def)
qed

section \<open>The invariant\<close>

definition pick :: "('x \<Rightarrow> 'y option) \<Rightarrow> 'x multiset \<Rightarrow> 'y multiset" where
  "pick f M = image_mset (\<lambda>x. the (f x)) {#x \<in># M. f x \<noteq> None#}"

lemma pick_empty [simp]: "pick f {#} = {#}"
  by (simp add: pick_def)

lemma pick_add [simp]: "pick f (add_mset x M) = add_opt (f x) (pick f M)"
  by (cases "f x") (simp_all add: pick_def)

lemma pick_size: "size (pick f M) \<le> size M"
  by (simp add: pick_def size_filter_mset_lesseq)

definition held :: "(hphase \<Rightarrow> bool) \<Rightarrow> conn multiset \<Rightarrow> nat" where
  "held P M = size {#c \<in># M. P (cn_phase c)#}"

lemma held_empty [simp]: "held P {#} = 0"
  by (simp add: held_def)

lemma held_add [simp]: "held P (add_mset c M) = of_bool (P (cn_phase c)) + held P M"
  by (simp add: held_def)

definition tickets_of :: "conn multiset \<Rightarrow> (ticket \<times> tphase) multiset" where
  "tickets_of = pick (\<lambda>c. map_option (\<lambda>t. (t, Live)) (cn_ticket c))"

fun attempt_of :: "hphase \<Rightarrow> attempt option" where
  "attempt_of (AwaitBackend a) = Some a"
| "attempt_of _ = None"

definition flights_of :: "conn multiset \<Rightarrow> attempt multiset" where
  "flights_of = pick (\<lambda>c. attempt_of (cn_phase c))"

lemma parts_of_add [simp]:
  "tickets_of (add_mset c M) = add_opt (map_option (\<lambda>t. (t, Live)) (cn_ticket c)) (tickets_of M)"
  "flights_of (add_mset c M) = add_opt (attempt_of (cn_phase c)) (flights_of M)"
  "tickets_of {#} = {#}" "flights_of {#} = {#}"
  by (simp_all add: tickets_of_def flights_of_def)

text \<open>The semaphores: what is free and what the handlers hold add up to the configuration.\<close>

definition permits_ok :: "('a, 'b, 'j) config \<Rightarrow> bool \<Rightarrow> ('a, 'b, 'j) gate \<Rightarrow> conn multiset \<Rightarrow> bool" where
  "permits_ok cfg polling g M \<longleftrightarrow>
     gt_sockets g + size M + held on_backend M + of_bool polling = lim_total_sockets (cfg_limits cfg) \<and>
     gt_prelogin g + held (\<lambda>ph. ph \<noteq> InRelay) M = lim_prelogin (cfg_limits cfg) \<and>
     gt_admitted g + held on_backend M = lim_admitted (cfg_limits cfg) \<and>
     gt_backend g + held on_backend M = lim_backend (cfg_limits cfg) - 1 \<and>
     gt_status g + held in_status M = status_slots (cfg_limits cfg)"

definition gauges_ok :: "bool \<Rightarrow> metrics \<Rightarrow> conn multiset \<Rightarrow> bool" where
  "gauges_ok polling m M \<longleftrightarrow> metrics_wf m \<and>
     metrics_get m 1 = of_nat (size M) \<and> metrics_get m 2 = of_nat (held (\<lambda>ph. ph \<noteq> InRelay) M) \<and>
     metrics_get m 3 = of_nat (held on_backend M + of_bool polling) \<and>
     metrics_get m 30 = of_nat (held (\<lambda>ph. ph = InRelay) M) \<and> metrics_get m 36 = of_nat (held in_status M)"

definition limiter_ok :: "('a, 'b, 'j) config \<Rightarrow> ('a, 'b, 'j) gate \<Rightarrow> conn multiset \<Rightarrow> bool" where
  "limiter_ok cfg g M \<longleftrightarrow> lsys_inv (cfg_limits cfg) \<lparr>ls_lim = gt_lim g, ls_met = gt_met g, ls_conns = tickets_of M\<rparr>"

definition dials_ok :: "('a, 'b, 'j) config \<Rightarrow> ('a, 'b, 'j) gate \<Rightarrow> conn multiset \<Rightarrow> bool" where
  "dials_ok cfg g M \<longleftrightarrow> (\<exists>opens. backend_inv (cfg_backend_protection cfg) (lim_backend (cfg_limits cfg) - 1)
     \<lparr>by_prot = gt_prot g, by_met = gt_met g, by_flight = flights_of M, by_opens = opens\<rparr>)"

definition modes_ok :: "('a, 'b) runtime \<Rightarrow> bool" where
  "modes_ok rt \<longleftrightarrow> (\<forall>s. rt_value rt = Some s \<longrightarrow> wi_mode (sn_wire s) \<le> 3)"

text \<open>
  What a handler has checked by the time it waits for the login packet, and by the time
  it has a backend: the bytes it keeps are those of a handshake and a login that parsed.
\<close>

definition handshake_seen :: "protocol \<Rightarrow> bytes \<Rightarrow> i32 \<Rightarrow> bool" where
  "handshake_seen pr wire version \<longleftrightarrow>
     (\<exists>f h. fr_wire f = wire \<and> handshake (frame_body f) pr = Inr h \<and> hs_state h \<noteq> 1 \<and> hs_version h = version)"

definition login_seen :: "protocol \<Rightarrow> bytes \<Rightarrow> i32 \<Rightarrow> bool" where
  "login_seen pr wire version \<longleftrightarrow> (\<exists>f. fr_wire f = wire \<and> login (frame_body f) version pr = Inr ())"

definition vetted :: "protocol \<Rightarrow> conn \<Rightarrow> bool" where
  "vetted pr c \<longleftrightarrow>
     (cn_phase c = AwaitLogin \<or> on_backend (cn_phase c) \<longrightarrow> handshake_seen pr (cn_handshake_wire c) (cn_version c)) \<and>
     (on_backend (cn_phase c) \<longrightarrow> login_seen pr (cn_login_wire c) (cn_version c))"

text \<open>The ticket of a handler names its client and agrees with how far the handler has come.\<close>

definition identified :: "limits \<Rightarrow> conn \<Rightarrow> bool" where
  "identified lm c \<longleftrightarrow> (case cn_ticket c of
     None \<Rightarrow> cn_phase c = AwaitIdentity
   | Some t \<Rightarrow> cn_phase c \<noteq> AwaitIdentity \<and> (tk_admitted t \<longrightarrow> cn_phase c = InRelay) \<and>
       (in_status (cn_phase c) \<longrightarrow> tk_status t) \<and> tk_ip t = normalize (sock_ip (cn_peer c)) \<and>
       tk_prefix t = prefix_of lm (sock_ip (cn_peer c)))"

definition conn_ok :: "('a, 'b, 'j) config \<Rightarrow> conn \<Rightarrow> bool" where
  "conn_ok cfg c \<longleftrightarrow> identified (cfg_limits cfg) c \<and> vetted (cfg_protocol cfg) c \<and> (cn_phase c = InRelay \<longleftrightarrow> cn_relay c \<noteq> None)"

definition gate_ok :: "('a, 'b, 'j) config \<Rightarrow> bool \<Rightarrow> ('a, 'b, 'j) gate \<Rightarrow> conn multiset \<Rightarrow> bool" where
  "gate_ok cfg polling g M \<longleftrightarrow> gt_cfg g = cfg \<and> permits_ok cfg polling g M \<and> gauges_ok polling (gt_met g) M \<and>
     limiter_ok cfg g M \<and> dials_ok cfg g M \<and> modes_ok (gt_rt g) \<and> (\<forall>c. c \<in># M \<longrightarrow> conn_ok cfg c)"

lemma gate_okD:
  assumes "gate_ok cfg polling g M"
  shows "gt_cfg g = cfg" "permits_ok cfg polling g M" "gauges_ok polling (gt_met g) M" "limiter_ok cfg g M"
    "dials_ok cfg g M" "modes_ok (gt_rt g)" "c \<in># M \<Longrightarrow> conn_ok cfg c"
  using assms unfolding gate_ok_def by blast+

lemma policy_mode: "modes_ok (gt_rt g) \<Longrightarrow> runtime_policy ops (gt_rt g) ip unix now = (p, blocked) \<Longrightarrow> p_mode p < 4"
  by (force simp: modes_ok_def runtime_policy_def Let_def split: option.splits if_splits)

lemma backend_met:
  "backend_inv cfg n \<lparr>by_prot = p, by_met = m, by_flight = F, by_opens = k\<rparr> \<Longrightarrow>
   backend_inv cfg n \<lparr>by_prot = p, by_met = m', by_flight = F, by_opens = k\<rparr>"
  by (simp add: backend_inv_def)

section \<open>Changes that keep it\<close>

lemma ok_met:
  assumes "gate_ok cfg polling g M" "quiet (gt_met g) m"
  shows "gate_ok cfg polling (g\<lparr>gt_met := m\<rparr>) M"
proof -
  note ok = gate_okD [OF assms(1)]
  have "gauges_ok polling m M" using ok(3) assms(2) by (simp add: gauges_ok_def quiet_def calm_def)
  moreover have "limiter_ok cfg (g\<lparr>gt_met := m\<rparr>) M" using ok(4) assms(2) by (simp add: limiter_ok_def lsys_quiet)
  moreover have "dials_ok cfg (g\<lparr>gt_met := m\<rparr>) M" using ok(5) by (auto simp: dials_ok_def intro: backend_met)
  ultimately show ?thesis using assms(1) by (simp add: gate_ok_def permits_ok_def)
qed

text \<open>What of a handler the shared state depends on.\<close>

definition same_role :: "conn \<Rightarrow> conn \<Rightarrow> bool" where
  "same_role c c' \<longleftrightarrow> in_status (cn_phase c') = in_status (cn_phase c) \<and> on_backend (cn_phase c') = on_backend (cn_phase c) \<and>
     (cn_phase c' = InRelay) = (cn_phase c = InRelay) \<and> attempt_of (cn_phase c') = attempt_of (cn_phase c)"

lemma ok_conn:
  assumes "gate_ok cfg polling g (add_mset c M)" "same_role c c'" "cn_ticket c' = cn_ticket c" "conn_ok cfg c'"
  shows "gate_ok cfg polling g (add_mset c' M)"
  using assms
  by (auto simp: gate_ok_def permits_ok_def gauges_ok_def limiter_ok_def dials_ok_def same_role_def)

lemma ok_limiter:
  assumes "gate_ok cfg polling g (add_mset c M)" "quiet (gt_met g) m" "same_role c c'" "conn_ok cfg c'"
    and "lsys_inv (cfg_limits cfg) \<lparr>ls_lim = l, ls_met = m, ls_conns = tickets_of (add_mset c' M)\<rparr>"
  shows "gate_ok cfg polling (g\<lparr>gt_lim := l, gt_met := m\<rparr>) (add_mset c' M)"
proof -
  have "gate_ok cfg polling (g\<lparr>gt_met := m\<rparr>) (add_mset c M)" by (rule ok_met [OF assms(1,2)])
  then show ?thesis using assms(3-5)
    by (auto simp: gate_ok_def permits_ok_def gauges_ok_def limiter_ok_def dials_ok_def same_role_def)
qed

section \<open>The end of a handler\<close>

text \<open>\<open>moves m m' d\<close>: the gauges move by \<open>d\<close>.\<close>

definition moves :: "metrics \<Rightarrow> metrics \<Rightarrow> (nat \<Rightarrow> u64) \<Rightarrow> bool" where
  "moves m m' d \<longleftrightarrow> (metrics_wf m \<longrightarrow> metrics_wf m' \<and>
     (\<forall>j \<in> {1, 2, 3, 30, 36, 32, 33}. metrics_get m' j = metrics_get m j + d j))"

lemma moves_refl: "moves m m (\<lambda>_. 0)"
  by (simp add: moves_def)

lemma moves_quiet: "moves m m' d \<Longrightarrow> quiet m' m'' \<Longrightarrow> moves m m'' d"
  by (simp add: moves_def quiet_def calm_def)

lemma moves_new: "moves m m' d \<Longrightarrow> i < 56 \<Longrightarrow> moves m (gauge_new m' i) (d(i := d i + 1))"
  by (auto simp: moves_def gauge_new_def metrics_gets)

lemma moves_drop: "moves m m' d \<Longrightarrow> i < 56 \<Longrightarrow> moves m (gauge_drop m' i) (d(i := d i - 1))"
  by (auto simp: moves_def gauge_drop_def metrics_gets)

lemma moves_drop_if:
  "moves m m' d \<Longrightarrow> i < 56 \<Longrightarrow> moves m (if b then gauge_drop m' i else m') (d(i := d i - of_bool b))"
  using moves_drop by simp

lemma moves_trans: "moves m m' d \<Longrightarrow> moves m' m'' d' \<Longrightarrow> moves m m'' (\<lambda>j. d j + d' j)"
  by (simp add: moves_def add.assoc)

lemma lsys_moves:
  "lsys_inv cfg \<lparr>ls_lim = l, ls_met = m, ls_conns = T\<rparr> \<Longrightarrow> moves m m' d \<Longrightarrow> d 32 = 0 \<Longrightarrow> d 33 = 0 \<Longrightarrow>
   lsys_inv cfg \<lparr>ls_lim = l, ls_met = m', ls_conns = T\<rparr>"
  using lsys_wf by (fastforce intro: lsys_met simp: moves_def)

lemma gauges_moves:
  assumes "gauges_ok polling m M" "moves m m' d"
    and "of_nat (size M) + d 1 = of_nat (size M')"
    and "of_nat (held (\<lambda>ph. ph \<noteq> InRelay) M) + d 2 = of_nat (held (\<lambda>ph. ph \<noteq> InRelay) M')"
    and "of_nat (held on_backend M + of_bool polling) + d 3 = of_nat (held on_backend M' + of_bool polling')"
    and "of_nat (held (\<lambda>ph. ph = InRelay) M) + d 30 = of_nat (held (\<lambda>ph. ph = InRelay) M')"
    and "of_nat (held in_status M) + d 36 = of_nat (held in_status M')"
  shows "gauges_ok polling' m' M'"
  using assms by (simp add: gauges_ok_def moves_def)

text \<open>Field by field, for each part of a closing handler.\<close>

lemma close_backend_fields [simp]:
  "gt_sockets (close_backend g ph now) = gt_sockets g + of_bool (on_backend ph)"
  "gt_admitted (close_backend g ph now) = gt_admitted g + of_bool (on_backend ph)"
  "gt_backend (close_backend g ph now) = gt_backend g + of_bool (on_backend ph)"
  "gt_prelogin (close_backend g ph now) = gt_prelogin g" "gt_status (close_backend g ph now) = gt_status g"
  "gt_cfg (close_backend g ph now) = gt_cfg g" "gt_rt (close_backend g ph now) = gt_rt g"
  "gt_lim (close_backend g ph now) = gt_lim g"
  "gt_prot (close_backend g ph now) = (case attempt_of ph of
     None \<Rightarrow> gt_prot g | Some a \<Rightarrow> fst (attempt_drop (gt_prot g) (gt_met g) a now))"
  by (cases ph; simp add: close_backend_def case_prod_beta)+

lemma close_ticket_fields [simp]:
  "gt_sockets (close_ticket powf2 g t now) = gt_sockets g" "gt_admitted (close_ticket powf2 g t now) = gt_admitted g"
  "gt_backend (close_ticket powf2 g t now) = gt_backend g" "gt_prelogin (close_ticket powf2 g t now) = gt_prelogin g"
  "gt_status (close_ticket powf2 g t now) = gt_status g" "gt_cfg (close_ticket powf2 g t now) = gt_cfg g"
  "gt_rt (close_ticket powf2 g t now) = gt_rt g" "gt_prot (close_ticket powf2 g t now) = gt_prot g"
  "gt_lim (close_ticket powf2 g t now) = (case t of
     None \<Rightarrow> gt_lim g | Some t \<Rightarrow> fst (ticket_drop powf2 (gt_lim g) (gt_met g) t now))"
  "gt_met (close_ticket powf2 g t now) = (case t of
     None \<Rightarrow> gt_met g | Some t \<Rightarrow> snd (ticket_drop powf2 (gt_lim g) (gt_met g) t now))"
  by (cases t; simp add: close_ticket_def case_prod_beta)+

lemma admission_drop_fields [simp]:
  "gt_sockets (admission_drop g start now) = gt_sockets g" "gt_admitted (admission_drop g start now) = gt_admitted g"
  "gt_backend (admission_drop g start now) = gt_backend g" "gt_prelogin (admission_drop g start now) = gt_prelogin g + 1"
  "gt_status (admission_drop g start now) = gt_status g" "gt_cfg (admission_drop g start now) = gt_cfg g"
  "gt_rt (admission_drop g start now) = gt_rt g" "gt_prot (admission_drop g start now) = gt_prot g"
  "gt_lim (admission_drop g start now) = gt_lim g"
  "gt_met (admission_drop g start now) = prelogin_time_drop (gauge_drop (gt_met g) 2) start now"
  by (simp_all add: admission_drop_def)

definition close_pre :: "('a, 'b, 'j) gate \<Rightarrow> hphase \<Rightarrow> instant \<Rightarrow> metrics" where
  "close_pre g ph now =
     (let m = gt_met (close_backend g ph now) in if in_status ph then gauge_drop m 36 else m)"

lemma close_permits [simp]:
  "gt_sockets (gate_close powf2 g c err now) = gt_sockets g + of_bool (on_backend (cn_phase c)) + 1"
  "gt_prelogin (gate_close powf2 g c err now) = gt_prelogin g + of_bool (cn_phase c \<noteq> InRelay)"
  "gt_admitted (gate_close powf2 g c err now) = gt_admitted g + of_bool (on_backend (cn_phase c))"
  "gt_backend (gate_close powf2 g c err now) = gt_backend g + of_bool (on_backend (cn_phase c))"
  "gt_status (gate_close powf2 g c err now) = gt_status g + of_bool (in_status (cn_phase c))"
  "gt_cfg (gate_close powf2 g c err now) = gt_cfg g" "gt_rt (gate_close powf2 g c err now) = gt_rt g"
  "gt_prot (gate_close powf2 g c err now) = (case attempt_of (cn_phase c) of
     None \<Rightarrow> gt_prot g | Some a \<Rightarrow> fst (attempt_drop (gt_prot g) (gt_met g) a now))"
  by (cases err; simp add: gate_close_def Let_def)+

lemma close_lim:
  "gt_lim (gate_close powf2 g c err now) = (case cn_ticket c of None \<Rightarrow> gt_lim g
     | Some t \<Rightarrow> fst (ticket_drop powf2 (gt_lim g) (close_pre g (cn_phase c) now) t now))"
  by (cases err) (simp_all add: gate_close_def close_pre_def Let_def split: option.split)

lemma close_met:
  "gt_met (gate_close powf2 g c err now) =
     (let m = (case cn_ticket c of None \<Rightarrow> close_pre g (cn_phase c) now
          | Some t \<Rightarrow> snd (ticket_drop powf2 (gt_lim g) (close_pre g (cn_phase c) now) t now));
          m = (if cn_phase c = InRelay then m else prelogin_time_drop (gauge_drop m 2) (cn_start c) now);
          m = (case err of None \<Rightarrow> m | Some e \<Rightarrow> record_error m e)
      in gauge_drop m 1)"
  by (cases err) (simp_all add: gate_close_def close_pre_def Let_def split: option.split)

lemma close_backend_met:
  "gt_met (close_backend g ph now) =
     (let m = (case attempt_of ph of None \<Rightarrow> gt_met g | Some a \<Rightarrow> snd (attempt_drop (gt_prot g) (gt_met g) a now));
          m = (if ph = InRelay then gauge_drop m 30 else m)
      in if on_backend ph then gauge_drop m 3 else m)"
  by (cases ph) (simp_all add: close_backend_def case_prod_beta)

lemma close_pre_moves:
  "moves (gt_met g) (close_pre g ph now)
     ((\<lambda>_. 0)(30 := - of_bool (ph = InRelay), 3 := - of_bool (on_backend ph), 36 := - of_bool (in_status ph)))"
proof -
  have "quiet (gt_met g) (case attempt_of ph of None \<Rightarrow> gt_met g | Some a \<Rightarrow> snd (attempt_drop (gt_prot g) (gt_met g) a now))"
    by (simp add: attempt_drop_quiet split: option.split)
  from moves_drop_if [OF moves_drop_if [OF moves_drop_if [OF moves_quiet [OF moves_refl this],
        of 30 "ph = InRelay"], of 3 "on_backend ph"], of 36 "in_status ph"]
  show ?thesis by (simp add: close_pre_def close_backend_met Let_def)
qed

lemma ticket_drop_quiet: "quiet m (snd (ticket_drop powf2 l m t now))"
  by (simp add: ticket_drop_steps drop_metrics_quiet)

lemma close_post_moves:
  assumes "m' = (let m = (if relay then m else prelogin_time_drop (gauge_drop m 2) start now);
          m = (case err of None \<Rightarrow> m | Some e \<Rightarrow> record_error m e) in gauge_drop m 1)"
  shows "moves m m' ((\<lambda>_. 0)(2 := - of_bool (\<not> relay), 1 := - 1))"
proof -
  define m1 where "m1 = (if \<not> relay then gauge_drop m 2 else m)"
  have 1: "moves m m1 ((\<lambda>_. 0)(2 := - of_bool (\<not> relay)))"
    using moves_drop_if [OF moves_refl, of 2 m "\<not> relay"] by (simp only: m1_def) simp
  have "quiet m1 (if relay then m1 else prelogin_time_drop m1 start now)" by (simp add: prelogin_time_quiet)
  note 2 = moves_quiet [OF 1 this]
  have "quiet x (case err of None \<Rightarrow> x | Some e \<Rightarrow> record_error x e)" for x
    by (simp add: record_error_quiet split: option.split)
  from moves_drop [OF moves_quiet [OF 2 this], of 1] show ?thesis
    unfolding assms m1_def by (cases relay; cases err; simp)
qed

lemma close_moves:
  "moves (gt_met g) (gt_met (gate_close powf2 g c err now))
     ((\<lambda>_. 0)(30 := - of_bool (cn_phase c = InRelay), 3 := - of_bool (on_backend (cn_phase c)),
       36 := - of_bool (in_status (cn_phase c)), 2 := - of_bool (cn_phase c \<noteq> InRelay), 1 := - 1))"
proof -
  let ?m = "case cn_ticket c of None \<Rightarrow> close_pre g (cn_phase c) now
    | Some t \<Rightarrow> snd (ticket_drop powf2 (gt_lim g) (close_pre g (cn_phase c) now) t now)"
  have "quiet (close_pre g (cn_phase c) now) ?m" by (simp add: ticket_drop_quiet split: option.split)
  note 1 = moves_quiet [OF close_pre_moves this]
  have "moves ?m (gt_met (gate_close powf2 g c err now)) ((\<lambda>_. 0)(2 := - of_bool (\<not> (cn_phase c = InRelay)), 1 := - 1))"
    by (rule close_post_moves [where start = "cn_start c" and err = err and now = now]) (simp only: close_met Let_def)
  from moves_trans [OF 1 this] show ?thesis by (auto simp: moves_def)
qed

lemma close_limiter:
  assumes "limiter_ok cfg g (add_mset c M)"
  shows "limiter_ok cfg (gate_close powf2 g c err now) M"
proof -
  let ?m = "close_pre g (cn_phase c) now"
  have "lsys_inv (cfg_limits cfg) \<lparr>ls_lim = gt_lim g, ls_met = ?m, ls_conns = tickets_of (add_mset c M)\<rparr>"
    using assms close_pre_moves [of g "cn_phase c" now] unfolding limiter_ok_def by (rule lsys_moves) simp_all
  then have pre: "lsys_inv (cfg_limits cfg) \<lparr>ls_lim = gt_lim (gate_close powf2 g c err now), ls_met = (case cn_ticket c of
      None \<Rightarrow> ?m | Some t \<Rightarrow> snd (ticket_drop powf2 (gt_lim g) ?m t now)), ls_conns = tickets_of M\<rparr>"
    by (cases "cn_ticket c") (auto simp: close_lim intro: lsys_drop)
  show ?thesis unfolding limiter_ok_def
    by (rule lsys_moves [OF pre close_post_moves [where relay = "cn_phase c = InRelay" and start = "cn_start c" and err = err and now = now]])
      (simp_all only: close_met Let_def, simp_all)
qed

lemma close_dials:
  assumes "dials_ok cfg g (add_mset c M)"
  shows "dials_ok cfg (gate_close powf2 g c err now) M"
proof (cases "attempt_of (cn_phase c)")
  case None
  with assms show ?thesis by (auto simp: dials_ok_def intro: backend_met)
next
  case (Some a)
  from assms Some obtain k where k: "backend_inv (cfg_backend_protection cfg) (lim_backend (cfg_limits cfg) - 1)
      \<lparr>by_prot = gt_prot g, by_met = gt_met g, by_flight = add_mset a (flights_of M), by_opens = k\<rparr>"
    by (auto simp: dials_ok_def)
  obtain p m where d: "attempt_drop (gt_prot g) (gt_met g) a now = (p, m)" by fastforce
  from backend_step_inv [OF k dial_cancelled [of _ a "flights_of M" now p m]] d Some show ?thesis
    by (auto simp: dials_ok_def intro: backend_met)
qed

lemma ok_close:
  assumes "gate_ok cfg polling g (add_mset c M)"
  shows "gate_ok cfg polling (gate_close powf2 g c err now) M"
proof -
  note ok = gate_okD [OF assms]
  have "permits_ok cfg polling (gate_close powf2 g c err now) M" using ok(2) by (simp add: permits_ok_def)
  moreover have "gauges_ok polling (gt_met (gate_close powf2 g c err now)) M"
    by (rule gauges_moves [OF ok(3) close_moves]) simp_all
  ultimately show ?thesis
    using ok close_limiter [OF ok(4)] close_dials [OF ok(5)] by (simp add: gate_ok_def)
qed

section \<open>The segments of a handler\<close>

abbreviation ends_ok :: "('a, 'b, 'j) config \<Rightarrow> bool \<Rightarrow> conn multiset \<Rightarrow> ('a, 'b, 'j) gate \<times> conn option \<Rightarrow> bool" where
  "ends_ok cfg polling M r \<equiv> gate_ok cfg polling (fst r) (add_opt (snd r) M)"

lemma close_with_ok:
  "gate_ok cfg polling g (add_mset (c\<lparr>cn_ticket := Some t\<rparr>) M) \<Longrightarrow> ends_ok cfg polling M (close_with powf2 g c t err now)"
  by (simp add: close_with_def ok_close)

lemma ends_if:
  "(b \<Longrightarrow> ends_ok cfg polling M x) \<Longrightarrow> (\<not> b \<Longrightarrow> ends_ok cfg polling M y) \<Longrightarrow>
   ends_ok cfg polling M (if b then x else y)"
  by simp

lemma ok_flags:
  assumes "gate_ok cfg polling g (add_mset (c\<lparr>cn_ticket := Some t\<rparr>) M)"
  shows "gate_ok cfg polling g (add_mset
    (c\<lparr>cn_ticket := Some (t\<lparr>tk_handshake := h, tk_status_complete := sc, tk_server_rejected := r\<rparr>)\<rparr>) M)"
proof -
  note ok = gate_okD [OF assms]
  have l: "lsys_inv (cfg_limits cfg) \<lparr>ls_lim = gt_lim g, ls_met = gt_met g, ls_conns = tickets_of (add_mset
      (c\<lparr>cn_ticket := Some (t\<lparr>tk_handshake := h, tk_status_complete := sc, tk_server_rejected := r\<rparr>)\<rparr>) M)\<rparr>"
    using ok(4) lsys_flags unfolding limiter_ok_def by simp
  have "conn_ok cfg (c\<lparr>cn_ticket := Some (t\<lparr>tk_handshake := h, tk_status_complete := sc, tk_server_rejected := r\<rparr>)\<rparr>)"
    using ok(7) [of "c\<lparr>cn_ticket := Some t\<rparr>"] by (simp add: conn_ok_def identified_def vetted_def)
  from ok_limiter [OF assms quiet_refl _ this l] show ?thesis by (simp add: same_role_def)
qed

lemma ok_reject:
  "gate_ok cfg polling g (add_mset (c\<lparr>cn_ticket := Some t\<rparr>) M) \<Longrightarrow>
   gate_ok cfg polling g (add_mset (c\<lparr>cn_ticket := Some (reject t)\<rparr>) M)"
  using ok_flags [where c = c and t = t and h = "tk_handshake t" and sc = "tk_status_complete t" and r = True] by (cases t) (simp add: reject_def)

lemma ok_handshake_flag:
  "gate_ok cfg polling g (add_mset (c\<lparr>cn_ticket := Some t\<rparr>) M) \<Longrightarrow>
   gate_ok cfg polling g (add_mset (c\<lparr>cn_ticket := Some (t\<lparr>tk_handshake := True\<rparr>)\<rparr>) M)"
  using ok_flags [where c = c and t = t and h = True and sc = "tk_status_complete t" and r = "tk_server_rejected t"] by (cases t) simp

lemma ok_complete_flag:
  "gate_ok cfg polling g (add_mset (c\<lparr>cn_ticket := Some t\<rparr>) M) \<Longrightarrow>
   gate_ok cfg polling g (add_mset (c\<lparr>cn_ticket := Some (t\<lparr>tk_status_complete := True\<rparr>)\<rparr>) M)"
  using ok_flags [where c = c and t = t and h = "tk_handshake t" and sc = True and r = "tk_server_rejected t"] by (cases t) simp

lemma same_ticket: "cn_ticket c = Some t \<Longrightarrow> c\<lparr>cn_ticket := Some t\<rparr> = c"
  by (cases c) simp

lemma same_ticket_phase: "cn_ticket c = Some t \<Longrightarrow> c\<lparr>cn_phase := ph, cn_ticket := Some t\<rparr> = c\<lparr>cn_phase := ph\<rparr>"
  by (cases c) simp

lemma close_same_ok:
  "gate_ok cfg polling g (add_mset c M) \<Longrightarrow> cn_ticket c = Some t \<Longrightarrow> ends_ok cfg polling M (close_with powf2 g c t err now)"
  by (rule close_with_ok) (simp add: same_ticket)

lemma reject_same_ok:
  "gate_ok cfg polling g (add_mset c M) \<Longrightarrow> cn_ticket c = Some t \<Longrightarrow>
   ends_ok cfg polling M (close_with powf2 g c (reject t) err now)"
  by (intro close_with_ok ok_reject) (simp add: same_ticket)

lemma event_shape:
  assumes "gate_event g t ev p now = (ok, g')"
  obtains l m where "g' = g\<lparr>gt_lim := l, gt_met := m\<rparr>" "event (gt_lim g) (gt_met g) t ev p now = (ok, l, m)"
  using assms by (auto simp: gate_event_def split: prod.splits)

lemma event_ok:
  assumes "gate_ok cfg polling g (add_mset (c\<lparr>cn_ticket := Some t\<rparr>) M)" "gate_event g t ev p now = (ok, g')" "p_mode p < 4"
  shows "gate_ok cfg polling g' (add_mset (c\<lparr>cn_ticket := Some t\<rparr>) M)"
proof -
  obtain l m where g': "g' = g\<lparr>gt_lim := l, gt_met := m\<rparr>" and e: "event (gt_lim g) (gt_met g) t ev p now = (ok, l, m)"
    using event_shape [OF assms(2)] by blast
  have "quiet (gt_met g) m" using event_quiet [of "gt_met g" "gt_lim g" t ev p now] e by simp
  moreover have "lsys_inv (cfg_limits cfg) \<lparr>ls_lim = l, ls_met = m, ls_conns = tickets_of (add_mset (c\<lparr>cn_ticket := Some t\<rparr>) M)\<rparr>"
    using lsys_event [OF _ e assms(3)] gate_okD(4) [OF assms(1)] by (simp add: limiter_ok_def)
  ultimately show ?thesis unfolding g'
    using ok_limiter [OF assms(1)] gate_okD(7) [OF assms(1)] by (simp add: same_role_def)
qed

lemma event_same_ok:
  "gate_ok cfg polling g (add_mset c M) \<Longrightarrow> cn_ticket c = Some t \<Longrightarrow> gate_event g t ev p now = (ok, g') \<Longrightarrow> p_mode p < 4 \<Longrightarrow>
   gate_ok cfg polling g' (add_mset c M)"
  using event_ok [of cfg polling g t c M ev p now ok g'] by (simp add: same_ticket)

lemma ok_move:
  assumes "gate_ok cfg polling g M" "moves (gt_met g) (gt_met g') d" "d 32 = 0" "d 33 = 0"
    and "gauges_ok polling' (gt_met g') M'" "permits_ok cfg polling' g' M'" "dials_ok cfg g' M'"
    and "gt_lim g' = gt_lim g" "tickets_of M' = tickets_of M" "gt_rt g' = gt_rt g" "gt_cfg g' = gt_cfg g"
    and "\<And>c. c \<in># M' \<Longrightarrow> conn_ok cfg c"
  shows "gate_ok cfg polling' g' M'"
proof -
  note ok = gate_okD [OF assms(1)]
  have "limiter_ok cfg g' M'" using ok(4) assms(8,9) lsys_moves [OF _ assms(2-4)] by (simp add: limiter_ok_def)
  then show ?thesis using ok assms unfolding gate_ok_def by simp
qed

lemma ok_advance:
  assumes "gate_ok cfg polling g (add_mset c M)" "moves (gt_met g) (gt_met g') d" "d 32 = 0" "d 33 = 0"
    and "permits_ok cfg polling g' (add_mset c' M)" "dials_ok cfg g' (add_mset c' M)"
    and "gt_lim g' = gt_lim g" "cn_ticket c' = cn_ticket c" "gt_rt g' = gt_rt g" "gt_cfg g' = gt_cfg g" "conn_ok cfg c'"
    and "d 1 = 0" "d 2 = of_bool (cn_phase c' \<noteq> InRelay) - of_bool (cn_phase c \<noteq> InRelay)"
    and "d 3 = of_bool (on_backend (cn_phase c')) - of_bool (on_backend (cn_phase c))"
    and "d 30 = of_bool (cn_phase c' = InRelay) - of_bool (cn_phase c = InRelay)"
    and "d 36 = of_bool (in_status (cn_phase c')) - of_bool (in_status (cn_phase c))"
  shows "gate_ok cfg polling g' (add_mset c' M)"
proof (rule ok_move [OF assms(1-4)])
  show "gauges_ok polling (gt_met g') (add_mset c' M)"
    using gauges_moves [OF gate_okD(3) [OF assms(1)] assms(2)] assms(12-16) by simp
qed (use assms gate_okD(7) [OF assms(1)] in auto)

lemma ok_enter_status:
  assumes "gate_ok cfg polling g (add_mset c M)" "cn_phase c = AwaitHandshake" "gt_status g \<noteq> 0"
    and "cn_ticket c = Some t" "tk_status t"
  shows "gate_ok cfg polling (g\<lparr>gt_status := gt_status g - 1, gt_met := gauge_new (gt_met g) 36\<rparr>)
    (add_mset (c\<lparr>cn_phase := AwaitRequest separate\<rparr>) M)"
proof (rule ok_advance [OF assms(1), where d = "(\<lambda>_. 0)(36 := 1)"])
  note ok = gate_okD [OF assms(1)]
  show "moves (gt_met g) (gt_met (g\<lparr>gt_status := gt_status g - 1, gt_met := gauge_new (gt_met g) 36\<rparr>)) ((\<lambda>_. 0)(36 := 1))"
    using moves_new [OF moves_refl, of 36 "gt_met g"] by simp
  show "dials_ok cfg (g\<lparr>gt_status := gt_status g - 1, gt_met := gauge_new (gt_met g) 36\<rparr>)
      (add_mset (c\<lparr>cn_phase := AwaitRequest separate\<rparr>) M)"
    using ok(5) assms(2) by (auto simp: dials_ok_def intro: backend_met)
  show "conn_ok cfg (c\<lparr>cn_phase := AwaitRequest separate\<rparr>)"
    using ok(7) [of c] assms(2,4,5) by (simp add: conn_ok_def identified_def vetted_def)
qed (use gate_okD(2) [OF assms(1)] assms(2,3) in \<open>simp_all add: permits_ok_def\<close>)

lemma begin_status_ok:
  assumes ok: "gate_ok cfg polling g (add_mset (c\<lparr>cn_ticket := Some t\<rparr>) M)" and ph: "cn_phase c = AwaitHandshake"
    and p: "p_mode p < 4"
  shows "ends_ok cfg polling M (begin_status powf2 g c t separate p now)"
proof -
  obtain go t' l m where e: "enter_status (gt_lim g) (gt_met g) t = (go, t', l, m)" by (cases "enter_status (gt_lim g) (gt_met g) t") auto
  let ?g = "g\<lparr>gt_lim := l, gt_met := m\<rparr>" and ?c = "c\<lparr>cn_ticket := Some t'\<rparr>"
  have ids: "tk_ip t' = tk_ip t" "tk_prefix t' = tk_prefix t" "tk_admitted t' = tk_admitted t" "go \<Longrightarrow> tk_status t'"
    using e by (auto simp: enter_status_def Let_def split: if_splits option.splits)
  have "conn_ok cfg ?c" using gate_okD(7) [OF ok, of "c\<lparr>cn_ticket := Some t\<rparr>"] ids ph by (simp add: conn_ok_def identified_def vetted_def)
  moreover have "lsys_inv (cfg_limits cfg) \<lparr>ls_lim = l, ls_met = m, ls_conns = tickets_of (add_mset ?c M)\<rparr>"
    using lsys_status [OF _ e] gate_okD(4) [OF ok] by (simp add: limiter_ok_def)
  ultimately have 1: "gate_ok cfg polling ?g (add_mset ?c M)"
    using ok_limiter [OF ok, of m ?c l] enter_status_quiet [of "gt_met g" "gt_lim g" t] e by (simp add: same_role_def)
  have full: "gate_ok cfg polling (?g\<lparr>gt_met := metrics_inc (metrics_inc m 20) 37\<rparr>) (add_mset ?c M)"
    by (rule ok_met [OF 1]) (auto intro!: quiet_inc)
  define kind where "kind = (if separate then EvStatus else EvHandshake)"
  obtain paid g2 where ev: "gate_event ?g t' kind p now = (paid, g2)" by fastforce
  note 2 = event_ok [OF 1 ev p]
  have same: "gt_status g2 = gt_status g" by (rule event_shape [OF ev]) simp
  have "begin_status powf2 g c t separate p now =
      (if \<not> go then close_with powf2 ?g c t' None now
       else if gt_status g = 0 then close_with powf2 (?g\<lparr>gt_met := metrics_inc (metrics_inc m 20) 37\<rparr>) c (reject t') None now
       else if \<not> paid then close_with powf2 g2 c (reject t') None now
       else (g2\<lparr>gt_status := gt_status g2 - 1, gt_met := gauge_new (gt_met g2) 36\<rparr>,
             Some (?c\<lparr>cn_phase := AwaitRequest separate\<rparr>)))"
    unfolding begin_status_def kind_def [symmetric] e by (simp add: ev)
  then show ?thesis
    using ok_enter_status [OF 2, of t' separate] ph same ids(4) by (simp only:) (intro ends_if close_with_ok 1 2 ok_reject full, simp)
qed

lemma begin_login_ok:
  assumes ok: "gate_ok cfg polling g (add_mset (c\<lparr>cn_ticket := Some t\<rparr>) M)" and ph: "cn_phase c = AwaitHandshake"
    and p: "p_mode p < 4" and seen: "handshake_seen (cfg_protocol cfg) (cn_handshake_wire c) (cn_version c)"
  shows "ends_ok cfg polling M (begin_login powf2 g c t p now)"
proof -
  obtain paid g2 where ev: "gate_event g t EvHandshake p now = (paid, g2)" by fastforce
  note 2 = event_ok [OF ok ev p]
  have "conn_ok cfg (c\<lparr>cn_phase := AwaitLogin, cn_ticket := Some t\<rparr>)"
    using gate_okD(7) [OF ok, of "c\<lparr>cn_ticket := Some t\<rparr>"] seen ph by (simp add: conn_ok_def identified_def vetted_def)
  then have 3: "gate_ok cfg polling g2 (add_mset (c\<lparr>cn_phase := AwaitLogin, cn_ticket := Some t\<rparr>) M)"
    using ok_conn [OF 2] ph by (simp add: same_role_def)
  show ?thesis unfolding begin_login_def ev
    by (cases "login_max (cn_version c) (cfg_protocol (gt_cfg g2))")
      (simp_all add: close_with_ok [OF ok_reject [OF 2]] 3 close_with_ok ok_reject)
qed

lemma seg_handshake_ok:
  assumes ok: "gate_ok cfg polling g (add_mset c M)" and ph: "cn_phase c = AwaitHandshake" and tk: "cn_ticket c = Some t"
  shows "ends_ok cfg polling M (seg_handshake ops powf2 g c t fr left unix now)"
proof (cases "bind_result fr (\<lambda>f. handshake (frame_body f) (cfg_protocol (gt_cfg g)))")
  case (Inl e)
  then have "seg_handshake ops powf2 g c t fr left unix now = close_with powf2 g c t (Some e) now"
    by (auto simp: seg_handshake_def bind_result_def split: sum.splits)
  then show ?thesis by (simp add: close_same_ok [OF ok tk])
next
  case (Inr h)
  then obtain f where f: "fr = Inr f" "handshake (frame_body f) (cfg_protocol (gt_cfg g)) = Inr h"
    by (auto simp: bind_result_def split: sum.splits)
  let ?t = "t\<lparr>tk_handshake := True\<rparr>" and ?g = "g\<lparr>gt_met := metrics_inc (gt_met g) 4\<rparr>"
  let ?c = "c\<lparr>cn_left := left, cn_version := hs_version h, cn_handshake_wire := fr_wire f\<rparr>"
  have "gate_ok cfg polling g (add_mset (c\<lparr>cn_ticket := Some ?t\<rparr>) M)" by (rule ok_handshake_flag) (simp add: same_ticket [OF tk] ok)
  then have "gate_ok cfg polling ?g (add_mset (c\<lparr>cn_ticket := Some ?t\<rparr>) M)" by (rule ok_met) (simp add: quiet_inc)
  then have 1: "gate_ok cfg polling ?g (add_mset (?c\<lparr>cn_ticket := Some ?t\<rparr>) M)"
    by (rule ok_conn) (use gate_okD(7) [OF ok, of c] ph tk in \<open>simp_all add: same_role_def conn_ok_def identified_def vetted_def\<close>)
  obtain p blocked where pol: "runtime_policy ops (gt_rt g) (sock_ip (cn_peer c)) unix now = (p, blocked)" by fastforce
  have p: "p_mode p < 4" by (rule policy_mode [OF gate_okD(6) [OF ok] pol])
  have seen: "handshake_seen (cfg_protocol cfg) (fr_wire f) (hs_version h)" if "hs_state h \<noteq> 1"
    using f(2) that gate_okD(1) [OF ok] by (auto simp: handshake_seen_def)
  have s: "ends_ok cfg polling M (begin_status powf2 ?g ?c ?t sep p now)" for sep
    by (rule begin_status_ok [OF 1 _ p]) (simp add: ph)
  have l: "ends_ok cfg polling M (begin_login powf2 ?g ?c ?t p now)" if "hs_state h \<noteq> 1"
    by (rule begin_login_ok [OF 1 _ p]) (simp_all add: ph seen that)
  have "seg_handshake ops powf2 g c t fr left unix now =
      (if blocked then close_with powf2 ?g ?c (reject ?t) None now
       else if hs_state h = 1 then begin_status powf2 ?g ?c ?t (hs_state h = 1 \<and> lim_separate_status_budget (cfg_limits (gt_cfg g))) p now
       else begin_login powf2 ?g ?c ?t p now)"
    by (simp add: seg_handshake_def f pol Let_def)
  then show ?thesis by (simp only:) (intro ends_if close_with_ok ok_reject 1 s l)
qed

lemma seg_request_ok:
  assumes ok: "gate_ok cfg polling g (add_mset c M)" and ph: "cn_phase c = AwaitRequest separate" and tk: "cn_ticket c = Some t"
  shows "ends_ok cfg polling M (seg_request ops powf2 g c t separate fr left unix now)"
proof (cases "bind_result fr (\<lambda>f. status_request (frame_body f))")
  case (Inl e)
  then show ?thesis by (simp add: seg_request_def close_same_ok [OF ok tk])
next
  case (Inr u)
  let ?g = "g\<lparr>gt_met := metrics_inc (gt_met g) 6\<rparr>"
  have 1: "gate_ok cfg polling ?g (add_mset c M)" by (rule ok_met [OF ok]) (simp add: quiet_inc)
  obtain p blocked where pol: "runtime_policy ops (gt_rt g) (sock_ip (cn_peer c)) unix now = (p, blocked)" by fastforce
  have p: "p_mode p < 4" by (rule policy_mode [OF gate_okD(6) [OF ok] pol])
  obtain paid g2 where ev: "(if separate then (True, ?g) else gate_event ?g t EvStatus p now) = (paid, g2)" by fastforce
  then have 2: "gate_ok cfg polling g2 (add_mset c M)" using event_same_ok [OF 1 tk _ p] 1 by (auto split: if_splits)
  obtain response m where get: "status_cache_get (gt_cache g2) (gt_met g2) (cn_version c) now = (response, m)" by fastforce
  have "quiet (gt_met g2) m"
    using get by (auto simp: status_cache_get_def Let_def intro!: quiet_inc split: option.splits if_splits)
  from ok_met [OF 2 this] have "gate_ok cfg polling (g2\<lparr>gt_met := m\<rparr>) (add_mset (c\<lparr>cn_phase := AwaitReply response, cn_left := left\<rparr>) M)"
    by (rule ok_conn) (use gate_okD(7) [OF ok, of c] ph tk in \<open>simp_all add: same_role_def conn_ok_def identified_def vetted_def\<close>)
  then have 3: "ends_ok cfg polling M (g2\<lparr>gt_met := m\<rparr>, Some (c\<lparr>cn_phase := AwaitReply response, cn_left := left\<rparr>))" by simp
  have "seg_request ops powf2 g c t separate fr left unix now =
      (if blocked then close_with powf2 ?g c (reject t) None now
       else if \<not> paid then close_with powf2 g2 c (reject t) None now
       else (g2\<lparr>gt_met := m\<rparr>, Some (c\<lparr>cn_phase := AwaitReply response, cn_left := left\<rparr>)))"
    unfolding seg_request_def Let_def using pol ev get by (simp add: Inr cong: if_cong)
  then show ?thesis by (simp only:) (intro ends_if reject_same_ok [OF 1 tk] reject_same_ok [OF 2 tk] 3)
qed

lemma seg_reply_ok:
  assumes ok: "gate_ok cfg polling g (add_mset c M)" and ph: "cn_phase c = AwaitReply response" and tk: "cn_ticket c = Some t"
  shows "ends_ok cfg polling M (seg_reply powf2 g c t w now)"
proof -
  have "gate_ok cfg polling g (add_mset (c\<lparr>cn_ticket := Some (t\<lparr>tk_status_complete := True\<rparr>)\<rparr>) M)"
    by (rule ok_complete_flag) (simp add: same_ticket [OF tk] ok)
  then have "gate_ok cfg polling g (add_mset (c\<lparr>cn_phase := AwaitPing, cn_ticket := Some (t\<lparr>tk_status_complete := True\<rparr>)\<rparr>) M)"
    by (rule ok_conn) (use gate_okD(7) [OF ok, of c] ph tk in \<open>simp_all add: same_role_def conn_ok_def identified_def vetted_def\<close>)
  then show ?thesis using close_same_ok [OF ok tk] by (simp add: seg_reply_def split: option.split)
qed

lemma seg_ping_ok:
  assumes ok: "gate_ok cfg polling g (add_mset c M)" and ph: "cn_phase c = AwaitPing" and tk: "cn_ticket c = Some t"
  shows "ends_ok cfg polling M (seg_ping powf2 g c t fr left now)"
proof -
  have "gate_ok cfg polling g (add_mset (c\<lparr>cn_phase := AwaitPong, cn_left := left\<rparr>) M)"
    using ok by (rule ok_conn)
      (use gate_okD(7) [OF ok, of c] ph tk in \<open>simp_all add: same_role_def conn_ok_def identified_def vetted_def\<close>)
  then show ?thesis using close_same_ok [OF ok tk] by (simp add: seg_ping_def split: sum.split)
qed

lemma ok_dial:
  assumes "gate_ok cfg polling g (add_mset c M)" "cn_phase c = AwaitLogin" "cn_ticket c = Some t"
    and "gt_admitted g \<noteq> 0" "gt_backend g \<noteq> 0" "gt_sockets g \<noteq> 0"
    and "enter (gt_prot g) (gt_met g) now = (Some a, prot, m)" "login_seen (cfg_protocol cfg) (cn_login_wire c) (cn_version c)"
  shows "gate_ok cfg polling (g\<lparr>gt_prot := prot, gt_admitted := gt_admitted g - 1, gt_backend := gt_backend g - 1,
      gt_sockets := gt_sockets g - 1, gt_met := metrics_inc (gauge_new m 3) 31\<rparr>) (add_mset (c\<lparr>cn_phase := AwaitBackend a\<rparr>) M)"
    (is "gate_ok _ _ ?g (add_mset ?c M)")
proof (rule ok_advance [OF assms(1), where d = "(\<lambda>_. 0)(3 := 1)"])
  note ok = gate_okD [OF assms(1)]
  have "quiet (gt_met g) m" using enter_quiet [of "gt_met g" "gt_prot g" now] assms(7) by simp
  then have "moves (gt_met g) (gauge_new m 3) ((\<lambda>_. 0)(3 := 1))"
    using moves_new [OF moves_quiet [OF moves_refl], of "gt_met g" m 3] by simp
  then show "moves (gt_met g) (gt_met ?g) ((\<lambda>_. 0)(3 := 1))"
    by (rule moves_quiet) (simp add: quiet_inc)
  from ok(5) assms(2) obtain k where k: "backend_inv (cfg_backend_protection cfg) (lim_backend (cfg_limits cfg) - 1)
      \<lparr>by_prot = gt_prot g, by_met = gt_met g, by_flight = flights_of M, by_opens = k\<rparr>"
    by (auto simp: dials_ok_def)
  from granted_inv [OF k, of now a prot m] assms(7) show "dials_ok cfg ?g (add_mset ?c M)"
    by (auto simp: dials_ok_def intro: backend_met)
  show "permits_ok cfg polling ?g (add_mset ?c M)" using ok(2) assms(2,4-6) by (simp add: permits_ok_def) linarith
  show "conn_ok cfg ?c" using ok(7) [of c] assms(2,3,8) by (simp add: conn_ok_def identified_def vetted_def)
qed (use assms(2) in simp_all)

lemma ok_refused:
  assumes "gate_ok cfg polling g M" "enter (gt_prot g) (gt_met g) now = (None, prot, m)"
  shows "gate_ok cfg polling (g\<lparr>gt_prot := prot, gt_met := metrics_inc m 47\<rparr>) M"
proof -
  note ok = gate_okD [OF assms(1)]
  have q: "quiet (gt_met g) (metrics_inc m 47)"
    using enter_quiet [of "gt_met g" "gt_prot g" now] assms(2) by (simp add: quiet_inc)
  from ok(5) obtain k where k: "backend_inv (cfg_backend_protection cfg) (lim_backend (cfg_limits cfg) - 1)
      \<lparr>by_prot = gt_prot g, by_met = gt_met g, by_flight = flights_of M, by_opens = k\<rparr>"
    by (auto simp: dials_ok_def)
  from refused_inv [OF k, of now prot m] assms(2)
  have "dials_ok cfg (g\<lparr>gt_prot := prot, gt_met := metrics_inc m 47\<rparr>) M" by (auto simp: dials_ok_def intro: backend_met)
  with ok_met [OF assms(1) q] show ?thesis by (simp add: gate_ok_def permits_ok_def limiter_ok_def)
qed

lemma begin_dial_ok:
  assumes ok: "gate_ok cfg polling g (add_mset c M)" and ph: "cn_phase c = AwaitLogin" and tk: "cn_ticket c = Some t"
    and seen: "login_seen (cfg_protocol cfg) (cn_login_wire c) (cn_version c)"
  shows "ends_ok cfg polling M (begin_dial powf2 g c t now)"
proof (cases "gt_admitted g = 0 \<or> gt_backend g = 0 \<or> gt_sockets g = 0")
  case True
  have "gate_ok cfg polling (g\<lparr>gt_met := metrics_inc (gt_met g) 20\<rparr>) (add_mset c M)"
    by (rule ok_met [OF ok]) (simp add: quiet_inc)
  from reject_same_ok [OF this tk] True show ?thesis by (simp add: begin_dial_def)
next
  case False
  obtain a prot m where e: "enter (gt_prot g) (gt_met g) now = (a, prot, m)" by (cases "enter (gt_prot g) (gt_met g) now")
  show ?thesis
  proof (cases a)
    case None
    from reject_same_ok [OF ok_refused [OF ok e [unfolded None]] tk] False e None show ?thesis by (simp add: begin_dial_def)
  next
    case (Some a')
    from ok_dial [OF ok ph tk _ _ _ e [unfolded Some] seen] False e Some same_ticket_phase [OF tk] show ?thesis
      by (simp add: begin_dial_def)
  qed
qed

lemma seg_login_ok:
  assumes ok: "gate_ok cfg polling g (add_mset c M)" and ph: "cn_phase c = AwaitLogin" and tk: "cn_ticket c = Some t"
  shows "ends_ok cfg polling M (seg_login ops powf2 g c t fr left unix now)"
proof (cases "bind_result fr (\<lambda>f. login (frame_body f) (cn_version c) (cfg_protocol (gt_cfg g)))")
  case (Inl e)
  then show ?thesis by (simp add: seg_login_def close_same_ok [OF ok tk])
next
  case (Inr u)
  then obtain f where f: "fr = Inr f" "login (frame_body f) (cn_version c) (cfg_protocol (gt_cfg g)) = Inr ()"
    by (auto simp: bind_result_def split: sum.splits)
  let ?g = "g\<lparr>gt_met := metrics_inc (gt_met g) 7\<rparr>" and ?c = "c\<lparr>cn_left := left, cn_login_wire := fr_wire f\<rparr>"
  have "gate_ok cfg polling ?g (add_mset c M)" by (rule ok_met [OF ok]) (simp add: quiet_inc)
  then have 1: "gate_ok cfg polling ?g (add_mset ?c M)"
    by (rule ok_conn) (use gate_okD(7) [OF ok, of c] ph tk in \<open>simp_all add: same_role_def conn_ok_def identified_def vetted_def\<close>)
  have tk': "cn_ticket ?c = Some t" by (simp add: tk)
  obtain p blocked where pol: "runtime_policy ops (gt_rt g) (sock_ip (cn_peer c)) unix now = (p, blocked)" by fastforce
  have p: "p_mode p < 4" by (rule policy_mode [OF gate_okD(6) [OF ok] pol])
  obtain paid g2 where ev: "gate_event ?g t EvLogin p now = (paid, g2)" by fastforce
  note 2 = event_same_ok [OF 1 tk' ev p]
  have seen: "login_seen (cfg_protocol cfg) (cn_login_wire ?c) (cn_version ?c)"
    using f(2) gate_okD(1) [OF ok] by (auto simp: login_seen_def)
  have 3: "ends_ok cfg polling M (begin_dial powf2 g2 ?c t now)"
    by (rule begin_dial_ok [OF 2 _ tk' seen]) (simp add: ph)
  have "seg_login ops powf2 g c t fr left unix now =
      (if blocked \<or> (\<not> p_observe p \<and> p_mode p = 3) then close_with powf2 ?g ?c (reject t) None now
       else if \<not> paid then close_with powf2 g2 ?c (reject t) None now
       else begin_dial powf2 g2 ?c t now)"
    unfolding seg_login_def Let_def f bind_result_def using pol ev by (simp add: f cong: if_cong)
  then show ?thesis by (simp only:) (intro ends_if reject_same_ok [OF 1 tk'] reject_same_ok [OF 2 tk'] 3)
qed

lemma finish_dials:
  assumes "dials_ok cfg g (add_mset c M)" "cn_phase c = AwaitBackend a" "attempt_finish (gt_prot g) (gt_met g) a ok now = (prot, m)"
    and "gt_prot g' = prot" "attempt_of (cn_phase c') = None"
  shows "dials_ok cfg g' (add_mset c' M)"
proof -
  from assms(1,2) obtain k where k: "backend_inv (cfg_backend_protection cfg) (lim_backend (cfg_limits cfg) - 1)
      \<lparr>by_prot = gt_prot g, by_met = gt_met g, by_flight = add_mset a (flights_of M), by_opens = k\<rparr>"
    by (auto simp: dials_ok_def)
  from backend_step_inv [OF k dial_finished [of _ a "flights_of M" ok now prot m]] assms(3-5) show ?thesis
    by (auto simp: dials_ok_def intro: backend_met)
qed

lemma ok_dial_failed:
  assumes "gate_ok cfg polling g (add_mset c M)" "cn_phase c = AwaitBackend a" "cn_ticket c = Some t"
    and "attempt_finish (gt_prot g) (gt_met g) a False now = (prot, m)"
  shows "gate_ok cfg polling (g\<lparr>gt_prot := prot, gt_met := gauge_drop (metrics_inc m 17) 3, gt_admitted := gt_admitted g + 1,
      gt_backend := gt_backend g + 1, gt_sockets := gt_sockets g + 1\<rparr>) (add_mset (c\<lparr>cn_phase := AwaitLogin\<rparr>) M)"
    (is "gate_ok _ _ ?g (add_mset ?c M)")
proof (rule ok_advance [OF assms(1), where d = "(\<lambda>_. 0)(3 := - 1)"])
  note ok = gate_okD [OF assms(1)]
  have "quiet (gt_met g) (metrics_inc m 17)"
    using attempt_finish_quiet [of "gt_met g" "gt_prot g" a False now] assms(4) by (simp add: quiet_inc)
  from moves_drop [OF moves_quiet [OF moves_refl this], of 3] show "moves (gt_met g) (gt_met ?g) ((\<lambda>_. 0)(3 := - 1))" by simp
  show "dials_ok cfg ?g (add_mset ?c M)" by (rule finish_dials [OF ok(5) assms(2,4)]) simp_all
  show "permits_ok cfg polling ?g (add_mset ?c M)" using ok(2) assms(2) by (simp add: permits_ok_def)
  show "conn_ok cfg ?c" using ok(7) [of c] assms(2,3) by (simp add: conn_ok_def identified_def vetted_def)
qed (use assms(2) in simp_all)

lemma ok_marked:
  assumes "gate_ok cfg polling g (add_mset c M)" "cn_ticket c = Some t" "mark_admitted (gt_lim g) t = (t', l)"
    and "cn_phase c = InRelay"
  shows "gate_ok cfg polling (g\<lparr>gt_lim := l\<rparr>) (add_mset (c\<lparr>cn_ticket := Some t'\<rparr>) M)"
proof -
  note ok = gate_okD [OF assms(1)]
  have "tk_ip t' = tk_ip t \<and> tk_prefix t' = tk_prefix t" using assms(3) by (auto simp: mark_admitted_def split: if_splits)
  then have c: "conn_ok cfg (c\<lparr>cn_ticket := Some t'\<rparr>)"
    using ok(7) [of c] assms(2,4) by (simp add: conn_ok_def identified_def vetted_def)
  have "lsys_inv (cfg_limits cfg) \<lparr>ls_lim = l, ls_met = gt_met g, ls_conns = tickets_of (add_mset (c\<lparr>cn_ticket := Some t'\<rparr>) M)\<rparr>"
    using lsys_mark [OF _ assms(3)] ok(4) assms(2) by (simp add: limiter_ok_def)
  from ok_limiter [OF assms(1) quiet_refl _ c this] show ?thesis by (simp add: same_role_def)
qed

lemma ok_admitted:
  assumes "gate_ok cfg polling g (add_mset c M)" "cn_phase c = AwaitBackend a" "cn_ticket c = Some t"
    and "attempt_finish (gt_prot g) (gt_met g) a True now = (prot, m)"
  shows "gate_ok cfg polling (admission_drop (g\<lparr>gt_prot := prot, gt_met := gauge_new m 30\<rparr>) start now)
      (add_mset (c\<lparr>cn_phase := InRelay, cn_relay := Some r\<rparr>) M)"
    (is "gate_ok _ _ ?g (add_mset ?c M)")
proof (rule ok_advance [OF assms(1), where d = "(\<lambda>_. 0)(30 := 1, 2 := - 1)"])
  note ok = gate_okD [OF assms(1)]
  have "quiet (gt_met g) m" using attempt_finish_quiet [of "gt_met g" "gt_prot g" a True now] assms(4) by simp
  from moves_drop [OF moves_new [OF moves_quiet [OF moves_refl this], of 30], of 2]
  have "moves (gt_met g) (gauge_drop (gauge_new m 30) 2) ((\<lambda>_. 0)(30 := 1, 2 := - 1))" by simp
  then have "moves (gt_met g) (prelogin_time_drop (gauge_drop (gauge_new m 30) 2) start now) ((\<lambda>_. 0)(30 := 1, 2 := - 1))"
    by (rule moves_quiet) (simp add: prelogin_time_quiet)
  then show "moves (gt_met g) (gt_met ?g) ((\<lambda>_. 0)(30 := 1, 2 := - 1))" by simp
  show "dials_ok cfg ?g (add_mset ?c M)" by (rule finish_dials [OF ok(5) assms(2,4)]) simp_all
  show "permits_ok cfg polling ?g (add_mset ?c M)" using ok(2) assms(2) by (simp add: permits_ok_def)
  show "conn_ok cfg ?c" using ok(7) [of c] assms(2,3) by (simp add: conn_ok_def identified_def vetted_def)
qed (use assms(2) in simp_all)

lemma seg_backend_ok:
  assumes ok: "gate_ok cfg polling g (add_mset c M)" and ph: "cn_phase c = AwaitBackend a" and tk: "cn_ticket c = Some t"
  shows "ends_ok cfg polling M (seg_backend powf2 g c t a io_ok now)"
proof -
  define dialed where "dialed \<longleftrightarrow> io_ok \<and> backend_preamble (gt_cfg g) c \<noteq> None"
  show ?thesis
  proof (cases dialed)
    case False
    obtain prot m where fin: "attempt_finish (gt_prot g) (gt_met g) a False now = (prot, m)" by fastforce
    have "cn_ticket (c\<lparr>cn_phase := AwaitLogin\<rparr>) = Some t" by (simp add: tk)
    from reject_same_ok [OF ok_dial_failed [OF ok ph tk fin] this] show ?thesis
      unfolding seg_backend_def dialed_def [symmetric] using fin False by (simp add: Let_def)
  next
    case True
    obtain prot m where fin: "attempt_finish (gt_prot g) (gt_met g) a True now = (prot, m)" by fastforce
    let ?g = "admission_drop (g\<lparr>gt_prot := prot, gt_met := gauge_new m 30\<rparr>) (cn_start c) now"
    let ?r = "begin_relay (gt_cfg g) (gauge_new m 30) now"
    obtain t' l where mk: "mark_admitted (gt_lim g) t = (t', l)" by fastforce
    have "gate_ok cfg polling (?g\<lparr>gt_lim := l\<rparr>) (add_mset (c\<lparr>cn_phase := InRelay, cn_relay := Some ?r, cn_ticket := Some t'\<rparr>) M)"
      using ok_marked [OF ok_admitted [OF ok ph tk fin, of _ "?r"]] tk mk by simp
    moreover have "?g\<lparr>gt_lim := l\<rparr> = admission_drop (g\<lparr>gt_prot := prot, gt_met := gauge_new m 30, gt_lim := l\<rparr>) (cn_start c) now"
      by (cases g) (simp add: admission_drop_def)
    moreover have "g\<lparr>gt_prot := prot, gt_met := gauge_new m 30, gt_lim := l\<rparr> = g\<lparr>gt_prot := prot, gt_lim := l, gt_met := gauge_new m 30\<rparr>"
      by (cases g) simp
    ultimately show ?thesis unfolding seg_backend_def dialed_def [symmetric] using fin True by (simp add: Let_def mk)
  qed
qed

lemma bumps_quiet: "bumps m m' \<Longrightarrow> quiet m m'"
  by (induction rule: bumps.induct) (auto intro!: quiet_add)

lemma seg_relay_ok:
  assumes ok: "gate_ok cfg polling g (add_mset c M)" and ph: "cn_phase c = InRelay"
    and seg: "seg_relay powf2 g c r p now = Some res"
  shows "ends_ok cfg polling M res"
proof -
  obtain out r' where poll: "relay_poll r (p\<lparr>wk_now := now, wk_met := gt_met g\<rparr>) = Some (out, r')"
    using seg by (auto simp: seg_relay_def split: option.splits)
  let ?g = "g\<lparr>gt_met := ep_met (rl_ep r')\<rparr>"
  have 1: "gate_ok cfg polling ?g (add_mset c M)"
    by (rule ok_met [OF ok]) (use relay_poll_bumps [OF poll] in \<open>simp add: bumps_quiet\<close>)
  show ?thesis
  proof (cases out)
    case Pending
    have "gate_ok cfg polling ?g (add_mset (c\<lparr>cn_relay := Some r'\<rparr>) M)"
      by (rule ok_conn [OF 1])
        (use gate_okD(7) [OF 1, of c] ph in \<open>simp_all add: same_role_def conn_ok_def identified_def vetted_def split: option.splits\<close>)
    with seg poll Pending show ?thesis by (auto simp: seg_relay_def)
  next
    case (Ready x)
    have "gate_ok cfg polling (?g\<lparr>gt_met := metrics_inc (gt_met ?g) 25\<rparr>) (add_mset c M)"
      by (rule ok_met [OF 1]) (simp add: quiet_inc)
    with 1 seg poll Ready show ?thesis by (auto simp: seg_relay_def Let_def ok_close)
  qed
qed

section \<open>Arrival and identity\<close>

lemma identity_ok:
  assumes "gate_ok cfg polling g M" "gate_identity g peer nodelay header local = (r, g')"
  shows "gate_ok cfg polling g' M"
  using assms
  by (auto simp: gate_identity_def PROXY_V2_ACCEPTED_def PROXY_V2_TIMEOUT_def PROXY_V2_INVALID_def
      split: if_splits sum.splits option.splits intro!: ok_met quiet_inc)

lemma ok_unticketed:
  assumes "gate_ok cfg polling g (add_mset c M)" "cn_ticket c = None" "calm (gt_met g) m" "conn_ok cfg c'"
    and "lsys_inv (cfg_limits cfg) \<lparr>ls_lim = l, ls_met = m, ls_conns = tickets_of (add_mset c' M)\<rparr>" "same_role c c'"
  shows "gate_ok cfg polling (g\<lparr>gt_lim := l, gt_met := m\<rparr>) (add_mset c' M)"
proof -
  note ok = gate_okD [OF assms(1)]
  have "gauges_ok polling m (add_mset c M)" using ok(3) assms(3) by (simp add: gauges_ok_def calm_def)
  moreover have "dials_ok cfg (g\<lparr>gt_lim := l, gt_met := m\<rparr>) (add_mset c M)" using ok(5) by (auto simp: dials_ok_def intro: backend_met)
  ultimately show ?thesis using assms ok
    by (auto simp: gate_ok_def permits_ok_def gauges_ok_def limiter_ok_def dials_ok_def same_role_def)
qed

lemma seg_identity_ok:
  assumes ok: "gate_ok cfg polling g (add_mset c M)" and ph: "cn_phase c = AwaitIdentity"
  shows "ends_ok cfg polling M (seg_identity ops powf2 g c nodelay header local unix now)"
proof -
  have tk: "cn_ticket c = None" using gate_okD(7) [OF ok, of c] ph by (simp add: conn_ok_def identified_def split: option.splits)
  obtain r g1 where id: "gate_identity g (cn_socket_peer c) nodelay header local = (r, g1)" by fastforce
  have 1: "gate_ok cfg polling g1 (add_mset c M)" by (rule identity_ok [OF ok id])
  show ?thesis
  proof (cases r)
    case (Inl e)
    then show ?thesis by (simp add: seg_identity_def id ok_close [OF 1])
  next
    case (Inr pd)
    then obtain peer dst where r: "r = Inr (peer, dst)" by (cases pd) auto
    obtain p blocked where pol: "runtime_policy ops (gt_rt g1) (sock_ip peer) unix now = (p, blocked)" by fastforce
    have p: "p_mode p < 4" by (rule policy_mode [OF gate_okD(6) [OF 1] pol])
    obtain oc l m where acc: "accept (gt_lim g1) (gt_met g1) (sock_ip peer) p now = (oc, l, m)"
      by (cases "accept (gt_lim g1) (gt_met g1) (sock_ip peer) p now")
    have calm: "calm (gt_met g1) m" using accept_calm [of "gt_met g1" "gt_lim g1" "sock_ip peer" p now] acc by simp
    have lim: "lsys_inv (cfg_limits cfg) \<lparr>ls_lim = gt_lim g1, ls_met = gt_met g1, ls_conns = tickets_of M\<rparr>"
      using gate_okD(4) [OF 1] tk by (simp add: limiter_ok_def)
    have room: "size (tickets_of M) < lim_total_sockets (cfg_limits cfg)"
      using gate_okD(2) [OF 1] pick_size [of "\<lambda>c. map_option (\<lambda>t. (t, Live)) (cn_ticket c)" M]
      unfolding permits_ok_def tickets_of_def by simp
    show ?thesis
    proof (cases oc)
      case None
      have "lsys_inv (cfg_limits cfg) \<lparr>ls_lim = l, ls_met = m, ls_conns = tickets_of (add_mset c M)\<rparr>"
        using lsys_refused [OF lim acc [unfolded None] p] tk by simp
      from ok_close [OF ok_unticketed [OF 1 tk calm gate_okD(7) [OF 1] this]] ok_close [OF 1] show ?thesis
        by (simp add: seg_identity_def id r pol acc None same_role_def)
    next
      case (Some t)
      let ?c = "c\<lparr>cn_phase := AwaitHandshake, cn_peer := peer, cn_dst := dst, cn_ticket := Some t,
        cn_left := pr_max_initial_bytes (cfg_protocol (gt_cfg g1))\<rparr>"
      have "li_cfg (gt_lim g1) = cfg_limits cfg" using lim by (simp add: lsys_inv_def)
      then have "conn_ok cfg ?c"
        using accept_admits [of "gt_lim g1" "gt_met g1" "sock_ip peer" p now] acc Some gate_okD(7) [OF ok, of c] ph
        by (auto simp: conn_ok_def identified_def vetted_def ticket_new_def split: if_splits)
      moreover have "lsys_inv (cfg_limits cfg) \<lparr>ls_lim = l, ls_met = m, ls_conns = tickets_of (add_mset ?c M)\<rparr>"
        using lsys_accepted [OF lim acc [unfolded Some] p room] by simp
      ultimately have "gate_ok cfg polling (g1\<lparr>gt_lim := l, gt_met := m\<rparr>) (add_mset ?c M)"
        using ok_unticketed [OF 1 tk calm, of ?c l] ph by (simp add: same_role_def)
      with ok_close [OF 1] show ?thesis by (simp add: seg_identity_def id r pol acc Some)
    qed
  qed
qed

lemma gate_accept_ok:
  assumes ok: "gate_ok cfg polling g M"
  shows "ends_ok cfg polling M (gate_accept ops g peer now)"
proof -
  have counted: "gate_ok cfg polling (g\<lparr>gt_met := metrics_inc (metrics_inc (gt_met g) 0) i\<rparr>) M" if "i \<in> {20, 53}" for i
    by (rule ok_met [OF ok]) (use that in \<open>auto intro!: quiet_inc\<close>)
  let ?g = "g\<lparr>gt_sockets := gt_sockets g - 1, gt_prelogin := gt_prelogin g - 1,
    gt_met := gauge_new (gauge_new (metrics_inc (gt_met g) 0) 1) 2\<rparr>"
  let ?c = "\<lparr>cn_socket_peer = peer, cn_start = now, cn_phase = AwaitIdentity, cn_peer = peer, cn_dst = peer,
    cn_ticket = None, cn_left = 0, cn_version = 0, cn_handshake_wire = [], cn_login_wire = [], cn_relay = None\<rparr>"
  have "gate_ok cfg polling ?g (add_mset ?c M)" if "gt_sockets g \<noteq> 0" "gt_prelogin g \<noteq> 0"
  proof (rule ok_move [OF ok, where d = "(\<lambda>_. 0)(1 := 1, 2 := 1)"])
    have "quiet (gt_met g) (metrics_inc (gt_met g) 0)" by (simp add: quiet_inc)
    from moves_new [OF moves_new [OF moves_quiet [OF moves_refl this], of 1], of 2]
    show mv: "moves (gt_met g) (gt_met ?g) ((\<lambda>_. 0)(1 := 1, 2 := 1))" by simp
    show "gauges_ok polling (gt_met ?g) (add_mset ?c M)" by (rule gauges_moves [OF gate_okD(3) [OF ok] mv]) simp_all
    show "permits_ok cfg polling ?g (add_mset ?c M)" using gate_okD(2) [OF ok] that by (simp add: permits_ok_def)
    show "dials_ok cfg ?g (add_mset ?c M)" using gate_okD(5) [OF ok] by (auto simp: dials_ok_def intro: backend_met)
    show "conn_ok cfg c" if "c \<in># add_mset ?c M" for c
      using that gate_okD(7) [OF ok, of c] by (auto simp: conn_ok_def identified_def vetted_def)
  qed simp_all
  then show ?thesis using counted by (simp add: gate_accept_def PROXY_V2_UNTRUSTED_def Let_def)
qed

lemma resume_ok:
  assumes ok: "gate_ok cfg polling g (add_mset c M)" and "resume ops powf2 g c out unix now = Some r"
  shows "ends_ok cfg polling M r"
  using assms(2)
  by (cases "cn_phase c"; cases out; cases "cn_ticket c")
    (auto simp: resume_def seg_pong_def intro: seg_identity_ok [OF ok] seg_handshake_ok [OF ok] seg_request_ok [OF ok]
      seg_reply_ok [OF ok] seg_ping_ok [OF ok] seg_login_ok [OF ok] seg_backend_ok [OF ok] seg_relay_ok [OF ok] close_same_ok [OF ok]
      split: option.splits)

section \<open>Background tasks\<close>

lemma ok_watch:
  assumes "gate_ok cfg polling g M"
  shows "gate_ok cfg polling (g\<lparr>gt_rt := watch_turn ops parse (gt_rt g) doc unix now\<rparr>) M"
proof -
  note ok = gate_okD [OF assms]
  have "modes_ok (watch_turn ops parse (gt_rt g) doc unix now)"
    using ok(6) turn_cases [of ops parse "gt_rt g" doc unix now] by (auto simp: modes_ok_def snapshot_ok_def)
  then show ?thesis using assms by (simp add: gate_ok_def permits_ok_def limiter_ok_def dials_ok_def)
qed

lemma poll_ok:
  assumes ok: "gate_ok cfg False g M" and p: "gate_poll g = (polling, g')"
  shows "gate_ok cfg polling g' M"
proof (cases "gt_sockets g = 0")
  case True
  have "gate_ok cfg False (g\<lparr>gt_met := metrics_inc (gt_met g) 23\<rparr>) M" by (rule ok_met [OF ok]) (simp add: quiet_inc)
  moreover have "g' = g\<lparr>gt_met := metrics_inc (gt_met g) 23\<rparr>" "\<not> polling"
    using p True by (cases g; auto simp: gate_poll_def refresh_begin_def)+
  ultimately show ?thesis by simp
next
  case False
  with p have g': "polling" "g' = g\<lparr>gt_met := metrics_inc (gauge_new (gt_met g) 3) 31, gt_sockets := gt_sockets g - 1\<rparr>"
    by (auto simp: gate_poll_def refresh_begin_def)
  show ?thesis
  proof (rule ok_move [OF ok, where d = "(\<lambda>_. 0)(3 := 1)"])
    show mv: "moves (gt_met g) (gt_met g') ((\<lambda>_. 0)(3 := 1))"
      using moves_quiet [OF moves_new [OF moves_refl, of 3 "gt_met g"], of "metrics_inc (gauge_new (gt_met g) 3) 31"] g'
      by (simp add: quiet_inc)
    show "gauges_ok polling (gt_met g') M" by (rule gauges_moves [OF gate_okD(3) [OF ok] mv]) (simp_all add: g')
    show "permits_ok cfg polling g' M" using gate_okD(2) [OF ok] False by (simp add: permits_ok_def g')
    show "dials_ok cfg g' M" using gate_okD(5) [OF ok] by (auto simp: dials_ok_def g' intro: backend_met)
  qed (simp_all add: g' gate_okD(7) [OF ok])
qed

lemma poll_over:
  assumes ok: "gate_ok cfg True g M" and m: "quiet (gt_met g) m"
  shows "gate_ok cfg False (g\<lparr>gt_cache := s, gt_met := gauge_drop m 3, gt_sockets := gt_sockets g + 1\<rparr>) M"
    (is "gate_ok _ _ ?g _")
proof (rule ok_move [OF ok, where d = "(\<lambda>_. 0)(3 := - 1)"])
  show mv: "moves (gt_met g) (gt_met ?g) ((\<lambda>_. 0)(3 := - 1))"
    using moves_drop [OF moves_quiet [OF moves_refl m], of 3] by simp
  show "gauges_ok False (gt_met ?g) M" by (rule gauges_moves [OF gate_okD(3) [OF ok] mv]) simp_all
  show "permits_ok cfg False ?g M" using gate_okD(2) [OF ok] by (simp add: permits_ok_def)
  show "dials_ok cfg ?g M" using gate_okD(5) [OF ok] by (auto simp: dials_ok_def intro: backend_met)
qed (simp_all add: gate_okD(7) [OF ok])

lemma polled_ok:
  assumes "gate_ok cfg True g M"
  shows "gate_ok cfg False (gate_polled g polled now) M"
proof (cases polled)
  case None
  from poll_over [OF assms, of "metrics_inc (gt_met g) 23" "gt_cache g"] None show ?thesis
    by (simp add: gate_polled_def refresh_end_def quiet_inc)
next
  case (Some v)
  from poll_over [OF assms quiet_refl, of "(gt_cache g)\<lparr>sc_value := Some \<lparr>cc_value = v, cc_at = now\<rparr>\<rparr>"] Some
  show ?thesis by (simp add: gate_polled_def refresh_end_def)
qed

lemma refresh_abort_ok:
  assumes "gate_ok cfg polling g M"
  shows "gate_ok cfg False (refresh_abort g polling) M"
proof (cases polling)
  case True
  have "g\<lparr>gt_cache := gt_cache g\<rparr> = g" by simp
  with True poll_over [of cfg g M "gt_met g" "gt_cache g"] assms show ?thesis by (simp add: refresh_abort_def)
qed (use assms in \<open>simp add: refresh_abort_def\<close>)

lemma calm_decs: "calm m m' \<Longrightarrow> i \<in> {32, 33} \<Longrightarrow> calm m (((\<lambda>m. metrics_dec m i) ^^ n) m')"
  by (induction n) (auto simp: calm_def metrics_gets)

lemma sweep_calm: "calm m (snd (sweep l m shard now))"
  by (simp add: sweep_def table_sweep_def Let_def calm_decs)

lemma maintain_ok:
  assumes ok: "gate_ok cfg polling g M"
  shows "gate_ok cfg polling (gate_maintain ops g shard unix now) M"
proof -
  obtain l m where sw: "sweep (gt_lim g) (gt_met g) shard now = (l, m)" by fastforce
  have calm: "calm (gt_met g) m" using sweep_calm [of "gt_met g" "gt_lim g" shard now] sw by simp
  obtain gen rej miss where tel: "telemetry (gt_rt g) unix now = (gen, rej, miss)" by (cases "telemetry (gt_rt g) unix now")
  let ?p = "fst (runtime_policy ops (gt_rt g) (sock_ip (cfg_listen (gt_cfg g))) unix now)"
  let ?m = "metrics_set (metrics_set (metrics_set (metrics_set (metrics_set m 34 (of_nat (p_mode ?p))) 35 (of_bool (p_observe ?p))) 42 gen) 43 rej) 51 miss"
  have "limiter_ok cfg (g\<lparr>gt_lim := l, gt_met := m\<rparr>) M"
    using lsys_sweep [OF _ sw] gate_okD(4) [OF ok] by (simp add: limiter_ok_def)
  moreover have "gauges_ok polling m M" using gate_okD(3) [OF ok] calm by (simp add: gauges_ok_def calm_def)
  moreover have "dials_ok cfg (g\<lparr>gt_lim := l, gt_met := m\<rparr>) M" using gate_okD(5) [OF ok] by (auto simp: dials_ok_def intro: backend_met)
  ultimately have "gate_ok cfg polling (g\<lparr>gt_lim := l, gt_met := m\<rparr>) M"
    using ok by (simp add: gate_ok_def permits_ok_def)
  from ok_met [OF this, of ?m] show ?thesis by (simp add: gate_maintain_def sw tel Let_def quiet_set)
qed

section \<open>The gate in every reachable state\<close>

definition gate_inv :: "('a, 'b, 'j) config \<Rightarrow> ('a, 'b, 'j) gsys \<Rightarrow> bool" where
  "gate_inv cfg s \<longleftrightarrow> gate_ok cfg (gs_refresh s = RefreshPolling) (gs_gate s) (gs_conns s) \<and>
     (gs_listening s \<or> gs_refresh s = RefreshStopped)"

lemma gate_new_ok:
  assumes "gate_new js cfg h1 h2 now = Some g" "limits_ok (cfg_limits cfg)" "lim_total_sockets (cfg_limits cfg) \<le> 100000"
  shows "gate_ok cfg False g {#}"
proof -
  have "limiter_init (cfg_limits cfg) \<lparr>ls_lim = limiter_new (cfg_limits cfg) h1 h2 now, ls_met = metrics_new, ls_conns = {#}\<rparr>"
    using assms(2,3) by (auto simp: limiter_init_def)
  then have l: "lsys_inv (cfg_limits cfg) \<lparr>ls_lim = limiter_new (cfg_limits cfg) h1 h2 now, ls_met = metrics_new, ls_conns = {#}\<rparr>"
    by (rule limiter_reachable_inv [OF reach_init])
  have b: "backend_inv (cfg_backend_protection cfg) n \<lparr>by_prot = protection_new (cfg_backend_protection cfg) n now,
      by_met = metrics_new, by_flight = {#}, by_opens = 0\<rparr>" for n
    by (rule backend_init_inv) (auto simp: backend_init_def)
  have "metrics_get metrics_new j = 0" if "j < 56" for j using that by (simp add: metrics_get_def metrics_new_def)
  then show ?thesis using assms(1) l b
    by (auto simp: gate_new_def gate_ok_def permits_ok_def gauges_ok_def limiter_ok_def dials_ok_def modes_ok_def runtime_new_def
        intro!: exI [of _ 0])
qed

lemma gate_init_inv [inv_intros]:
  "gate_init js cfg s \<Longrightarrow> limits_ok (cfg_limits cfg) \<Longrightarrow> lim_total_sockets (cfg_limits cfg) \<le> 100000 \<Longrightarrow> gate_inv cfg s"
  unfolding gate_init_def gate_inv_def using gate_new_ok by fastforce

lemma gate_step_inv [inv_intros]:
  assumes "gate_inv cfg s" "gate_step ops parse powf2 s s'"
  shows "gate_inv cfg s'"
  using assms(2)
proof cases
  case (gate_accepts peer now g oc)
  with gate_accept_ok [of cfg _ "gs_gate s" "gs_conns s" ops peer now] assms(1) show ?thesis by (simp add: gate_inv_def)
next
  case gate_accept_fails
  with assms(1) show ?thesis by (auto simp: gate_inv_def accept_failed_def intro!: ok_met quiet_inc)
next
  case (gate_runs c M out unix now g oc)
  with resume_ok [of cfg _ "gs_gate s" c M ops powf2 out unix now "(g, oc)"] assms(1) show ?thesis by (simp add: gate_inv_def)
next
  case (gate_watches doc unix now)
  with assms(1) show ?thesis by (simp add: gate_inv_def ok_watch)
next
  case (gate_polls polling g)
  with poll_ok [of cfg "gs_gate s" "gs_conns s" polling g] assms(1) show ?thesis by (cases polling) (simp_all add: gate_inv_def)
next
  case (gate_poll_ends polled now)
  with assms(1) show ?thesis by (simp add: gate_inv_def polled_ok)
next
  case (gate_maintains shard unix now)
  with assms(1) show ?thesis by (simp add: gate_inv_def maintain_ok)
next
  case gate_shuts_down
  with assms(1) show ?thesis by (simp add: gate_inv_def refresh_abort_ok)
next
  case (gate_aborts c M now)
  with assms(1) show ?thesis by (auto simp: gate_inv_def intro: ok_close)
qed

interpretation gate: invariant_system "gate_init js cfg" "gate_step ops parse powf2"
  "\<lambda>s. limits_ok (cfg_limits cfg) \<and> lim_total_sockets (cfg_limits cfg) \<le> 100000 \<longrightarrow> gate_inv cfg s" for js cfg ops parse powf2
  by unfold_locales (auto intro: inv_intros)

lemma gate_reachable_inv:
  assumes "gate_reachable ops js parse powf2 cfg s" "limits_ok (cfg_limits cfg)" "lim_total_sockets (cfg_limits cfg) \<le> 100000"
  shows "gate_inv cfg s"
  using gate.always [OF assms(1)] assms(2,3) by blast

end
