(* ===== verification/Gate_Session.thy ===== *)
theory Gate_Session
  imports Gate_Inv Relay_Deadlines
begin

text \<open>
  What the invariant of the gate gives a single handler: its charges find their entries,
  a socket is left for every slot, its segments come to an end, and what it reads is what
  it forwards. At the end a concrete session of the shipped configuration.
\<close>

section \<open>Charges of a live handler\<close>

lemma ticket_listed: "c \<in># M \<Longrightarrow> cn_ticket c = Some t \<Longrightarrow> (t, Live) \<in># tickets_of M"
  by (auto dest!: multi_member_split)

lemma live_entries:
  assumes "gate_ok cfg polling g M" "c \<in># M" "cn_ticket c = Some t"
  shows "table_get (li_ip (gt_lim g)) (tk_ip t) \<noteq> None" "table_get (li_prefix (gt_lim g)) (tk_prefix t) \<noteq> None"
proof -
  have "accounted (gt_lim g) (tickets_of M)" using gate_okD(4) [OF assms(1)] by (simp add: limiter_ok_def lsys_inv_def)
  moreover have "0 < cnt (on_ip (tk_ip t)) (tickets_of M)" "0 < cnt (on_prefix (tk_prefix t)) (tickets_of M)"
    using cnt_member [OF ticket_listed [OF assms(2,3)]] by simp_all
  ultimately have "0 < fst (counters (table_get (li_ip (gt_lim g)) (tk_ip t)))"
    "0 < fst (counters (table_get (li_prefix (gt_lim g)) (tk_prefix t)))"
    by (simp_all add: accounted_def ip_counters_def prefix_counters_def)
  then show "table_get (li_ip (gt_lim g)) (tk_ip t) \<noteq> None" "table_get (li_prefix (gt_lim g)) (tk_prefix t) \<noteq> None"
    by (metis counters_simps(1) fst_conv less_irrefl)+
qed

lemma observed_event:
  assumes "gate_ok cfg polling g (add_mset c M)" "cn_ticket c = Some t" "tk_ip t' = tk_ip t" "tk_prefix t' = tk_prefix t" "p_observe p"
  shows "fst (gate_event g t' ev p now)"
proof -
  have "fst (event (gt_lim g) (gt_met g) t' ev p now)"
    using live_entries [OF assms(1) _ assms(2)] assms(3-5) unfolding event_result event_allowed_def
    by (auto split: option.splits)
  then show ?thesis by (simp add: gate_event_def case_prod_beta)
qed

section \<open>Handlers and tickets\<close>

lemma cnt_tickets:
  assumes "\<And>c. c \<in># M \<Longrightarrow> Q c \<Longrightarrow> \<exists>t. cn_ticket c = Some t \<and> P (t, Live)"
  shows "cnt Q M \<le> cnt P (tickets_of M)"
  using assms
proof (induction M)
  case (add c M)
  then have "cnt Q M \<le> cnt P (tickets_of M)" by simp
  moreover have "Q c \<Longrightarrow> \<exists>t. cn_ticket c = Some t \<and> P (t, Live)" using add.prems [of c] by simp
  ultimately show ?case by (cases "Q c"; cases "cn_ticket c") auto
qed simp

lemma cap_held_le: "cap_held cap n \<Longrightarrow> m \<le> n \<Longrightarrow> cap_held cap m"
  by (auto simp: cap_held_def)

lemma handshake_state: "handshake data pr = Inr h \<Longrightarrow> hs_state h = 1 \<or> hs_state h = 2"
  by (auto simp: handshake_def Let_def bind_result_def split: sum.splits if_splits)

section \<open>Sockets\<close>

lemma held_split: "held (\<lambda>ph. ph \<noteq> InRelay) M + held (\<lambda>ph. ph = InRelay) M = size M"
  by (induction M) auto

lemma held_relay_le: "held (\<lambda>ph. ph = InRelay) M \<le> held on_backend M"
  by (induction M) auto

lemma sockets_spare:
  assumes "gate_ok cfg polling g M" "lim_prelogin (cfg_limits cfg) + lim_admitted (cfg_limits cfg) + lim_backend (cfg_limits cfg)
      \<le> lim_total_sockets (cfg_limits cfg)" "0 < lim_backend (cfg_limits cfg)"
    and "gt_prelogin g \<noteq> 0 \<or> gt_backend g \<noteq> 0 \<or> \<not> polling"
  shows "gt_sockets g \<noteq> 0"
proof -
  note p = gate_okD(2) [OF assms(1), unfolded permits_ok_def]
  have "size M = held (\<lambda>ph. ph \<noteq> InRelay) M + held (\<lambda>ph. ph = InRelay) M" using held_split by simp
  moreover have "of_bool polling \<le> (1 :: nat)" "\<not> polling \<Longrightarrow> of_bool polling = (0 :: nat)" by simp_all
  ultimately show ?thesis using p held_relay_le [of M] assms(2-4) by linarith
qed

section \<open>A login in observation mode\<close>

lemma enter_free:
  assumes "bx_slots p \<noteq> 0" "\<not> circuit_blocks (bx_state p) now" "fst (dial_budget (bp_attempts (bx_cfg p)) now (bx_state p))"
  obtains a p' m' where "enter p m now = (Some a, p', m')"
  using assms that by (auto simp: enter_def Let_def case_prod_beta)

lemma login_dials:
  assumes ok: "gate_ok cfg polling g (add_mset c M)" and c: "cn_phase c = AwaitLogin" "cn_ticket c = Some t"
    and f: "login (frame_body f) (cn_version c) (cfg_protocol cfg) = Inr ()"
    and pol: "runtime_policy ops (gt_rt g) (sock_ip (cn_peer c)) unix now = (p, False)" "p_observe p"
    and slots: "gt_admitted g \<noteq> 0" "gt_backend g \<noteq> 0" "gt_sockets g \<noteq> 0"
    and dial: "bx_slots (gt_prot g) \<noteq> 0" "\<not> circuit_blocks (bx_state (gt_prot g)) now"
      "fst (dial_budget (bp_attempts (bx_cfg (gt_prot g))) now (bx_state (gt_prot g)))"
  shows "\<exists>g' a. resume ops powf2 g c (FrameRead (Inr f) left) unix now =
    Some (g', Some (c\<lparr>cn_left := left, cn_login_wire := fr_wire f, cn_phase := AwaitBackend a, cn_ticket := Some t\<rparr>))"
proof -
  let ?g = "g\<lparr>gt_met := metrics_inc (gt_met g) 7\<rparr>" and ?c = "c\<lparr>cn_left := left, cn_login_wire := fr_wire f\<rparr>"
  have 1: "gate_ok cfg polling ?g (add_mset c M)" by (rule ok_met [OF ok]) (simp add: quiet_inc)
  obtain paid g2 where ev: "gate_event ?g t EvLogin p now = (paid, g2)" by fastforce
  have "fst (gate_event ?g t EvLogin p now)" by (rule observed_event [OF 1 c(2)]) (simp_all add: pol)
  then have paid: paid using ev by simp
  have same: "gt_admitted g2 = gt_admitted g" "gt_backend g2 = gt_backend g" "gt_sockets g2 = gt_sockets g" "gt_prot g2 = gt_prot g"
    by (rule event_shape [OF ev], simp)+
  obtain a p' m' where e: "enter (gt_prot g2) (gt_met g2) now = (Some a, p', m')"
    using enter_free [of "gt_prot g2" now "gt_met g2"] dial same(4) by metis
  have "\<exists>g'. begin_dial powf2 g2 ?c t now = (g', Some (?c\<lparr>cn_phase := AwaitBackend a, cn_ticket := Some t\<rparr>))"
    using e slots same(1-3) by (simp add: begin_dial_def Let_def)
  then show ?thesis using c pol paid ev f gate_okD(1) [OF ok]
    by (auto simp: resume_def seg_login_def bind_result_def Let_def)
qed

section \<open>A handler ends\<close>

fun rank :: "hphase \<Rightarrow> nat" where
  "rank AwaitIdentity = 7"
| "rank AwaitHandshake = 6"
| "rank (AwaitRequest _) = 5"
| "rank (AwaitReply _) = 4"
| "rank AwaitPing = 3"
| "rank AwaitPong = 2"
| "rank AwaitLogin = 5"
| "rank (AwaitBackend _) = 4"
| "rank InRelay = 3"

lemma rank_bounds: "2 \<le> rank ph" "rank ph \<le> 7"
  by (cases ph; simp)+

lemma close_with_none [simp]: "snd (close_with powf2 g c t err now) = None"
  by (simp add: close_with_def)

lemma begin_status_next:
  "snd (begin_status powf2 g c t separate p now) = Some c' \<Longrightarrow> cn_phase c' = AwaitRequest separate"
  by (auto simp: begin_status_def Let_def split: prod.splits if_splits)

lemma begin_login_next:
  assumes "snd (begin_login powf2 g c t p now) = Some c'"
  shows "c' = c\<lparr>cn_phase := AwaitLogin, cn_ticket := Some t\<rparr>"
  using assms by (auto simp: begin_login_def split: prod.splits if_splits sum.splits)

lemma begin_dial_next:
  assumes "snd (begin_dial powf2 g c t now) = Some c'"
  shows "\<exists>a. c' = c\<lparr>cn_phase := AwaitBackend a, cn_ticket := Some t\<rparr>"
  using assms by (auto simp: begin_dial_def Let_def split: prod.splits if_splits option.splits)

lemma seg_handshake_next:
  assumes "snd (seg_handshake ops powf2 g c t fr left unix now) = Some c'"
  shows "(\<exists>separate. cn_phase c' = AwaitRequest separate) \<or>
    (\<exists>f. fr = Inr f \<and> cn_phase c' = AwaitLogin \<and> cn_left c' = left \<and> cn_handshake_wire c' = fr_wire f \<and>
       cn_peer c' = cn_peer c \<and> cn_dst c' = cn_dst c)"
  using assms
  by (auto simp: seg_handshake_def Let_def split: prod.splits if_splits sum.splits dest!: begin_status_next begin_login_next)

lemma seg_login_next:
  assumes "snd (seg_login ops powf2 g c t fr left unix now) = Some c'"
  shows "\<exists>f a. fr = Inr f \<and> c' = c\<lparr>cn_left := left, cn_login_wire := fr_wire f, cn_phase := AwaitBackend a, cn_ticket := Some t\<rparr>"
  using assms
  by (auto simp: seg_login_def Let_def bind_result_def split: prod.splits if_splits sum.splits dest!: begin_dial_next)

lemma seg_identity_next:
  "snd (seg_identity ops powf2 g c nodelay header local unix now) = Some c' \<Longrightarrow> cn_phase c' = AwaitHandshake"
  by (auto simp: seg_identity_def Let_def split: prod.splits if_splits sum.splits option.splits)

lemma seg_request_next:
  "snd (seg_request ops powf2 g c t separate fr left unix now) = Some c' \<Longrightarrow> \<exists>r. cn_phase c' = AwaitReply r"
  by (auto simp: seg_request_def Let_def split: prod.splits if_splits sum.splits)

lemma seg_reply_next: "snd (seg_reply powf2 g c t w now) = Some c' \<Longrightarrow> cn_phase c' = AwaitPing"
  by (auto simp: seg_reply_def split: option.splits)

lemma seg_ping_next: "snd (seg_ping powf2 g c t fr left now) = Some c' \<Longrightarrow> cn_phase c' = AwaitPong"
  by (auto simp: seg_ping_def split: sum.splits)

lemma seg_backend_next:
  assumes "snd (seg_backend powf2 g c t a ok now) = Some c'" "metrics_wf (gt_met g)"
  shows "\<exists>m. metrics_wf m \<and> cn_phase c' = InRelay \<and> cn_relay c' = Some (begin_relay (gt_cfg g) m now)"
proof -
  obtain prot m where fin: "attempt_finish (gt_prot g) (gt_met g) a True now = (prot, m)" by fastforce
  then have "metrics_wf (gauge_new m 30)"
    using attempt_finish_quiet [of "gt_met g" "gt_prot g" a True now] assms(2) by (simp add: quiet_def calm_def gauge_new_def)
  moreover have "cn_phase c' = InRelay \<and> cn_relay c' = Some (begin_relay (gt_cfg g) (gauge_new m 30) now)"
    using assms(1) fin by (auto simp: seg_backend_def Let_def split: prod.splits if_splits)
  ultimately show ?thesis by blast
qed

lemma seg_backend_phase: "snd (seg_backend powf2 g c t a ok now) = Some c' \<Longrightarrow> cn_phase c' = InRelay"
  by (auto simp: seg_backend_def Let_def split: prod.splits if_splits)

lemma seg_relay_next: "seg_relay powf2 g c r p now = Some (g', Some c') \<Longrightarrow> cn_phase c' = cn_phase c"
  by (auto simp: seg_relay_def Let_def split: option.splits prod.splits poll.splits)

text \<open>Every resumption but the wake-up of a relay takes the handler closer to its end.\<close>

fun wakes_relay :: "outcome \<Rightarrow> bool" where
  "wakes_relay (RelayWoken _) = True"
| "wakes_relay _ = False"

lemma resume_rank:
  assumes "resume ops powf2 g c out unix now = Some (g', Some c')"
  shows "rank (cn_phase c') + of_bool (\<not> wakes_relay out) \<le> rank (cn_phase c)"
proof (cases "cn_phase c = InRelay")
  case True
  with assms obtain p r where "out = RelayWoken p" "seg_relay powf2 g c r p now = Some (g', Some c')"
    by (auto simp: resume_def split: outcome.splits option.splits)
  with seg_relay_next show ?thesis by fastforce
next
  case False
  have "snd (the (resume ops powf2 g c out unix now)) = Some c'" "resume ops powf2 g c out unix now \<noteq> None"
    using assms by simp_all
  with False show ?thesis
    by (cases "cn_phase c"; cases out; cases "cn_ticket c")
      (auto simp: resume_def seg_pong_def dest!: seg_identity_next seg_handshake_next seg_request_next
        seg_reply_next seg_ping_next seg_login_next seg_backend_phase)
qed

text \<open>The kinds of outcome a handler can wait for, and what a handler holds in its phase.\<close>

fun awaits :: "hphase \<Rightarrow> outcome \<Rightarrow> bool" where
  "awaits AwaitIdentity (IdentityRead _ _ _) = True"
| "awaits AwaitHandshake (FrameRead _ _) = True"
| "awaits (AwaitRequest _) (FrameRead _ _) = True"
| "awaits (AwaitReply _) (WriteDone _) = True"
| "awaits AwaitPing (FrameRead _ _) = True"
| "awaits AwaitPong (WriteDone _) = True"
| "awaits AwaitLogin (FrameRead _ _) = True"
| "awaits (AwaitBackend _) (DialDone _) = True"
| "awaits InRelay (RelayWoken _) = True"
| "awaits _ _ = False"

definition handler_typed :: "conn \<Rightarrow> bool" where
  "handler_typed c \<longleftrightarrow> (cn_ticket c = None \<longleftrightarrow> cn_phase c = AwaitIdentity) \<and> (cn_phase c = InRelay \<longleftrightarrow> cn_relay c \<noteq> None)"

text \<open>The clock that a relay reads has not run for \<open>2 ^ 64\<close> milliseconds.\<close>

definition clock_sane :: "conn \<Rightarrow> instant \<Rightarrow> bool" where
  "clock_sane c now \<longleftrightarrow> (\<forall>r. cn_relay c = Some r \<longrightarrow> as_millis now + rl_idle_ms r < 2 ^ 64 \<and>
     (\<forall>a. ep_activity (rl_ep r) = Some a \<longrightarrow> ac_last_ms a + rl_idle_ms r < 2 ^ 64))"

lemma conn_ok_typed: "conn_ok cfg c \<Longrightarrow> handler_typed c"
  by (auto simp: conn_ok_def identified_def handler_typed_def split: option.splits)

lemma resume_progress:
  assumes "handler_typed c" "awaits (cn_phase c) out" "clock_sane c now"
  shows "resume ops powf2 g c out unix now \<noteq> None"
proof (cases "cn_phase c = InRelay")
  case True
  then obtain r p where r: "cn_relay c = Some r" "out = RelayWoken p"
    using assms(1,2) by (cases out) (auto simp: handler_typed_def)
  have "relay_poll r (p\<lparr>wk_now := now, wk_met := gt_met g\<rparr>) \<noteq> None"
    by (rule relay_poll_total) (use assms(3) r in \<open>auto simp: clock_sane_def\<close>)
  with True r show ?thesis by (auto simp: resume_def seg_relay_def Let_def split: poll.split)
next
  case False
  with assms(1,2) show ?thesis
    by (cases "cn_phase c"; cases out; cases "cn_ticket c") (auto simp: resume_def handler_typed_def)
qed

text \<open>
  A handler on its own: the states of the gate that it meets, the outcomes and the clock
  readings are arbitrary.
\<close>

fun survives :: "('a, 'b) ipnet_ops \<Rightarrow> (f64 \<Rightarrow> f64) \<Rightarrow> conn \<Rightarrow> (('a, 'b, 'j) gate \<times> outcome \<times> nat \<times> instant) list \<Rightarrow> conn option" where
  "survives ops powf2 c [] = Some c"
| "survives ops powf2 c ((g, out, unix, now) # xs) =
     (case resume ops powf2 g c out unix now of Some (_, Some c') \<Rightarrow> survives ops powf2 c' xs | _ \<Rightarrow> None)"

lemma survives_rank:
  "survives ops powf2 c xs = Some c' \<Longrightarrow>
     length (filter (\<lambda>(_, out, _). \<not> wakes_relay out) xs) + rank (cn_phase c') \<le> rank (cn_phase c)"
proof (induction xs arbitrary: c)
  case (Cons x xs)
  obtain g out unix now where x: "x = (g, out, unix, now)" by (cases x)
  with Cons.prems obtain g1 c1 where r: "resume ops powf2 g c out unix now = Some (g1, Some c1)" "survives ops powf2 c1 xs = Some c'"
    by (auto split: option.splits prod.splits)
  from Cons.IH [OF r(2)] resume_rank [OF r(1)] show ?case
    by (cases "wakes_relay out") (simp_all add: x)
qed simp

text \<open>The handler returns at one of the resumptions.\<close>

fun closes :: "('a, 'b) ipnet_ops \<Rightarrow> (f64 \<Rightarrow> f64) \<Rightarrow> conn \<Rightarrow> (('a, 'b, 'j) gate \<times> outcome \<times> nat \<times> instant) list \<Rightarrow> bool" where
  "closes ops powf2 c [] = False"
| "closes ops powf2 c ((g, out, unix, now) # xs) =
     (case resume ops powf2 g c out unix now of
        None \<Rightarrow> False | Some (_, None) \<Rightarrow> True | Some (_, Some c') \<Rightarrow> closes ops powf2 c' xs)"

text \<open>The wake-ups of a relay in the gate are those of its own run, on the clock and counters of the gate.\<close>

definition relay_wakeup :: "('a, 'b, 'j) gate \<times> wakeup \<times> nat \<times> instant \<Rightarrow> wakeup" where
  "relay_wakeup = (\<lambda>(g, p, unix, now). p\<lparr>wk_now := now, wk_met := gt_met g\<rparr>)"

definition relay_resume :: "('a, 'b, 'j) gate \<times> wakeup \<times> nat \<times> instant \<Rightarrow> ('a, 'b, 'j) gate \<times> outcome \<times> nat \<times> instant" where
  "relay_resume = (\<lambda>(g, p, unix, now). (g, RelayWoken p, unix, now))"

lemma closes_relay:
  assumes "cn_phase c = InRelay" "cn_relay c = Some r" "relay_run r (map relay_wakeup ws) = Some (Ready x, r')"
  shows "closes ops powf2 c (map relay_resume ws)"
  using assms
proof (induction ws arbitrary: c r)
  case (Cons w ws)
  obtain g p unix now where w: "w = (g, p, unix, now)" by (cases w)
  obtain out r1 where poll: "relay_poll r (p\<lparr>wk_now := now, wk_met := gt_met g\<rparr>) = Some (out, r1)"
    using Cons.prems(3) w by (auto simp: relay_wakeup_def split: option.splits)
  show ?case
  proof (cases out)
    case Pending
    then have "relay_run r1 (map relay_wakeup ws) = Some (Ready x, r')"
      using Cons.prems(3) w poll by (simp add: relay_wakeup_def)
    from Cons.IH [of "c\<lparr>cn_relay := Some r1\<rparr>", OF _ _ this] Cons.prems(1,2) w poll Pending show ?thesis
      by (simp add: relay_resume_def resume_def seg_relay_def)
  next
    case (Ready y)
    with Cons.prems(1,2) w poll show ?thesis by (simp add: relay_resume_def resume_def seg_relay_def Let_def)
  qed
qed simp

section \<open>What is read is what is forwarded\<close>

lemma serve_cases:
  assumes "serve rd ops powf2 g c unix now now' w = Some (g', oc, w')"
  obtains fr left where "handler_read rd (gt_cfg g) c now w = Some (fr, left, w')"
    "resume ops powf2 g c (FrameRead fr left) unix now' = Some (g', oc)"
  using assms that by (auto simp: serve_def split: option.splits prod.splits)

context byte_source
begin

lemma handshake_served:
  assumes "cn_phase c = AwaitHandshake" "serve ops nets powf2 g c unix now now' w = Some (g', Some c', w')"
    and "cn_phase c' = AwaitLogin"
  shows "pending w = cn_handshake_wire c' @ pending w' \<and> cn_left c = cn_left c' + length (cn_handshake_wire c') \<and>
    cn_peer c' = cn_peer c \<and> cn_dst c' = cn_dst c"
proof -
  obtain fr left where r: "handler_read ops (gt_cfg g) c now w = Some (fr, left, w')"
    "resume nets powf2 g c (FrameRead fr left) unix now' = Some (g', Some c')"
    using serve_cases [OF assms(2)] .
  from r(2) assms(1) obtain t where "seg_handshake nets powf2 g c t fr left unix now' = (g', Some c')"
    by (auto simp: resume_def split: option.splits)
  then have "snd (seg_handshake nets powf2 g c t fr left unix now') = Some c'" by simp
  from seg_handshake_next [OF this] assms(3) obtain f where
    f: "fr = Inr f" "cn_left c' = left" "cn_handshake_wire c' = fr_wire f" "cn_peer c' = cn_peer c" "cn_dst c' = cn_dst c"
    by auto
  from r(1) assms(1) f(1) have "read_frame ops (handshake_max (cfg_protocol (gt_cfg g))) (cn_left c)
      (cn_start c + from_millis (to_handshake_ms (cfg_timeouts (gt_cfg g)))) (from_millis (to_progress_ms (cfg_timeouts (gt_cfg g))))
      (from_millis (to_first_progress_ms (cfg_timeouts (gt_cfg g)))) w = (Inr f, left, w')"
    by (simp add: handler_read_def Let_def)
  from read_frame_ok [OF this] f show ?thesis by simp
qed

lemma login_served:
  assumes "cn_phase c = AwaitLogin" "serve ops nets powf2 g c unix now now' w = Some (g', Some c', w')"
  shows "\<exists>a. cn_phase c' = AwaitBackend a \<and> pending w = cn_login_wire c' @ pending w' \<and>
    cn_left c = cn_left c' + length (cn_login_wire c') \<and> cn_handshake_wire c' = cn_handshake_wire c \<and>
    cn_peer c' = cn_peer c \<and> cn_dst c' = cn_dst c"
proof -
  obtain fr left where r: "handler_read ops (gt_cfg g) c now w = Some (fr, left, w')"
    "resume nets powf2 g c (FrameRead fr left) unix now' = Some (g', Some c')"
    using serve_cases [OF assms(2)] .
  from r(2) assms(1) obtain t where "seg_login nets powf2 g c t fr left unix now' = (g', Some c')"
    by (auto simp: resume_def split: option.splits)
  then have "snd (seg_login nets powf2 g c t fr left unix now') = Some c'" by simp
  from seg_login_next [OF this] obtain f a where
    f: "fr = Inr f" "c' = c\<lparr>cn_left := left, cn_login_wire := fr_wire f, cn_phase := AwaitBackend a, cn_ticket := Some t\<rparr>"
    by auto
  from r(1) assms(1) f(1) obtain max_len deadline progress first where
    "read_frame ops max_len (cn_left c) deadline progress first w = (Inr f, left, w')"
    by (auto simp: handler_read_def phase_def phase_limits_def Let_def split: sum.splits)
  from read_frame_ok [OF this] f show ?thesis by simp
qed

end

section \<open>Shutdown\<close>

lemma abort_all:
  assumes "\<not> gs_listening s"
  shows "\<exists>s'. (gate_step ops parse powf2)\<^sup>*\<^sup>* s s' \<and> gs_conns s' = {#} \<and> gs_refresh s' = gs_refresh s \<and> \<not> gs_listening s'"
  using assms
proof (induction "size (gs_conns s)" arbitrary: s)
  case 0
  then show ?case by auto
next
  case (Suc n)
  then obtain c M where M: "gs_conns s = add_mset c M" by (metis size_Suc_Diff1 size_eq_Suc_imp_eq_union)
  let ?s = "s\<lparr>gs_gate := gate_close powf2 (gs_gate s) c None 0, gs_conns := M\<rparr>"
  have "gate_step ops parse powf2 s ?s" by (rule gate_aborts [OF Suc.prems M])
  moreover have "n = size (gs_conns ?s)" "\<not> gs_listening ?s" using Suc M by simp_all
  from Suc.hyps(1) [OF this] obtain s' where
    "(gate_step ops parse powf2)\<^sup>*\<^sup>* ?s s'" "gs_conns s' = {#}" "gs_refresh s' = gs_refresh s" "\<not> gs_listening s'" by auto
  ultimately show ?case by (meson converse_rtranclp_into_rtranclp)
qed

lemma reachable_steps: "step\<^sup>*\<^sup>* s s' \<Longrightarrow> reachable init step s \<Longrightarrow> reachable init step s'"
  by (induction rule: rtranclp_induct) (auto intro: reach_step)

lemma shutdown_empties:
  assumes "gate_inv cfg s"
  shows "\<exists>s'. (gate_step ops parse powf2)\<^sup>*\<^sup>* s s' \<and> gs_conns s' = {#} \<and> gs_refresh s' = RefreshStopped \<and> \<not> gs_listening s'"
proof (cases "gs_listening s")
  case True
  let ?s = "s\<lparr>gs_gate := refresh_abort (gs_gate s) (gs_refresh s = RefreshPolling), gs_refresh := RefreshStopped, gs_listening := False\<rparr>"
  have 1: "gate_step ops parse powf2 s ?s" by (rule gate_shuts_down [OF True])
  have "\<not> gs_listening ?s" by simp
  from abort_all [OF this, of ops parse powf2] obtain s' where
    "(gate_step ops parse powf2)\<^sup>*\<^sup>* ?s s'" "gs_conns s' = {#}" "gs_refresh s' = RefreshStopped" "\<not> gs_listening s'" by auto
  with 1 show ?thesis by (meson converse_rtranclp_into_rtranclp)
next
  case False
  then show ?thesis using assms abort_all [OF False, of ops parse powf2] by (auto simp: gate_inv_def)
qed

section \<open>A session of the shipped configuration\<close>

text \<open>A client of protocol version 757 named \<^verbatim>\<open>a\<close> that asks for host \<^verbatim>\<open>a\<close>.\<close>

definition demo_handshake :: frame_rec where
  "demo_handshake = \<lparr>fr_wire = [8, 0, 0xF5, 5, 1, 97, 0x63, 0xDD, 2], fr_body_offset = 1\<rparr>"

definition demo_login :: frame_rec where
  "demo_login = \<lparr>fr_wire = [3, 0, 1, 97], fr_body_offset = 1\<rparr>"

lemma demo_handshake_parses:
  "handshake (frame_body demo_handshake) shipped_protocol = Inr \<lparr>hs_version = 757, hs_state = 2\<rparr>"
proof -
  have v: "put_varint_loop 757 = [0xF5, 5]" by (simp add: put_varint_loop.simps)
  have id: "cursor_int (cursor_new (frame_body demo_handshake)) = Inr (0, cursor_at [0] ([0xF5, 5] @ [1, 97, 0x63, 0xDD, 2]))"
    by (simp add: demo_handshake_def frame_body_def cursor_new_at)
  have ver: "cursor_int (cursor_at [0] ([0xF5, 5] @ [1, 97, 0x63, 0xDD, 2])) = Inr (757, cursor_at [0, 0xF5, 5] [1, 97, 0x63, 0xDD, 2])"
    using cursor_int_at [of "[0]" 757 "[1, 97, 0x63, 0xDD, 2]"] by (simp add: v)
  have host: "cursor_string 1024 (cursor_at [0, 0xF5, 5] [1, 97, 0x63, 0xDD, 2]) = Inr ([97], cursor_at [0, 0xF5, 5, 1, 97] [0x63, 0xDD, 2])"
    using cursor_string_at [of "[97]" 1024 "[0, 0xF5, 5]" "[0x63, 0xDD, 2]"] by (simp add: put_varint_loop_small utf8_valid_def)
  have port: "cursor_bytes 2 (cursor_at [0, 0xF5, 5, 1, 97] [0x63, 0xDD, 2]) = Inr ([0x63, 0xDD], cursor_at [0, 0xF5, 5, 1, 97, 0x63, 0xDD] [2])"
    using cursor_bytes_at [of "[0x63, 0xDD]" 2 "[0, 0xF5, 5, 1, 97]" "[2]"] by simp
  have st: "cursor_int (cursor_at [0, 0xF5, 5, 1, 97, 0x63, 0xDD] [2]) = Inr (2, cursor_at [0, 0xF5, 5, 1, 97, 0x63, 0xDD, 2] [])"
    using cursor_int_at_small [of 2 "[0, 0xF5, 5, 1, 97, 0x63, 0xDD]" "[]"] by simp
  have pr: "pr_max_host_bytes shipped_protocol = 1024" "pr_allow_host_suffix shipped_protocol" "pr_allowed_hosts shipped_protocol = []"
    "pr_allowed_ports shipped_protocol = []"
    by (simp_all add: shipped_protocol_def)
  show ?thesis
    using id ver host port st
    by (simp add: handshake_def pr Let_def str_base_def str_chars_def is_control_def u16_from_be_def)
qed

lemma demo_schema: "login_schema 757 shipped_protocol = Inr ''legacy''"
  by (simp add: login_schema_def shipped_protocol_def Let_def)

lemma demo_login_parses: "login (frame_body demo_login) 757 shipped_protocol = Inr ()"
proof -
  have id: "cursor_int (cursor_new (frame_body demo_login)) = Inr (0, cursor_at [0] [1, 97])"
    by (simp add: demo_login_def frame_body_def cursor_new_at)
  have name: "utf8_valid [97]" "utf16_count [97] = 1" "\<not> list_ex is_control (str_chars [97])"
    by (simp_all add: utf8_valid_def utf16_count_def str_chars_def is_control_def)
  have "cursor_string 64 (cursor_at [0] [1, 97]) = Inr ([97], cursor_at [0, 1, 97] [])"
    using cursor_string_at [of "[97]" 64 "[0]" "[]"] name by (simp add: put_varint_loop_small)
  then show ?thesis
    using id name by (simp add: login_def demo_schema login_signed_part_def login_uuid_part_def) (simp add: shipped_protocol_def)
qed

lemma demo_login_max: "\<exists>n. login_max 757 shipped_protocol = Inr n"
  by (simp add: login_max_def demo_schema)

definition demo_policy :: policy where
  "demo_policy = \<lparr>p_mode = 0, p_observe = True, p_exempt = False\<rparr>"

lemma demo_limits:
  "cfg_limits shipped_config = shipped_limits" "cfg_protocol shipped_config = shipped_protocol"
  "lim_total_sockets shipped_limits = 10000" "lim_prelogin shipped_limits = 512" "lim_admitted shipped_limits = 4096"
  "lim_backend shipped_limits = 4097" "length (lim_mode_multipliers shipped_limits) = 4"
  by (simp_all add: shipped_config_def shipped_limits_def)

lemma demo_gate:
  "\<exists>g. gate_new empty_json shipped_config (\<lambda>_. 0) (\<lambda>_. 0) 0 = Some g \<and> gt_cfg g = shipped_config \<and>
     gt_lim g = limiter_new shipped_limits (\<lambda>_. 0) (\<lambda>_. 0) 0 \<and> gt_sockets g = 10000 \<and> gt_prelogin g = 512 \<and>
     rt_value (gt_rt g) = None \<and> rt_default_observe (gt_rt g) \<and>
     gt_prot g = protection_new (cfg_backend_protection shipped_config) 4096 0"
proof -
  obtain cache where "status_cache_new empty_json (cfg_cache shipped_config) = Some cache"
    using empty_valid_status by (auto simp: status_cache_new_def valid_status_def shipped_config_def)
  moreover have "cfg_runtime_file shipped_config \<noteq> []" by (simp add: shipped_config_def)
  ultimately show ?thesis by (simp add: gate_new_def demo_limits runtime_new_def)
qed

lemma demo_accept:
  "\<exists>l m'. accept (limiter_new shipped_limits (\<lambda>_. 0) (\<lambda>_. 0) 0) m (IpV4 263) demo_policy 0 =
     (Some (ticket_new (IpV4 263) (IpV4 256)), l, m')"
proof -
  let ?l = "limiter_new shipped_limits (\<lambda>_. 0) (\<lambda>_. 0) 0"
  have cfg: "li_cfg ?l = shipped_limits" by (simp add: limiter_new_def)
  have px: "prefix_of shipped_limits (IpV4 263) = IpV4 256"
    by (simp add: prefix_of_def normalize_def shipped_limits_def subnet_netmask netmask_eval)
  have room: "has_room (li_ip ?l) k" "has_room (li_prefix ?l) k" for k
    by (simp_all add: has_room_def limiter_new_def)
      (simp_all add: table_new_def table_len_def table_shard_def SHARDS_def shipped_limits_def)
  have "admissible ?l (IpV4 263) demo_policy 0"
    unfolding admissible_def under_caps_def Let_def cfg
    by (simp add: room cap_ok_def demo_policy_def) (simp add: shipped_limits_def)
  with accept_admits [of ?l m "IpV4 263" demo_policy 0] px cfg show ?thesis
    by (cases "accept ?l m (IpV4 263) demo_policy 0") (auto simp: normalize_def)
qed

abbreviation demo_reachable :: "(cidr4, cidr6, unit) gsys \<Rightarrow> bool" where
  "demo_reachable \<equiv> gate_reachable cidr_ops empty_json (\<lambda>_. None) (\<lambda>x. x) shipped_config"

lemma demo_inv: "demo_reachable s \<Longrightarrow> gate_inv shipped_config s"
  by (erule gate_reachable_inv) (simp_all add: demo_limits)

lemma demo_policy_holds:
  "rt_value rt = None \<Longrightarrow> rt_default_observe rt \<Longrightarrow> runtime_policy ops rt ip unix now = (demo_policy, False)"
  by (simp add: runtime_policy_def demo_policy_def)

text \<open>The parts of the state that the session does not touch.\<close>

definition demo_calm :: "(cidr4, cidr6, unit) gate \<Rightarrow> bool" where
  "demo_calm g \<longleftrightarrow> gt_cfg g = shipped_config \<and> rt_value (gt_rt g) = None \<and> rt_default_observe (gt_rt g) \<and>
     gt_prot g = protection_new (cfg_backend_protection shipped_config) 4096 0"

definition demo_conn :: conn where
  "demo_conn = \<lparr>cn_socket_peer = SockV4 263 4000, cn_start = 0, cn_phase = AwaitIdentity, cn_peer = SockV4 263 4000,
     cn_dst = SockV4 263 4000, cn_ticket = None, cn_left = 0, cn_version = 0, cn_handshake_wire = [], cn_login_wire = [],
     cn_relay = None\<rparr>"

lemma demo_arrives:
  "\<exists>s. demo_reachable s \<and> gs_conns s = {#demo_conn#} \<and> gs_listening s \<and> demo_calm (gs_gate s) \<and>
     gt_lim (gs_gate s) = limiter_new shipped_limits (\<lambda>_. 0) (\<lambda>_. 0) 0"
proof -
  obtain g where g: "gate_new empty_json shipped_config (\<lambda>_. 0) (\<lambda>_. 0) 0 = Some g" "gt_cfg g = shipped_config"
    "gt_lim g = limiter_new shipped_limits (\<lambda>_. 0) (\<lambda>_. 0) 0" "gt_sockets g = 10000" "gt_prelogin g = 512"
    "demo_calm g"
    using demo_gate by (auto simp: demo_calm_def)
  let ?s = "\<lparr>gs_gate = g, gs_conns = {#}, gs_refresh = RefreshIdle, gs_listening = True\<rparr>"
  have init: "demo_reachable ?s" by (rule reach_init) (use g(1) in \<open>auto simp: gate_init_def\<close>)
  obtain g' where a: "gate_accept cidr_ops g (SockV4 263 4000) 0 = (g', Some demo_conn)"
    and g': "demo_calm g'" "gt_lim g' = gt_lim g"
    using g by (simp add: gate_accept_def demo_conn_def demo_calm_def) (simp add: shipped_config_def)
  have "gate_step cidr_ops (\<lambda>_. None) (\<lambda>x. x) ?s (?s\<lparr>gs_gate := g', gs_conns := add_opt (Some demo_conn) (gs_conns ?s)\<rparr>)"
    by (rule gate_accepts) (use a in simp_all)
  from reach_step [OF init this] g' g(3) show ?thesis by fastforce
qed

lemma demo_identified:
  "\<exists>s c. demo_reachable s \<and> gs_conns s = {#c#} \<and> gs_listening s \<and> demo_calm (gs_gate s) \<and>
     cn_phase c = AwaitHandshake \<and> cn_ticket c = Some (ticket_new (IpV4 263) (IpV4 256)) \<and> cn_peer c = SockV4 263 4000 \<and>
     cn_dst c = SockV4 0x7F000001 25565 \<and> cn_left c = 32768 \<and> cn_start c = 0"
proof -
  obtain s where s: "demo_reachable s" "gs_conns s = {#demo_conn#}" "gs_listening s" "demo_calm (gs_gate s)"
    "gt_lim (gs_gate s) = limiter_new shipped_limits (\<lambda>_. 0) (\<lambda>_. 0) 0"
    using demo_arrives by blast
  obtain l m where acc: "accept (gt_lim (gs_gate s)) (gt_met (gs_gate s)) (IpV4 263) demo_policy 0 =
      (Some (ticket_new (IpV4 263) (IpV4 256)), l, m)" using demo_accept s(5) by metis
  let ?c = "demo_conn\<lparr>cn_phase := AwaitHandshake, cn_dst := SockV4 0x7F000001 25565,
      cn_ticket := Some (ticket_new (IpV4 263) (IpV4 256)), cn_left := 32768\<rparr>"
  have d: "gt_cfg (gs_gate s) = shipped_config" "rt_value (gt_rt (gs_gate s)) = None" "rt_default_observe (gt_rt (gs_gate s))"
    using s(4) by (simp_all add: demo_calm_def)
  have ipx: "\<not> ipx_enabled (cfg_incoming_proxy_v2 shipped_config)" "pr_max_initial_bytes (cfg_protocol shipped_config) = 32768"
    by (simp_all add: shipped_config_def shipped_protocol_def)
  have r: "resume cidr_ops (\<lambda>x. x) (gs_gate s) demo_conn (IdentityRead True (Inl Io) (Some (SockV4 0x7F000001 25565))) 0 0 =
      Some ((gs_gate s)\<lparr>gt_lim := l, gt_met := m\<rparr>, Some ?c)"
    using acc by (simp add: resume_def demo_conn_def seg_identity_def gate_identity_def d ipx demo_policy_holds Let_def)
      (simp add: demo_policy_def)
  let ?s = "s\<lparr>gs_gate := (gs_gate s)\<lparr>gt_lim := l, gt_met := m\<rparr>, gs_conns := add_opt (Some ?c) {#}\<rparr>"
  have "gate_step cidr_ops (\<lambda>_. None) (\<lambda>x. x) s ?s" by (rule gate_runs [OF _ r]) (simp add: s(2))
  with s(1) have "demo_reachable ?s" by (rule reach_step)
  then show ?thesis using s(3,4)
    by - (rule exI [of _ ?s], rule exI [of _ ?c], simp add: demo_calm_def demo_conn_def)
qed

lemma demo_greeting:
  assumes s: "demo_reachable s" "gs_conns s = {#c#}" "demo_calm (gs_gate s)" and c: "cn_phase c = AwaitHandshake" "cn_ticket c = Some t"
    and f: "handshake (frame_body f) shipped_protocol = Inr \<lparr>hs_version = 757, hs_state = 2\<rparr>"
  shows "\<exists>g t'. resume cidr_ops (\<lambda>x. x) (gs_gate s) c (FrameRead (Inr f) left) 0 now =
      Some (g, Some (c\<lparr>cn_left := left, cn_version := 757, cn_handshake_wire := fr_wire f, cn_phase := AwaitLogin, cn_ticket := Some t'\<rparr>)) \<and>
    demo_calm g"
proof -
  let ?g = "(gs_gate s)\<lparr>gt_met := metrics_inc (gt_met (gs_gate s)) 4\<rparr>" and ?t = "t\<lparr>tk_handshake := True\<rparr>"
  let ?c = "c\<lparr>cn_left := left, cn_version := 757, cn_handshake_wire := fr_wire f\<rparr>"
  have d: "gt_cfg (gs_gate s) = shipped_config" "rt_value (gt_rt (gs_gate s)) = None" "rt_default_observe (gt_rt (gs_gate s))"
    using s(3) by (simp_all add: demo_calm_def)
  obtain polling where "gate_ok shipped_config polling (gs_gate s) (add_mset c {#})"
    using demo_inv [OF s(1)] s(2) by (auto simp: gate_inv_def)
  then have ok: "gate_ok shipped_config polling ?g (add_mset c {#})" by (rule ok_met) (simp add: quiet_inc)
  obtain paid g2 where ev: "gate_event ?g ?t EvHandshake demo_policy now = (paid, g2)" by fastforce
  have "fst (gate_event ?g ?t EvHandshake demo_policy now)"
    by (rule observed_event [OF ok c(2)]) (simp_all add: demo_policy_def)
  then have paid: paid using ev by simp
  have g2: "demo_calm g2" by (rule event_shape [OF ev]) (use s(3) in \<open>simp add: demo_calm_def\<close>)
  obtain n where n: "login_max 757 shipped_protocol = Inr n" using demo_login_max by blast
  have "gt_cfg g2 = shipped_config" using g2 by (simp add: demo_calm_def)
  then have "begin_login (\<lambda>x. x) ?g ?c ?t demo_policy now = (g2, Some (?c\<lparr>cn_phase := AwaitLogin, cn_ticket := Some ?t\<rparr>))"
    using ev paid n by (simp add: begin_login_def demo_limits)
  then have "resume cidr_ops (\<lambda>x. x) (gs_gate s) c (FrameRead (Inr f) left) 0 now =
      Some (g2, Some (?c\<lparr>cn_phase := AwaitLogin, cn_ticket := Some ?t\<rparr>))"
    by (simp add: resume_def c seg_handshake_def d demo_limits f demo_policy_holds Let_def)
  then show ?thesis using g2 by - (rule exI [of _ g2], rule exI [of _ ?t], rule conjI)
qed

lemma demo_greeted:
  "\<exists>s c t. demo_reachable s \<and> gs_conns s = {#c#} \<and> demo_calm (gs_gate s) \<and>
     cn_phase c = AwaitLogin \<and> cn_ticket c = Some t \<and> cn_version c = 757 \<and> cn_peer c = SockV4 263 4000 \<and>
     cn_handshake_wire c = fr_wire demo_handshake"
proof -
  obtain s c where s: "demo_reachable s" "gs_conns s = {#c#}" "demo_calm (gs_gate s)"
    and c: "cn_phase c = AwaitHandshake" "cn_ticket c = Some (ticket_new (IpV4 263) (IpV4 256))" "cn_peer c = SockV4 263 4000"
    using demo_identified by blast
  from demo_greeting [OF s c(1,2) demo_handshake_parses, of 32759 0] obtain g t where
    r: "resume cidr_ops (\<lambda>x. x) (gs_gate s) c (FrameRead (Inr demo_handshake) 32759) 0 0 = Some (g, Some (c\<lparr>cn_left := 32759,
        cn_version := 757, cn_handshake_wire := fr_wire demo_handshake, cn_phase := AwaitLogin, cn_ticket := Some t\<rparr>))"
      (is "_ = Some (g, Some ?c)") and g: "demo_calm g" by blast
  let ?s = "s\<lparr>gs_gate := g, gs_conns := add_opt (Some ?c) {#}\<rparr>"
  have "gate_step cidr_ops (\<lambda>_. None) (\<lambda>x. x) s ?s" by (rule gate_runs [OF _ r]) (simp add: s(2))
  with s(1) have "demo_reachable ?s" by (rule reach_step)
  then show ?thesis using g
    by - (rule exI [of _ ?s], rule exI [of _ ?c], simp add: c)
qed

lemma demo_dial_ready:
  assumes "demo_calm g"
  shows "bx_slots (gt_prot g) \<noteq> 0" "\<not> circuit_blocks (bx_state (gt_prot g)) now"
    "fst (dial_budget (bp_attempts (bx_cfg (gt_prot g))) now (bx_state (gt_prot g)))"
  using assms by (simp_all add: demo_calm_def protection_new_def circuit_blocks_def dial_slots_def dial_budget_def)
    (simp_all add: shipped_config_def no_rate_def f64_simps)

lemma demo_slots:
  assumes "demo_reachable s" "gs_conns s = {#c#}" "cn_phase c = AwaitLogin"
  shows "gt_admitted (gs_gate s) = 4096" "gt_backend (gs_gate s) = 4096" "gt_sockets (gs_gate s) \<noteq> 0"
proof -
  have ok: "gate_ok shipped_config (gs_refresh s = RefreshPolling) (gs_gate s) {#c#}"
    using demo_inv [OF assms(1)] assms(2) by (simp add: gate_inv_def)
  then show ad: "gt_admitted (gs_gate s) = 4096" "gt_backend (gs_gate s) = 4096"
    using gate_okD(2) assms(3) by (fastforce simp: permits_ok_def demo_limits)+
  show "gt_sockets (gs_gate s) \<noteq> 0"
    by (rule sockets_spare [OF ok]) (simp_all add: demo_limits ad)
qed

lemma demo_dialing:
  "\<exists>s c a. demo_reachable s \<and> gs_conns s = {#c#} \<and> cn_phase c = AwaitBackend a \<and>
     cn_handshake_wire c = fr_wire demo_handshake \<and> cn_login_wire c = fr_wire demo_login \<and> cn_version c = 757"
proof -
  obtain s c t where s: "demo_reachable s" "gs_conns s = {#c#}" "demo_calm (gs_gate s)"
    and c: "cn_phase c = AwaitLogin" "cn_ticket c = Some t" "cn_version c = 757" "cn_handshake_wire c = fr_wire demo_handshake"
    using demo_greeted by blast
  have ok: "gate_ok shipped_config (gs_refresh s = RefreshPolling) (gs_gate s) (add_mset c {#})"
    using demo_inv [OF s(1)] s(2) by (simp add: gate_inv_def)
  have pol: "runtime_policy cidr_ops (gt_rt (gs_gate s)) (sock_ip (cn_peer c)) 0 0 = (demo_policy, False)"
    using s(3) by (intro demo_policy_holds) (simp_all add: demo_calm_def)
  have f: "login (frame_body demo_login) (cn_version c) (cfg_protocol shipped_config) = Inr ()"
    using demo_login_parses c(3) by (simp add: demo_limits)
  have "\<exists>g' a. resume cidr_ops (\<lambda>x. x) (gs_gate s) c (FrameRead (Inr demo_login) 32755) 0 0 =
      Some (g', Some (c\<lparr>cn_left := 32755, cn_login_wire := fr_wire demo_login, cn_phase := AwaitBackend a, cn_ticket := Some t\<rparr>))"
    by (rule login_dials [OF ok c(1,2) f pol])
      (use demo_slots [OF s(1,2) c(1)] demo_dial_ready [OF s(3)] in \<open>simp_all add: demo_policy_def\<close>)
  then obtain g' a where r: "resume cidr_ops (\<lambda>x. x) (gs_gate s) c (FrameRead (Inr demo_login) 32755) 0 0 =
      Some (g', Some (c\<lparr>cn_left := 32755, cn_login_wire := fr_wire demo_login, cn_phase := AwaitBackend a, cn_ticket := Some t\<rparr>))"
    by blast
  let ?c = "c\<lparr>cn_left := 32755, cn_login_wire := fr_wire demo_login, cn_phase := AwaitBackend a, cn_ticket := Some t\<rparr>"
  let ?s = "s\<lparr>gs_gate := g', gs_conns := add_opt (Some ?c) {#}\<rparr>"
  have "gate_step cidr_ops (\<lambda>_. None) (\<lambda>x. x) s ?s" by (rule gate_runs [OF _ r]) (simp add: s(2))
  with s(1) have "demo_reachable ?s" by (rule reach_step)
  then show ?thesis using c
    by - (rule exI [of _ ?s], rule exI [of _ ?c], simp)
qed

text \<open>The same session with its two frames read from a stream that arrives in pieces.\<close>

lemma demo_frames:
  "length (frame_body demo_handshake) = 8" "length (frame_body demo_login) = 3"
  "length (frame (frame_body demo_handshake)) = 9" "length (frame (frame_body demo_login)) = 4"
  by (simp_all add: demo_handshake_def demo_login_def frame_body_def frame_def put_varint_def put_varint_loop_small)

lemma demo_read_handshake:
  assumes "fst w = frame (frame_body demo_handshake) @ rest"
  shows "\<exists>f w'. read_frame mem_ops 1046 32768 (from_millis 10000) p q w = (Inr f, 32759, w') \<and>
    frame_body f = frame_body demo_handshake \<and> fst w' = rest"
  using mem.read_frame_prompt [of "from_millis 10000" "frame_body demo_handshake" 1046 w rest 32768 p q] assms
  by (auto simp: demo_frames from_millis_def)

lemma demo_read_login:
  assumes "fst w = frame (frame_body demo_login) @ rest" "3 \<le> n"
  shows "\<exists>f w'. read_frame mem_ops n 32759 (from_millis 10000) p q w = (Inr f, 32755, w') \<and>
    frame_body f = frame_body demo_login \<and> fst w' = rest"
  using mem.read_frame_prompt [of "from_millis 10000" "frame_body demo_login" n w rest 32759 p q] assms
  by (auto simp: demo_frames from_millis_def)

lemma demo_timeouts:
  "to_handshake_ms (cfg_timeouts shipped_config) = 10000" "to_login_ms (cfg_timeouts shipped_config) = 10000"
  "handshake_max shipped_protocol = 1046" "\<exists>n. login_max 757 shipped_protocol = Inr n \<and> 3 \<le> min (pr_max_frame shipped_protocol) n"
  by (simp_all add: shipped_timeouts_def shipped_config_def handshake_max_def login_max_def demo_schema)
    (simp_all add: shipped_protocol_def)

lemma demo_serve_handshake:
  assumes "fst w = frame (frame_body demo_handshake) @ rest"
  shows "\<exists>s c g t c1 w1. serve mem_ops cidr_ops (\<lambda>x. x) (gs_gate s) c 0 0 0 w = Some (g, Some c1, w1) \<and> cn_phase c = AwaitHandshake \<and>
    demo_reachable (s\<lparr>gs_gate := g, gs_conns := {#c1#}\<rparr>) \<and> demo_calm g \<and> fst w1 = rest \<and>
    cn_phase c1 = AwaitLogin \<and> cn_ticket c1 = Some t \<and> cn_version c1 = 757 \<and> cn_left c1 = 32759"
proof -
  obtain s c where s: "demo_reachable s" "gs_conns s = {#c#}" "demo_calm (gs_gate s)"
    and c: "cn_phase c = AwaitHandshake" "cn_ticket c = Some (ticket_new (IpV4 263) (IpV4 256))" "cn_left c = 32768" "cn_start c = 0"
    using demo_identified by blast
  have cfg: "gt_cfg (gs_gate s) = shipped_config" using s(3) by (simp add: demo_calm_def)
  obtain f w1 where f: "handler_read mem_ops shipped_config c 0 w = Some (Inr f, 32759, w1)"
    "frame_body f = frame_body demo_handshake" "fst w1 = rest"
    using demo_read_handshake [OF assms, of "from_millis (to_progress_ms (cfg_timeouts shipped_config))"
        "from_millis (to_first_progress_ms (cfg_timeouts shipped_config))"] c
    by (auto simp: handler_read_def demo_timeouts demo_limits Let_def)
  obtain g t where r: "resume cidr_ops (\<lambda>x. x) (gs_gate s) c (FrameRead (Inr f) 32759) 0 0 =
      Some (g, Some (c\<lparr>cn_left := 32759, cn_version := 757, cn_handshake_wire := fr_wire f, cn_phase := AwaitLogin, cn_ticket := Some t\<rparr>))"
      (is "_ = Some (g, Some ?c)") and g: "demo_calm g"
    using demo_greeting [OF s c(1,2), of f 32759 0] f(2) demo_handshake_parses by auto
  have "gate_step cidr_ops (\<lambda>_. None) (\<lambda>x. x) s (s\<lparr>gs_gate := g, gs_conns := add_opt (Some ?c) {#}\<rparr>)"
    by (rule gate_runs [OF _ r]) (simp add: s(2))
  from reach_step [OF s(1) this] have "demo_reachable (s\<lparr>gs_gate := g, gs_conns := {#?c#}\<rparr>)" by simp
  moreover have "serve mem_ops cidr_ops (\<lambda>x. x) (gs_gate s) c 0 0 0 w = Some (g, Some ?c, w1)"
    using f(1) r by (simp add: serve_def cfg)
  ultimately show ?thesis using c(1) g f(3)
    by - (rule exI [of _ s], rule exI [of _ c], rule exI [of _ g], rule exI [of _ t], rule exI [of _ ?c], rule exI [of _ w1], simp)
qed

lemma demo_serve_login:
  assumes "demo_reachable s" "gs_conns s = {#c#}" "demo_calm (gs_gate s)" "fst w = frame (frame_body demo_login) @ rest"
    and c: "cn_phase c = AwaitLogin" "cn_ticket c = Some t" "cn_version c = 757" "cn_left c = 32759"
  shows "\<exists>g c' w'. serve mem_ops cidr_ops (\<lambda>x. x) (gs_gate s) c 0 0 0 w = Some (g, Some c', w') \<and> fst w' = rest"
proof -
  have ok: "gate_ok shipped_config (gs_refresh s = RefreshPolling) (gs_gate s) (add_mset c {#})"
    using demo_inv [OF assms(1)] assms(2) by (simp add: gate_inv_def)
  have cfg: "gt_cfg (gs_gate s) = shipped_config" using assms(3) by (simp add: demo_calm_def)
  obtain n where n: "login_max 757 shipped_protocol = Inr n" "3 \<le> min (pr_max_frame shipped_protocol) n" using demo_timeouts(4) by blast
  obtain f w' where f: "handler_read mem_ops shipped_config c 0 w = Some (Inr f, 32755, w')"
    "frame_body f = frame_body demo_login" "fst w' = rest"
    using demo_read_login [OF assms(4) n(2), of "from_millis (to_progress_ms (cfg_timeouts shipped_config))"
        "from_millis (to_progress_ms (cfg_timeouts shipped_config))"] c n(1)
    by (auto simp: handler_read_def phase_def phase_limits_def demo_timeouts demo_limits Let_def)
  have pol: "runtime_policy cidr_ops (gt_rt (gs_gate s)) (sock_ip (cn_peer c)) 0 0 = (demo_policy, False)"
    using assms(3) by (intro demo_policy_holds) (simp_all add: demo_calm_def)
  have login: "login (frame_body f) (cn_version c) (cfg_protocol shipped_config) = Inr ()"
    using demo_login_parses c(3) f(2) by (simp add: demo_limits)
  have "\<exists>g a. resume cidr_ops (\<lambda>x. x) (gs_gate s) c (FrameRead (Inr f) 32755) 0 0 =
      Some (g, Some (c\<lparr>cn_left := 32755, cn_login_wire := fr_wire f, cn_phase := AwaitBackend a, cn_ticket := Some t\<rparr>))"
    by (rule login_dials [OF ok c(1,2) login pol])
      (use demo_slots [OF assms(1,2) c(1)] demo_dial_ready [OF assms(3)] in \<open>simp_all add: demo_policy_def\<close>)
  then show ?thesis using f(1,3) by (auto simp: serve_def cfg)
qed

lemma demo_streamed:
  "\<exists>g c g1 c1 w1 g3 c2 w2. cn_phase c = AwaitHandshake \<and>
     serve mem_ops cidr_ops (\<lambda>x. x) (g :: (cidr4, cidr6, unit) gate) c 0 0 0
       (frame (frame_body demo_handshake) @ frame (frame_body demo_login) @ [42], [2, 1]) = Some (g1, Some c1, w1) \<and>
     cn_phase c1 = AwaitLogin \<and> serve mem_ops cidr_ops (\<lambda>x. x) g1 c1 0 0 0 w1 = Some (g3, Some c2, w2) \<and> fst w2 = [42]"
proof -
  obtain s c g t c1 w1 where 1: "serve mem_ops cidr_ops (\<lambda>x. x) (gs_gate s) c 0 0 0
       (frame (frame_body demo_handshake) @ frame (frame_body demo_login) @ [42], [2, 1]) = Some (g, Some c1, w1)"
      "cn_phase c = AwaitHandshake" "demo_reachable (s\<lparr>gs_gate := g, gs_conns := {#c1#}\<rparr>)" "demo_calm g"
      "fst w1 = frame (frame_body demo_login) @ [42]" "cn_phase c1 = AwaitLogin" "cn_ticket c1 = Some t" "cn_version c1 = 757"
      "cn_left c1 = 32759"
    using demo_serve_handshake [of "(frame (frame_body demo_handshake) @ frame (frame_body demo_login) @ [42], [2, 1])"
        "frame (frame_body demo_login) @ [42]"] by auto
  obtain g3 c2 w2 where 2: "serve mem_ops cidr_ops (\<lambda>x. x) g c1 0 0 0 w1 = Some (g3, Some c2, w2)" "fst w2 = [42]"
    using demo_serve_login [OF 1(3) _ _ 1(5-9)] 1(4) by auto
  show ?thesis
    by (rule exI [of _ "gs_gate s"], rule exI [of _ c], rule exI [of _ g], rule exI [of _ c1], rule exI [of _ w1],
        rule exI [of _ g3], rule exI [of _ c2], rule exI [of _ w2]) (use 1 2 in simp)
qed

end
