(* ===== verification/Xdp_Parse.thy ===== *)
theory Xdp_Parse
  imports Prelude "HOL-Library.Monad_Syntax"
begin

text \<open>
  The packet parsers of the XDP program (\<^verbatim>\<open>src/xdp/parse.h\<close>, \<^verbatim>\<open>src/xdp/shared.h\<close>). A packet
  is the list of the bytes between \<^verbatim>\<open>data\<close> and \<^verbatim>\<open>data_end\<close>; a pointer into it is an offset. Every
  load goes through \<open>rd_u8\<close>, which is \<open>None\<close> outside the packet, so that memory safety is the
  statement that a parser never returns \<open>None\<close>. The offsets are 32-bit in the source; they
  stay below \<open>2 ^ 17\<close> (\<open>parse_ip_fields\<close>), so natural numbers denote them exactly.
\<close>

section \<open>Loads\<close>

definition rd_u8 :: "bytes \<Rightarrow> nat \<Rightarrow> byte option" where
  "rd_u8 d i = (if i < length d then Some (d ! i) else None)"

definition rd_be16 :: "bytes \<Rightarrow> nat \<Rightarrow> u16 option" where
  "rd_be16 d i = do { hi \<leftarrow> rd_u8 d i; lo \<leftarrow> rd_u8 d (i + 1); Some (u16_from_be hi lo) }"

text \<open>The source of a \<^verbatim>\<open>memcpy\<close>.\<close>

definition rd_block :: "bytes \<Rightarrow> nat \<Rightarrow> nat \<Rightarrow> bytes option" where
  "rd_block d i n = (if i + n \<le> length d then Some (take n (drop i d)) else None)"

text \<open>\<^verbatim>\<open>memcpy\<close> of \<open>bs\<close> to the front of a field.\<close>

definition copy_front :: "bytes \<Rightarrow> bytes \<Rightarrow> bytes" where
  "copy_front field bs = bs @ drop (length bs) field"

section \<open>Data\<close>

text \<open>The drop reasons: the constants of \<^verbatim>\<open>enum reason\<close>.\<close>

abbreviation (input) R_MALFORMED_L2 :: int where "R_MALFORMED_L2 \<equiv> 1"
abbreviation (input) R_MALFORMED_IPV4 :: int where "R_MALFORMED_IPV4 \<equiv> 2"
abbreviation (input) R_INVALID_TCP :: int where "R_INVALID_TCP \<equiv> 3"
abbreviation (input) R_BLOCKED_PORT :: int where "R_BLOCKED_PORT \<equiv> 4"
abbreviation (input) R_BOGON :: int where "R_BOGON \<equiv> 5"
abbreviation (input) R_FRAGMENT :: int where "R_FRAGMENT \<equiv> 6"
abbreviation (input) R_SYN_RATE :: int where "R_SYN_RATE \<equiv> 7"
abbreviation (input) R_MANUAL_BLOCK :: int where "R_MANUAL_BLOCK \<equiv> 11"
abbreviation (input) R_OTHER :: int where "R_OTHER \<equiv> 12"
abbreviation (input) R_EMERGENCY_SYN :: int where "R_EMERGENCY_SYN \<equiv> 13"
abbreviation (input) R_COUNT :: int where "R_COUNT \<equiv> 14"

record prefix_key =
  pk_prefixlen :: u32
  pk_family :: u32
  pk_addr :: bytes

record packet =
  px_src :: prefix_key
  px_dst :: prefix_key
  px_l4 :: nat
  px_ip_end :: nat
  px_port :: u16
  px_proto :: byte
  px_flags :: byte
  px_fragment :: bool
  px_deferred :: bool

text \<open>\<^verbatim>\<open>struct packet p = {}\<close>.\<close>

definition key_zero :: prefix_key where
  "key_zero = \<lparr>pk_prefixlen = 0, pk_family = 0, pk_addr = replicate 16 0\<rparr>"

definition packet_zero :: packet where
  "packet_zero = \<lparr>px_src = key_zero, px_dst = key_zero, px_l4 = 0, px_ip_end = 0, px_port = 0, px_proto = 0,
     px_flags = 0, px_fragment = False, px_deferred = False\<rparr>"

text \<open>The assignments to \<^verbatim>\<open>family\<close>, \<^verbatim>\<open>prefixlen\<close> and the front of \<^verbatim>\<open>addr\<close> of a key.\<close>

definition set_key :: "prefix_key \<Rightarrow> u32 \<Rightarrow> u32 \<Rightarrow> bytes \<Rightarrow> prefix_key" where
  "set_key k family prefixlen bs =
     k\<lparr>pk_family := family, pk_prefixlen := prefixlen, pk_addr := copy_front (pk_addr k) bs\<rparr>"

section \<open>The network layer\<close>

text \<open>
  The loop over at most \<open>n\<close> VLAN tags: an early return is \<open>Inl\<close>, the ether type and the
  offset behind it are \<open>Inr\<close>.
\<close>

fun vlan_loop :: "nat \<Rightarrow> bytes \<Rightarrow> u16 \<Rightarrow> nat \<Rightarrow> (int + u16 \<times> nat) option" where
  "vlan_loop 0 d type off = Some (Inr (type, off))"
| "vlan_loop (Suc n) d type off =
     (if type \<noteq> 0x8100 \<and> type \<noteq> 0x88a8 then Some (Inr (type, off))
      else if off + 4 > length d then Some (Inl (- R_MALFORMED_L2))
      else do { type \<leftarrow> rd_be16 d (off + 2); vlan_loop n d type (off + 4) })"

definition parse_ipv4 :: "bytes \<Rightarrow> nat \<Rightarrow> packet \<Rightarrow> (int \<times> packet) option" where
  "parse_ipv4 d off p =
     (if off + 20 > length d then Some (- R_MALFORMED_IPV4, p)
      else do {
        version \<leftarrow> rd_u8 d off;
        if drop_bit 4 version \<noteq> 4 then Some (- R_MALFORMED_IPV4, p)
        else do {
          dst \<leftarrow> rd_block d (off + 16) 4;
          let p = p\<lparr>px_dst := set_key (px_dst p) 4 64 dst\<rparr>;
          let ihl = unat (version AND 15) * 4;
          total \<leftarrow> rd_be16 d (off + 2);
          let len = unat total;
          if ihl < 20 \<or> len < ihl \<or> off + ihl > length d \<or> off + len > length d
          then Some (- R_MALFORMED_IPV4, p)
          else do {
            src \<leftarrow> rd_block d (off + 12) 4;
            proto \<leftarrow> rd_u8 d (off + 9);
            frag \<leftarrow> rd_be16 d (off + 6);
            Some (0, p\<lparr>px_src := set_key (px_src p) 4 64 src, px_proto := proto,
              px_fragment := (frag AND 0x3fff \<noteq> 0), px_l4 := off + ihl, px_ip_end := off + len\<rparr>)
          }
        }
      })"

definition parse_ipv6 :: "bytes \<Rightarrow> nat \<Rightarrow> packet \<Rightarrow> (int \<times> packet) option" where
  "parse_ipv6 d off p =
     (if off + 40 > length d then Some (- R_OTHER, p)
      else do {
        version \<leftarrow> rd_u8 d off;
        if drop_bit 4 version \<noteq> 6 then Some (- R_OTHER, p)
        else do {
          dst \<leftarrow> rd_block d (off + 24) 16;
          let p = p\<lparr>px_dst := set_key (px_dst p) 6 160 dst\<rparr>;
          total \<leftarrow> rd_be16 d (off + 4);
          let len = unat total;
          if off + 40 + len > length d then Some (- R_OTHER, p)
          else do {
            src \<leftarrow> rd_block d (off + 8) 16;
            proto \<leftarrow> rd_u8 d (off + 6);
            let p = p\<lparr>px_src := set_key (px_src p) 6 160 src, px_proto := proto, px_l4 := off + 40, px_ip_end := off + 40 + len\<rparr>;
            Some (0, if len = 0 \<or> (proto \<noteq> 6 \<and> proto \<noteq> 17 \<and> proto \<noteq> 58) then p\<lparr>px_deferred := True\<rparr> else p)
          }
        }
      })"

definition parse_ip :: "bytes \<Rightarrow> packet \<Rightarrow> (int \<times> packet) option" where
  "parse_ip d p =
     (if 14 > length d then Some (- R_MALFORMED_L2, p)
      else do {
        type \<leftarrow> rd_be16 d 12;
        tags \<leftarrow> vlan_loop 2 d type 14;
        case tags of
          Inl r \<Rightarrow> Some (r, p)
        | Inr (type, off) \<Rightarrow>
            if type = 0x0800 then parse_ipv4 d off p
            else if type = 0x86dd then parse_ipv6 d off p
            else Some (1, p)
      })"

section \<open>The transport layer\<close>

definition parse_transport :: "bytes \<Rightarrow> packet \<Rightarrow> (int \<times> packet) option" where
  "parse_transport d p =
     (if px_fragment p \<or> px_deferred p then Some (1, p)
      else let off = px_l4 p in
      if off > 128 \<or> off > px_ip_end p then Some (- R_OTHER, p)
      else if px_proto p = 6 then
        if off + 20 > length d \<or> off + 20 > px_ip_end p then Some (- R_INVALID_TCP, p)
        else do {
          port \<leftarrow> rd_be16 d (off + 2);
          flags \<leftarrow> rd_u8 d (off + 13);
          let p = p\<lparr>px_port := port, px_flags := flags\<rparr>;
          offset \<leftarrow> rd_u8 d (off + 12);
          let len = unat (drop_bit 4 offset) * 4;
          if len < 20 \<or> off + len > px_ip_end p \<or> off + len > length d then Some (- R_INVALID_TCP, p)
          else if (flags AND 2 \<noteq> 0 \<and> flags AND 5 \<noteq> 0) \<or> flags AND 5 = 5 then Some (- R_INVALID_TCP, p)
          else Some (0, p)
        }
      else if px_proto p = 17 then
        if off + 8 > length d \<or> off + 8 > px_ip_end p then Some (- R_OTHER, p)
        else do {
          port \<leftarrow> rd_be16 d (off + 2);
          let p = p\<lparr>px_port := port\<rparr>;
          total \<leftarrow> rd_be16 d (off + 4);
          let len = unat total;
          if len < 8 \<or> off + len > px_ip_end p \<or> off + len > length d then Some (- R_OTHER, p)
          else Some (0, p)
        }
      else Some (0, p))"

end
