(* ===== verification/Xdp_Lpm.thy ===== *)
theory Xdp_Lpm
  imports Xdp_Parse
begin

text \<open>
  The interface of the kernel's \<^verbatim>\<open>BPF_MAP_TYPE_LPM_TRIE\<close>, on which the filter and the loader rely:
  the operations as a record, their documented laws as the locale \<open>lpm_trie\<close>, and an
  instance. A key is compared by its first \<^verbatim>\<open>prefixlen\<close> bits of data, the four bytes of
  \<^verbatim>\<open>family\<close> (little endian) followed by \<^verbatim>\<open>addr\<close>.
\<close>

section \<open>Keys\<close>

abbreviation (input) PREFIX_CAP :: nat where "PREFIX_CAP \<equiv> 4096"

definition byte_bits :: "byte \<Rightarrow> bool list" where
  "byte_bits b = map (bit b) [7, 6, 5, 4, 3, 2, 1, 0]"

definition key_bits :: "prefix_key \<Rightarrow> bool list" where
  "key_bits k = concat (map byte_bits (rev (be_bytes 4 (pk_family k)) @ pk_addr k))"

definition key_prefix :: "prefix_key \<Rightarrow> bool list" where
  "key_prefix k = take (unat (pk_prefixlen k)) (key_bits k)"

text \<open>The key of an entry covers a key that is looked up; two keys denote the same entry.\<close>

definition covers :: "prefix_key \<Rightarrow> prefix_key \<Rightarrow> bool" where
  "covers e k \<longleftrightarrow> pk_prefixlen e \<le> pk_prefixlen k \<and> key_prefix e = take (unat (pk_prefixlen e)) (key_bits k)"

definition same_entry :: "prefix_key \<Rightarrow> prefix_key \<Rightarrow> bool" where
  "same_entry k e \<longleftrightarrow> pk_prefixlen k = pk_prefixlen e \<and> key_prefix k = key_prefix e"

lemma same_entry_refl [simp]: "same_entry k k"
  by (simp add: same_entry_def)

lemma same_entry_sym: "same_entry k e \<longleftrightarrow> same_entry e k"
  by (auto simp: same_entry_def)

lemma same_entry_trans: "same_entry a b \<Longrightarrow> same_entry b c \<Longrightarrow> same_entry a c"
  by (auto simp: same_entry_def)

lemma covers_same: "same_entry e e' \<Longrightarrow> covers e k \<longleftrightarrow> covers e' k"
  by (auto simp: same_entry_def covers_def)

section \<open>The operations and their laws\<close>

text \<open>A failing system call returns its error number.\<close>

datatype errno = ENOENT | ENOSPC | EOther

record 'm lpm_ops =
  lpm_lookup :: "'m \<Rightarrow> prefix_key \<Rightarrow> u32 option"
  lpm_update :: "'m \<Rightarrow> prefix_key \<Rightarrow> u32 \<Rightarrow> errno + 'm"
  lpm_delete :: "'m \<Rightarrow> prefix_key \<Rightarrow> errno + 'm"
  lpm_first :: "'m \<Rightarrow> errno + prefix_key"

text \<open>
  \<open>entries m\<close> are the keys a map holds, with their values. A lookup finds the longest entry that covers
  the key. An update replaces the entry of its key, and succeeds as long as the map has room;
  a deletion fails with \<^verbatim>\<open>ENOENT\<close> exactly when there is no such entry.
\<close>

locale lpm_trie =
  fixes ops :: "'m lpm_ops" and entries :: "'m \<Rightarrow> (prefix_key \<times> u32) set" and sound :: "'m \<Rightarrow> bool"
  assumes finite_entries: "sound m \<Longrightarrow> finite (entries m)"
    and card_entries: "sound m \<Longrightarrow> card (entries m) \<le> PREFIX_CAP"
    and distinct_entries: "sound m \<Longrightarrow> e \<in> entries m \<Longrightarrow> f \<in> entries m \<Longrightarrow> same_entry (fst e) (fst f) \<Longrightarrow> e = f"
    and lookup_None: "sound m \<Longrightarrow> lpm_lookup ops m k = None \<longleftrightarrow> (\<forall>(e, v) \<in> entries m. \<not> covers e k)"
    and lookup_Some: "sound m \<Longrightarrow> lpm_lookup ops m k = Some v \<Longrightarrow>
      \<exists>e. (e, v) \<in> entries m \<and> covers e k \<and> (\<forall>(f, w) \<in> entries m. covers f k \<longrightarrow> pk_prefixlen f \<le> pk_prefixlen e)"
    and update_ok: "sound m \<Longrightarrow> lpm_update ops m k v = Inr m' \<Longrightarrow>
      sound m' \<and> entries m' = insert (k, v) {e \<in> entries m. \<not> same_entry (fst e) k}"
    and update_room: "sound m \<Longrightarrow> card (entries m) < PREFIX_CAP \<Longrightarrow> \<exists>m'. lpm_update ops m k v = Inr m'"
    and delete_hit: "sound m \<Longrightarrow> e \<in> entries m \<Longrightarrow> same_entry (fst e) k \<Longrightarrow>
      \<exists>m'. lpm_delete ops m k = Inr m' \<and> sound m' \<and> entries m' = entries m - {e}"
    and delete_miss: "sound m \<Longrightarrow> \<forall>e \<in> entries m. \<not> same_entry (fst e) k \<Longrightarrow> lpm_delete ops m k = Inl ENOENT"
    and first_empty: "sound m \<Longrightarrow> entries m = {} \<Longrightarrow> lpm_first ops m = Inl ENOENT"
    and first_key: "sound m \<Longrightarrow> entries m \<noteq> {} \<Longrightarrow> \<exists>k \<in> fst ` entries m. lpm_first ops m = Inr k"
begin

text \<open>When the covering entries of one length are one entry, the lookup returns the longest.\<close>

lemma lookup_longest:
  assumes "sound m" "(e, v) \<in> entries m" "covers e k"
    and "\<And>f w. (f, w) \<in> entries m \<Longrightarrow> covers f k \<Longrightarrow> pk_prefixlen f \<le> pk_prefixlen e"
  shows "lpm_lookup ops m k = Some v"
proof -
  from assms(1-3) have "lpm_lookup ops m k \<noteq> None" using lookup_None by fastforce
  then obtain w where w: "lpm_lookup ops m k = Some w" by blast
  from lookup_Some [OF assms(1) w] obtain f where f: "(f, w) \<in> entries m" "covers f k"
    "pk_prefixlen e \<le> pk_prefixlen f" using assms(2,3) by fastforce
  from assms(4) [OF f(1,2)] f(3) have "pk_prefixlen e = pk_prefixlen f" by simp
  with f(2) assms(3) have "same_entry e f" by (simp add: same_entry_def covers_def)
  with distinct_entries [OF assms(1,2) f(1)] w show ?thesis by simp
qed

end

section \<open>An instance\<close>

text \<open>The entries in a list, scanned for the longest match.\<close>

type_synonym lpm_list = "(prefix_key \<times> u32) list"

fun list_longest :: "lpm_list \<Rightarrow> prefix_key \<Rightarrow> (prefix_key \<times> u32) option" where
  "list_longest [] k = None"
| "list_longest ((e, v) # m) k =
     (if covers e k then
        case list_longest m k of
          None \<Rightarrow> Some (e, v)
        | Some (f, w) \<Rightarrow> if pk_prefixlen f \<le> pk_prefixlen e then Some (e, v) else Some (f, w)
      else list_longest m k)"

definition list_without :: "lpm_list \<Rightarrow> prefix_key \<Rightarrow> lpm_list" where
  "list_without m k = filter (\<lambda>(e, v). \<not> same_entry e k) m"

definition lpm_list_ops :: "lpm_list lpm_ops" where
  "lpm_list_ops = \<lparr>
     lpm_lookup = \<lambda>m k. map_option snd (list_longest m k),
     lpm_update = \<lambda>m k v. if length (list_without m k) < PREFIX_CAP then Inr ((k, v) # list_without m k) else Inl ENOSPC,
     lpm_delete = \<lambda>m k. if length (list_without m k) = length m then Inl ENOENT else Inr (list_without m k),
     lpm_first = \<lambda>m. case m of [] \<Rightarrow> Inl ENOENT | (k, v) # _ \<Rightarrow> Inr k\<rparr>"

fun lpm_list_wf :: "lpm_list \<Rightarrow> bool" where
  "lpm_list_wf [] \<longleftrightarrow> True"
| "lpm_list_wf ((k, v) # m) \<longleftrightarrow> list_all (\<lambda>(e, w). \<not> same_entry k e) m \<and> lpm_list_wf m"

lemma lpm_list_wf_filter: "lpm_list_wf m \<Longrightarrow> lpm_list_wf (filter P m)"
  by (induction m rule: lpm_list_wf.induct) (auto simp: list_all_iff)

lemma lpm_list_wf_unique:
  assumes "lpm_list_wf m" "e \<in> set m" "f \<in> set m" "same_entry (fst e) (fst f)"
  shows "e = f"
  using assms
proof (induction m rule: lpm_list_wf.induct)
  case (2 k v m)
  then show ?case using same_entry_sym [of "fst e" "fst f"] by (auto simp: list_all_iff)
qed simp

lemma list_longest_None: "list_longest m k = None \<longleftrightarrow> (\<forall>(e, v) \<in> set m. \<not> covers e k)"
  by (induction m k rule: list_longest.induct) (auto split: option.splits if_splits)

lemma list_longest_Some:
  assumes "list_longest m k = Some (e, v)"
  shows "(e, v) \<in> set m \<and> covers e k \<and> (\<forall>(f, w) \<in> set m. covers f k \<longrightarrow> pk_prefixlen f \<le> pk_prefixlen e)"
  using assms
proof (induction m k arbitrary: e v rule: list_longest.induct)
  case (2 f w m k)
  show ?case
  proof (cases "list_longest m k")
    case None
    with 2 list_longest_None [of m k] show ?thesis by (auto split: if_splits)
  next
    case (Some g)
    with 2 show ?thesis by (cases g) (fastforce split: if_splits)
  qed
qed simp

lemma list_without_remove:
  assumes "lpm_list_wf m" "e \<in> set m" "same_entry (fst e) k"
  shows "set (list_without m k) = set m - {e}"
proof -
  have "same_entry (fst x) k \<longleftrightarrow> x = e" if "x \<in> set m" for x
    using lpm_list_wf_unique [OF assms(1,2) that] assms(3) same_entry_sym same_entry_trans by blast
  then show ?thesis unfolding list_without_def by (auto simp: split_beta)
qed

lemma list_without_shorter: "e \<in> set m \<Longrightarrow> same_entry (fst e) k \<Longrightarrow> length (list_without m k) \<noteq> length m"
  unfolding list_without_def using length_filter_less [of e m "\<lambda>(e, v). \<not> same_entry e k"] by (simp add: split_beta)

definition lpm_list_ok :: "lpm_list \<Rightarrow> bool" where
  "lpm_list_ok m \<longleftrightarrow> lpm_list_wf m \<and> length m \<le> PREFIX_CAP"

interpretation lpml: lpm_trie lpm_list_ops set lpm_list_ok
proof
  fix m :: lpm_list and k v m'
  assume ok: "lpm_list_ok m" and u: "lpm_update lpm_list_ops m k v = Inr m'"
  then show "lpm_list_ok m' \<and> set m' = insert (k, v) {e \<in> set m. \<not> same_entry (fst e) k}"
    using lpm_list_wf_filter [of m]
    by (auto simp: lpm_list_ok_def lpm_list_ops_def list_without_def list_all_iff same_entry_sym [of k] split: if_splits)
next
  fix m :: lpm_list and k v
  assume ok: "lpm_list_ok m" and room: "card (set m) < PREFIX_CAP"
  from ok have "lpm_list_wf m" by (simp add: lpm_list_ok_def)
  then have "distinct m"
    by (induction m rule: lpm_list_wf.induct) (auto simp: list_all_iff)
  with room have "length m < PREFIX_CAP" by (simp add: distinct_card)
  then have "length (list_without m k) < PREFIX_CAP"
    unfolding list_without_def by (meson le_less_trans length_filter_le)
  then show "\<exists>m'. lpm_update lpm_list_ops m k v = Inr m'"
    by (simp add: lpm_list_ops_def)
next
  fix m :: lpm_list and e k
  assume "lpm_list_ok m" "e \<in> set m" "same_entry (fst e) k"
  then show "\<exists>m'. lpm_delete lpm_list_ops m k = Inr m' \<and> lpm_list_ok m' \<and> set m' = set m - {e}"
    using list_without_remove [of m e k] list_without_shorter [of e m k] lpm_list_wf_filter [of m] length_filter_le [of _ m]
    by (simp add: lpm_list_ops_def lpm_list_ok_def) (simp add: list_without_def order.trans [of _ "length m"])
next
  fix m :: lpm_list and k
  assume "\<forall>e \<in> set m. \<not> same_entry (fst e) k"
  then have "list_without m k = m"
    by (auto simp: list_without_def split_beta filter_id_conv)
  then show "lpm_delete lpm_list_ops m k = Inl ENOENT"
    by (simp add: lpm_list_ops_def)
next
  fix m :: lpm_list
  assume "lpm_list_ok m"
  then show "card (set m) \<le> PREFIX_CAP" using card_length [of m] by (simp add: lpm_list_ok_def)
next
  fix m :: lpm_list
  assume "set m \<noteq> {}"
  then show "\<exists>k \<in> fst ` set m. lpm_first lpm_list_ops m = Inr k"
    by (cases m) (auto simp: lpm_list_ops_def)
next
  fix m :: lpm_list and k
  show "lpm_lookup lpm_list_ops m k = None \<longleftrightarrow> (\<forall>(e, v) \<in> set m. \<not> covers e k)"
    by (simp add: lpm_list_ops_def list_longest_None)
next
  fix m :: lpm_list and k v
  assume "lpm_lookup lpm_list_ops m k = Some v"
  then obtain e where "list_longest m k = Some (e, v)" by (auto simp: lpm_list_ops_def)
  from list_longest_Some [OF this] show "\<exists>e. (e, v) \<in> set m \<and> covers e k \<and>
      (\<forall>(f, w) \<in> set m. covers f k \<longrightarrow> pk_prefixlen f \<le> pk_prefixlen e)" by blast
qed (auto simp: lpm_list_ops_def lpm_list_ok_def dest: lpm_list_wf_unique)

end
