(* ===== verification/Xdp_Filter.thy ===== *)
theory Xdp_Filter
  imports Xdp_Lpm
begin

text \<open>
  The XDP program itself (\<^verbatim>\<open>src/xdp/xdp_ddos.bpf.c\<close>): its maps, the per-CPU SYN budget and the
  verdict on a packet. The state is what one CPU sees: the per-CPU counters and SYN budget,
  the shared configuration, port and prefix maps. The prefix maps are the kernel's
  \<^verbatim>\<open>BPF_MAP_TYPE_LPM_TRIE\<close>; the operations on them are the parameter \<open>ops\<close>.
\<close>

section \<open>Maps\<close>

record xdp_config =
  xc_lease_ns :: u64
  xc_abi :: u32
  xc_observe :: u32
  xc_mode :: u32
  xc_ipv6 :: u32
  xc_drop_tcp_fragments :: u32
  xc_syn_rate :: u32
  xc_syn_burst :: u32

abbreviation (input) XDDP_ABI :: u32 where "XDDP_ABI \<equiv> 2"
abbreviation (input) PORT_PROTECT_TCP :: u32 where "PORT_PROTECT_TCP \<equiv> 1"
abbreviation (input) PORT_DROP_TCP :: u32 where "PORT_DROP_TCP \<equiv> 2"
abbreviation (input) PORT_DROP_UDP :: u32 where "PORT_DROP_UDP \<equiv> 4"

record xdp_stats =
  st_rx_packets :: u64
  st_rx_bytes :: u64
  st_pass_packets :: u64
  st_drop_packets :: u64
  st_syn_packets :: u64
  st_udp_packets :: u64
  st_icmp_packets :: u64
  st_ipv6_deferred :: u64
  st_reasons :: "u64 list"

record syn_bucket =
  sb_last_ns :: u64
  sb_credit_ns :: u64
  sb_rate :: u32
  sb_burst :: u32

record 'm xdp_maps =
  xm_configuration :: "xdp_config option"
  xm_counters :: "xdp_stats option"
  xm_syn_budget :: "syn_bucket option"
  xm_ports :: "u32 \<rightharpoonup> u32"
  xm_owned :: 'm
  xm_allow :: 'm
  xm_block :: 'm

datatype xdp_action = XDP_DROP | XDP_PASS

section \<open>The SYN budget\<close>

definition syn_cost :: "u32 \<Rightarrow> u64" where
  "syn_cost rate = (1000000000 + ucast rate - 1) div ucast rate"

definition syn_allowed :: "xdp_config \<Rightarrow> syn_bucket option \<Rightarrow> u64 \<Rightarrow> bool \<times> syn_bucket option" where
  "syn_allowed c bucket now =
     (if xc_syn_rate c = 0 \<or> xc_syn_burst c = 0 then (True, bucket)
      else case bucket of
        None \<Rightarrow> (True, None)
      | Some b \<Rightarrow>
          let rate = (if xc_syn_rate c > 1000000000 then 1000000000 else xc_syn_rate c);
              burst = (if xc_syn_burst c > 1000000 then 1000000 else xc_syn_burst c);
              cost = syn_cost rate;
              cap = cost * ucast burst;
              b = (if sb_last_ns b = 0 \<or> sb_rate b \<noteq> rate \<or> sb_burst b \<noteq> burst
                   then b\<lparr>sb_credit_ns := cap, sb_rate := rate, sb_burst := burst\<rparr>
                   else let dt = now - sb_last_ns b;
                            dt = (if dt > cap then cap else dt)
                        in b\<lparr>sb_credit_ns := (if sb_credit_ns b > cap - dt then cap else sb_credit_ns b + dt)\<rparr>);
              b = b\<lparr>sb_last_ns := now\<rparr>
          in if sb_credit_ns b < cost then (False, Some b)
             else (True, Some (b\<lparr>sb_credit_ns := sb_credit_ns b - cost\<rparr>)))"

section \<open>The verdict\<close>

definition xdp_result :: "xdp_stats \<Rightarrow> xdp_config option \<Rightarrow> int \<Rightarrow> u64 \<Rightarrow> xdp_action \<times> xdp_stats" where
  "xdp_result s c why now =
     (let pass = (\<lambda>s. (XDP_PASS, s\<lparr>st_pass_packets := st_pass_packets s + 1\<rparr>)) in
      if 0 < why \<and> why < R_COUNT then
        let s = s\<lparr>st_reasons := (st_reasons s)[nat why := st_reasons s ! nat why + 1]\<rparr> in
        case c of
          None \<Rightarrow> pass s
        | Some c \<Rightarrow>
            if xc_abi c = XDDP_ABI \<and> xc_observe c = 0 \<and> now < xc_lease_ns c
            then (XDP_DROP, s\<lparr>st_drop_packets := st_drop_packets s + 1\<rparr>)
            else pass s
      else pass s)"

text \<open>
  The body of \<^verbatim>\<open>xddp\<close> returns \<^verbatim>\<open>result(s, c, why, now)\<close> on every path behind the null check of
  the counters. The definitions below compute \<open>why\<close>, with the counters and the SYN budget as
  they stand at that return. Rules of a protected TCP port:
\<close>

definition is_syn :: "byte \<Rightarrow> bool" where
  "is_syn flags \<longleftrightarrow> flags AND 0x12 = 0x02"

definition xddp_tcp :: "'m lpm_ops \<Rightarrow> 'm xdp_maps \<Rightarrow> xdp_config \<Rightarrow> packet \<Rightarrow> xdp_stats \<Rightarrow> u64
    \<Rightarrow> int \<times> xdp_stats \<times> syn_bucket option" where
  "xddp_tcp ops x c p s now =
     (let syn = is_syn (px_flags p);
          s = (if syn then s\<lparr>st_syn_packets := st_syn_packets s + 1\<rparr> else s);
          b = xm_syn_budget x
      in if syn \<and> xc_abi c = XDDP_ABI \<and> xc_mode c = 3 \<and> now < xc_lease_ns c then (R_EMERGENCY_SYN, s, b)
         else if lpm_lookup ops (xm_allow x) (px_src p) \<noteq> None then (0, s, b)
         else case lpm_lookup ops (xm_block x) (px_src p) of
           Some deny \<Rightarrow> (if deny = of_int R_BOGON then R_BOGON else R_MANUAL_BLOCK, s, b)
         | None \<Rightarrow>
             if syn then case syn_allowed c b now of (ok, b) \<Rightarrow> (if ok then 0 else R_SYN_RATE, s, b)
             else (0, s, b))"

text \<open>A whole IP packet for an owned destination that is not a fragment.\<close>

definition xddp_transport :: "'m lpm_ops \<Rightarrow> 'm xdp_maps \<Rightarrow> xdp_config \<Rightarrow> bytes \<Rightarrow> packet \<Rightarrow> xdp_stats \<Rightarrow> u64
    \<Rightarrow> (int \<times> xdp_stats \<times> syn_bucket option) option" where
  "xddp_transport ops x c d p s now = do {
     (r, p) \<leftarrow> parse_transport d p;
     let b = xm_syn_budget x;
     if r \<noteq> 0 then Some (if r < 0 then - r else 0, s, b)
     else case xm_ports x (ucast (px_port p)) of
       None \<Rightarrow> Some (0, s, b)
     | Some policy \<Rightarrow>
         if (px_proto p = 6 \<and> policy AND PORT_DROP_TCP \<noteq> 0) \<or> (px_proto p = 17 \<and> policy AND PORT_DROP_UDP \<noteq> 0)
         then Some (R_BLOCKED_PORT, s, b)
         else if px_proto p \<noteq> 6 \<or> policy AND PORT_PROTECT_TCP = 0 then Some (0, s, b)
         else Some (xddp_tcp ops x c p s now)
   }"

definition xdp_owned :: "'m lpm_ops \<Rightarrow> 'm xdp_maps \<Rightarrow> packet \<Rightarrow> bool" where
  "xdp_owned ops x p \<longleftrightarrow> lpm_lookup ops (xm_owned x) (px_dst p) \<noteq> None"

text \<open>A packet that \<^verbatim>\<open>parse_ip\<close> refuses or delegates.\<close>

definition xddp_refused :: "'m lpm_ops \<Rightarrow> 'm xdp_maps \<Rightarrow> int \<Rightarrow> packet \<Rightarrow> int" where
  "xddp_refused ops x r p =
     (case xm_configuration x of
        None \<Rightarrow> 0
      | Some c \<Rightarrow>
          if r < 0 \<and> xc_abi c = XDDP_ABI \<and> pk_family (px_dst p) \<noteq> 0 \<and>
             (pk_family (px_dst p) \<noteq> 6 \<or> xc_ipv6 c \<noteq> 0) \<and> xdp_owned ops x p
          then - r else 0)"

definition xddp_count :: "packet \<Rightarrow> xdp_stats \<Rightarrow> xdp_stats" where
  "xddp_count p s =
     (let s = (if px_proto p = 17 then s\<lparr>st_udp_packets := st_udp_packets s + 1\<rparr> else s)
      in if px_deferred p then s\<lparr>st_ipv6_deferred := st_ipv6_deferred s + 1\<rparr> else s)"

definition xddp_ip :: "'m lpm_ops \<Rightarrow> 'm xdp_maps \<Rightarrow> bytes \<Rightarrow> packet \<Rightarrow> xdp_stats \<Rightarrow> u64
    \<Rightarrow> (int \<times> xdp_stats \<times> syn_bucket option) option" where
  "xddp_ip ops x d p s now =
     (case xm_configuration x of
        None \<Rightarrow> Some (0, s, xm_syn_budget x)
      | Some c \<Rightarrow>
          if (pk_family (px_dst p) = 6 \<and> xc_ipv6 c = 0) \<or> \<not> xdp_owned ops x p then Some (0, s, xm_syn_budget x)
          else if px_fragment p
          then Some (if px_proto p = 6 \<and> xc_drop_tcp_fragments c \<noteq> 0 then R_FRAGMENT else 0, s, xm_syn_budget x)
          else xddp_transport ops x c d p s now)"

definition xddp_why :: "'m lpm_ops \<Rightarrow> 'm xdp_maps \<Rightarrow> bytes \<Rightarrow> xdp_stats \<Rightarrow> u64
    \<Rightarrow> (int \<times> xdp_stats \<times> syn_bucket option) option" where
  "xddp_why ops x d s now = do {
     (r, p) \<leftarrow> parse_ip d packet_zero;
     if r \<noteq> 0 then Some (xddp_refused ops x r p, s, xm_syn_budget x)
     else if px_proto p = 1 \<or> px_proto p = 58
     then Some (0, s\<lparr>st_icmp_packets := st_icmp_packets s + 1\<rparr>, xm_syn_budget x)
     else xddp_ip ops x d p (xddp_count p s) now
   }"

definition xddp :: "'m lpm_ops \<Rightarrow> 'm xdp_maps \<Rightarrow> bytes \<Rightarrow> u64 \<Rightarrow> (xdp_action \<times> 'm xdp_maps) option" where
  "xddp ops x d now =
     (case xm_counters x of
        None \<Rightarrow> Some (XDP_PASS, x)
      | Some s \<Rightarrow> do {
          let s = s\<lparr>st_rx_packets := st_rx_packets s + 1, st_rx_bytes := st_rx_bytes s + of_nat (length d)\<rparr>;
          (why, s, b) \<leftarrow> xddp_why ops x d s now;
          case xdp_result s (xm_configuration x) why now of
            (action, s) \<Rightarrow> Some (action, x\<lparr>xm_counters := Some s, xm_syn_budget := b\<rparr>)
        })"

end
