(* ===== verification/Xdp_Safety.thy ===== *)
theory Xdp_Safety
  imports Xdp_Filter
begin

text \<open>
  Safety of the XDP program: it never loads outside the packet, every packet is counted, and a
  packet is dropped only with a live lease, in enforcement, for an owned destination.
\<close>

section \<open>Loads\<close>

lemma rd_in [simp]: "i < length d \<Longrightarrow> rd_u8 d i = Some (d ! i)"
  by (simp add: rd_u8_def)

definition word_at :: "bytes \<Rightarrow> nat \<Rightarrow> u16" where
  "word_at d i = u16_from_be (d ! i) (d ! (i + 1))"

lemma rd_be16_in [simp]: "i + 1 < length d \<Longrightarrow> rd_be16 d i = Some (word_at d i)"
  by (simp add: rd_be16_def word_at_def)

lemma rd_block_in [simp]: "i + n \<le> length d \<Longrightarrow> rd_block d i n = Some (take n (drop i d))"
  by (simp add: rd_block_def)

lemma bind_total: "\<exists>x. m = Some x \<Longrightarrow> (\<And>x. m = Some x \<Longrightarrow> \<exists>y. f x = Some y) \<Longrightarrow> \<exists>y. m \<bind> f = Some y"
  by auto

section \<open>The parsers\<close>

text \<open>
  The network header starts at \<open>off\<close> behind zero, one or two VLAN tags, and the ether type before
  it is \<open>type\<close>.
\<close>

definition is_vlan :: "u16 \<Rightarrow> bool" where
  "is_vlan type \<longleftrightarrow> type = 0x8100 \<or> type = 0x88a8"

definition ip_at :: "bytes \<Rightarrow> nat \<Rightarrow> bool" where
  "ip_at d off \<longleftrightarrow> off \<le> length d \<and> (off = 14 \<or> off = 18 \<and> is_vlan (word_at d 12) \<or>
     off = 22 \<and> is_vlan (word_at d 12) \<and> is_vlan (word_at d 16))"

lemma ip_at_le: "ip_at d off \<Longrightarrow> 14 \<le> off \<and> off \<le> 22 \<and> off \<le> length d"
  by (auto simp: ip_at_def)

text \<open>The destination of the packet, as far as its fixed header is there.\<close>

definition dest_key :: "bytes \<Rightarrow> nat \<Rightarrow> prefix_key option" where
  "dest_key d off =
     (if word_at d (off - 2) = 0x0800 \<and> off + 20 \<le> length d \<and> drop_bit 4 (d ! off) = 4
      then Some \<lparr>pk_prefixlen = 64, pk_family = 4, pk_addr = take 4 (drop (off + 16) d) @ replicate 12 0\<rparr>
      else if word_at d (off - 2) = 0x86dd \<and> off + 40 \<le> length d \<and> drop_bit 4 (d ! off) = 6
      then Some \<lparr>pk_prefixlen = 160, pk_family = 6, pk_addr = take 16 (drop (off + 24) d)\<rparr>
      else None)"

definition has_dest :: "bytes \<Rightarrow> prefix_key \<Rightarrow> bool" where
  "has_dest d k \<longleftrightarrow> (\<exists>off. ip_at d off \<and> dest_key d off = Some k)"

lemma has_dest4:
  assumes "ip_at d off" "word_at d (off - 2) = 0x0800" "off + 20 \<le> length d" "drop_bit 4 (d ! off) = 4"
  shows "has_dest d \<lparr>pk_prefixlen = 64, pk_family = 4, pk_addr = take 4 (drop (off + 16) d) @ replicate 12 0\<rparr>"
  unfolding has_dest_def by (rule exI [of _ off]) (use assms in \<open>simp add: dest_key_def\<close>)

lemma has_dest6:
  assumes "ip_at d off" "word_at d (off - 2) = 0x86dd" "off + 40 \<le> length d" "drop_bit 4 (d ! off) = 6"
  shows "has_dest d \<lparr>pk_prefixlen = 160, pk_family = 6, pk_addr = take 16 (drop (off + 24) d)\<rparr>"
  unfolding has_dest_def by (rule exI [of _ off]) (use assms in \<open>simp add: dest_key_def\<close>)

lemma vlan_loop_ip_at:
  assumes "14 \<le> length d"
  shows "vlan_loop 2 d (word_at d 12) 14 = Some (Inl (- 1)) \<or>
    (\<exists>off. vlan_loop 2 d (word_at d 12) 14 = Some (Inr (word_at d (off - 2), off)) \<and> ip_at d off)"
  using assms by (auto simp: numeral_2_eq_2 ip_at_def is_vlan_def)

lemma parse_ip_eq:
  "parse_ip d p = Some (- 1, p) \<or>
    (\<exists>off. ip_at d off \<and> parse_ip d p = (let type = word_at d (off - 2) in
       if type = 0x0800 then parse_ipv4 d off p else if type = 0x86dd then parse_ipv6 d off p else Some (1, p)))"
proof (cases "14 \<le> length d")
  case True
  from vlan_loop_ip_at [OF True] show ?thesis
  proof (elim disjE exE conjE)
    fix off
    assume "vlan_loop 2 d (word_at d 12) 14 = Some (Inr (word_at d (off - 2), off))" "ip_at d off"
    with True show ?thesis by (intro disjI2 exI [of _ off]) (simp add: parse_ip_def Let_def)
  qed (use True in \<open>simp add: parse_ip_def\<close>)
qed (simp add: parse_ip_def)

lemma copy_front_zero [simp]: "length bs \<le> 16 \<Longrightarrow> copy_front (replicate 16 0) bs = bs @ replicate (16 - length bs) 0"
  by (simp add: copy_front_def)

text \<open>What \<^verbatim>\<open>parse_ip\<close> leaves in the packet; a \<open>Some\<close> is a run without a bad load.\<close>

definition parsed_ip :: "bytes \<Rightarrow> int \<Rightarrow> packet \<Rightarrow> bool" where
  "parsed_ip d r p \<longleftrightarrow> r \<in> {0, 1, - 1, - 2, - 12} \<and>
     (pk_family (px_dst p) = 0 \<and> r \<noteq> 0 \<or> has_dest d (px_dst p)) \<and>
     (r = 0 \<longrightarrow> px_l4 p \<le> px_ip_end p \<and> px_ip_end p \<le> length d \<and> px_l4 p \<le> 82 \<and> px_ip_end p < 2 ^ 17)"

lemma unat_and_15: "unat ((b :: byte) AND 15) \<le> 15"
  using word_and_le1 [of b 15] by (simp add: word_le_nat_alt)

lemma word_u16_le: "unat (w :: u16) \<le> 65535"
  proof -
  have "unat w < 2 ^ LENGTH(16)" by (rule unsigned_less)
  then show ?thesis by simp
qed

lemma parse_ipv4_ok:
  assumes "ip_at d off" "word_at d (off - 2) = 0x0800"
  shows "\<exists>r p. parse_ipv4 d off packet_zero = Some (r, p) \<and> parsed_ip d r p"
proof (cases "off + 20 \<le> length d \<and> drop_bit 4 (d ! off) = 4")
  case True
  then have "min (length d - (off + 16)) 4 = 4" by arith
  with True has_dest4 [OF assms] ip_at_le [OF assms(1)] unat_and_15 [of "d ! off"] word_u16_le [of "word_at d (off + 2)"]
  show ?thesis
    by (simp add: parse_ipv4_def Let_def parsed_ip_def packet_zero_def key_zero_def set_key_def)
qed (auto simp: parse_ipv4_def parsed_ip_def packet_zero_def key_zero_def)

lemma parse_ipv6_ok:
  assumes "ip_at d off" "word_at d (off - 2) = 0x86dd"
  shows "\<exists>r p. parse_ipv6 d off packet_zero = Some (r, p) \<and> parsed_ip d r p"
proof (cases "off + 40 \<le> length d \<and> drop_bit 4 (d ! off) = 6")
  case True
  then have "min (length d - (off + 24)) 16 = 16" by arith
  with True has_dest6 [OF assms] ip_at_le [OF assms(1)] word_u16_le [of "word_at d (off + 4)"]
  show ?thesis
    by (simp add: parse_ipv6_def Let_def parsed_ip_def packet_zero_def key_zero_def set_key_def)
qed (auto simp: parse_ipv6_def parsed_ip_def packet_zero_def key_zero_def)

lemma parse_ip_fields: "\<exists>r p. parse_ip d packet_zero = Some (r, p) \<and> parsed_ip d r p"
proof -
  have "parsed_ip d (- 1) packet_zero" "parsed_ip d 1 packet_zero"
    by (simp_all add: parsed_ip_def packet_zero_def key_zero_def)
  with parse_ip_eq [of d packet_zero] parse_ipv4_ok parse_ipv6_ok show ?thesis
    by (fastforce simp: Let_def split: if_splits)
qed

lemma parse_transport_total: "\<exists>r q. parse_transport d p = Some (r, q) \<and> r \<in> {0, 1, - 3, - 12}"
  by (simp add: parse_transport_def Let_def)

section \<open>The program\<close>

text \<open>The counters of a packet besides the verdict's.\<close>

definition same_verdicts :: "xdp_stats \<Rightarrow> xdp_stats \<Rightarrow> bool" where
  "same_verdicts s s' \<longleftrightarrow> st_rx_packets s' = st_rx_packets s \<and> st_rx_bytes s' = st_rx_bytes s \<and>
     st_pass_packets s' = st_pass_packets s \<and> st_drop_packets s' = st_drop_packets s \<and> st_reasons s' = st_reasons s"

text \<open>A reason to drop presupposes a configuration and an owned destination.\<close>

definition justified :: "'m lpm_ops \<Rightarrow> 'm xdp_maps \<Rightarrow> bytes \<Rightarrow> bool" where
  "justified ops x d \<longleftrightarrow> (\<exists>c k. xm_configuration x = Some c \<and> has_dest d k \<and> (pk_family k = 6 \<longrightarrow> xc_ipv6 c \<noteq> 0) \<and>
     lpm_lookup ops (xm_owned x) k \<noteq> None)"

definition why_ok :: "'m lpm_ops \<Rightarrow> 'm xdp_maps \<Rightarrow> bytes \<Rightarrow> xdp_stats \<Rightarrow> int \<Rightarrow> xdp_stats \<Rightarrow> bool" where
  "why_ok ops x d s why s' \<longleftrightarrow> 0 \<le> why \<and> why < R_COUNT \<and> same_verdicts s s' \<and> (why \<noteq> 0 \<longrightarrow> justified ops x d)"

lemma justifiedI:
  "xm_configuration x = Some c \<Longrightarrow> has_dest d k \<Longrightarrow> (pk_family k = 6 \<Longrightarrow> xc_ipv6 c \<noteq> 0) \<Longrightarrow>
    lpm_lookup ops (xm_owned x) k \<noteq> None \<Longrightarrow> justified ops x d"
  unfolding justified_def by blast

lemma xddp_tcp_ok:
  assumes "xddp_tcp ops x c p s now = (why, s', b)" "justified ops x d"
  shows "why_ok ops x d s why s'"
  using assms by (auto simp: xddp_tcp_def Let_def why_ok_def same_verdicts_def split: if_splits option.splits prod.splits)

lemma why_ok_none [simp]: "why_ok ops x d s 0 s"
  by (simp add: why_ok_def same_verdicts_def)

lemma why_ok_reason: "justified ops x d \<Longrightarrow> 0 \<le> why \<Longrightarrow> why < R_COUNT \<Longrightarrow> why_ok ops x d s why s"
  by (simp add: why_ok_def same_verdicts_def)

lemma xddp_transport_ok:
  assumes "justified ops x d"
  shows "\<exists>why s' b. xddp_transport ops x c d p s now = Some (why, s', b) \<and> why_ok ops x d s why s'"
proof -
  obtain r q where q: "parse_transport d p = Some (r, q)" "r \<in> {0, 1, - 3, - 12}"
    using parse_transport_total by metis
  obtain why s' b where t: "xddp_tcp ops x c q s now = (why, s', b)" by (metis prod_cases3)
  note ok = xddp_tcp_ok [OF t assms] why_ok_reason [OF assms]
  show ?thesis
  proof (cases "xm_ports x (ucast (px_port q))")
    case None
    with q ok show ?thesis by (auto simp: xddp_transport_def Let_def)
  next
    case (Some policy)
    with q ok t show ?thesis by (auto simp: xddp_transport_def Let_def)
  qed
qed

lemma xddp_ip_ok:
  assumes "has_dest d (px_dst p)"
  shows "\<exists>why s' b. xddp_ip ops x d p s now = Some (why, s', b) \<and> why_ok ops x d s why s'"
proof (cases "\<exists>c. xm_configuration x = Some c \<and> (pk_family (px_dst p) = 6 \<longrightarrow> xc_ipv6 c \<noteq> 0) \<and> xdp_owned ops x p")
  case True
  with assms have "justified ops x d" by (auto simp: xdp_owned_def intro: justifiedI)
  with True xddp_transport_ok why_ok_reason show ?thesis by (fastforce simp: xddp_ip_def)
qed (auto simp: xddp_ip_def split: option.split)

lemma xddp_why_ok: "\<exists>why s' b. xddp_why ops x d s now = Some (why, s', b) \<and> why_ok ops x d s why s'"
proof -
  obtain r p where p: "parse_ip d packet_zero = Some (r, p)" "parsed_ip d r p" using parse_ip_fields by metis
  show ?thesis
  proof (cases "r = 0")
    case True
    with p(2) have "has_dest d (px_dst p)" by (simp add: parsed_ip_def)
    from xddp_ip_ok [OF this, of ops x "xddp_count p s" now] obtain why s' b
      where i: "xddp_ip ops x d p (xddp_count p s) now = Some (why, s', b)" "why_ok ops x d (xddp_count p s) why s'" by blast
    have "same_verdicts s (xddp_count p s)" by (simp add: same_verdicts_def xddp_count_def Let_def)
    with i(2) have "why_ok ops x d s why s'" by (simp add: why_ok_def same_verdicts_def)
    with i(1) p(1) True show ?thesis by (simp add: xddp_why_def) (simp add: why_ok_def same_verdicts_def)
  next
    case False
    then have "why_ok ops x d s (xddp_refused ops x r p) s"
      using p(2)
      by (auto simp: xddp_refused_def parsed_ip_def xdp_owned_def intro!: why_ok_reason justifiedI [of x _ d "px_dst p"] split: option.split)
    with p(1) False show ?thesis by (simp add: xddp_why_def)
  qed
qed

text \<open>How the counters move on a packet: the reason \<open>why\<close> is \<open>0\<close> or the candidate reason of the packet.\<close>

definition counted :: "bytes \<Rightarrow> xdp_stats \<Rightarrow> xdp_action \<Rightarrow> nat \<Rightarrow> xdp_stats \<Rightarrow> bool" where
  "counted d s action why s' \<longleftrightarrow>
     st_rx_packets s' = st_rx_packets s + 1 \<and> st_rx_bytes s' = st_rx_bytes s + of_nat (length d) \<and>
     st_pass_packets s' = st_pass_packets s + (if action = XDP_PASS then 1 else 0) \<and>
     st_drop_packets s' = st_drop_packets s + (if action = XDP_DROP then 1 else 0) \<and>
     st_reasons s' = (if why = 0 then st_reasons s else (st_reasons s)[why := st_reasons s ! why + 1])"

text \<open>Enforcement: a configuration of this ABI, not observing, with a live lease.\<close>

definition enforcing :: "xdp_config option \<Rightarrow> u64 \<Rightarrow> bool" where
  "enforcing c now \<longleftrightarrow> (case c of None \<Rightarrow> False | Some c \<Rightarrow> xc_abi c = XDDP_ABI \<and> xc_observe c = 0 \<and> now < xc_lease_ns c)"

lemma xddp_effect:
  assumes "xm_counters x = Some s"
  shows "\<exists>why s' b action. xddp ops x d now = Some (action, x\<lparr>xm_counters := Some s', xm_syn_budget := b\<rparr>) \<and>
    counted d s action why s' \<and> why < 14 \<and> (why \<noteq> 0 \<longrightarrow> justified ops x d) \<and>
    (action = XDP_DROP \<longleftrightarrow> why \<noteq> 0 \<and> enforcing (xm_configuration x) now)"
proof -
  let ?s = "s\<lparr>st_rx_packets := st_rx_packets s + 1, st_rx_bytes := st_rx_bytes s + of_nat (length d)\<rparr>"
  obtain why s' b where w: "xddp_why ops x d ?s now = Some (why, s', b)" "why_ok ops x d ?s why s'"
    using xddp_why_ok by blast
  obtain action s'' where r: "xdp_result s' (xm_configuration x) why now = (action, s'')" by fastforce
  with w(2) have "counted d s action (nat why) s''" "action = XDP_DROP \<longleftrightarrow> nat why \<noteq> 0 \<and> enforcing (xm_configuration x) now"
    by (auto simp: xdp_result_def Let_def why_ok_def same_verdicts_def counted_def enforcing_def split: if_splits option.splits)
  moreover have "xddp ops x d now = Some (action, x\<lparr>xm_counters := Some s'', xm_syn_budget := b\<rparr>)"
    using assms w(1) r by (simp add: xddp_def)
  moreover have "nat why < 14 \<and> (nat why \<noteq> 0 \<longrightarrow> justified ops x d)"
    using w(2) by (auto simp: why_ok_def)
  ultimately show ?thesis by blast
qed

lemma idle_passes:
  assumes "\<not> enforcing (xm_configuration x) now"
  shows "map_option fst (xddp ops x d now) = Some XDP_PASS"
proof (cases "xm_counters x")
  case None
  then show ?thesis by (simp add: xddp_def)
next
  case (Some s)
  from xddp_effect [OF Some, of ops d now] assms show ?thesis by (auto intro: xdp_action.exhaust)
qed

text \<open>
  C4: The XDP program is memory safe and counts what it does: on every packet and every
  content of the maps it returns without a load outside the packet, leaves the shared maps
  as they are, and, with its counters in place, counts the packet and its bytes once, counts
  one verdict and at most one candidate reason. It drops exactly when there is such a
  reason and the lease is live in enforcement.
\<close>

theorem xddp_memory_safe:
  "\<exists>action x'. xddp ops x d now = Some (action, x') \<and>
     x' = x\<lparr>xm_counters := xm_counters x', xm_syn_budget := xm_syn_budget x'\<rparr> \<and>
     (case (xm_counters x, xm_counters x') of
        (Some s, Some s') \<Rightarrow> \<exists>why < 14. counted d s action why s' \<and>
          (action = XDP_DROP \<longleftrightarrow> why \<noteq> 0 \<and> enforcing (xm_configuration x) now)
      | (None, None) \<Rightarrow> action = XDP_PASS
      | _ \<Rightarrow> False)"
proof (cases "xm_counters x")
  case None
  then show ?thesis by (simp add: xddp_def)
next
  case (Some s)
  from xddp_effect [OF Some, of ops d now] obtain why s' b action where
    "xddp ops x d now = Some (action, x\<lparr>xm_counters := Some s', xm_syn_budget := b\<rparr>)" "counted d s action why s'"
    "why < 14" "action = XDP_DROP \<longleftrightarrow> why \<noteq> 0 \<and> enforcing (xm_configuration x) now" by blast
  with Some show ?thesis by simp blast
qed

text \<open>
  C5: The filter fails open: it drops a packet only while a configuration of its ABI is
  enforced with a live lease, and only when the packet carries, behind at most two VLAN
  tags, the fixed header of an IPv4 or, if enabled, IPv6 packet whose destination lies in
  an owned prefix, whatever else is malformed about it.
\<close>

theorem xdp_drop_justified:
  assumes "xddp ops x d now = Some (XDP_DROP, x')"
  shows "enforcing (xm_configuration x) now \<and>
    (\<exists>c off k. xm_configuration x = Some c \<and> ip_at d off \<and> dest_key d off = Some k \<and>
       (pk_family k = 6 \<longrightarrow> xc_ipv6 c \<noteq> 0) \<and> lpm_lookup ops (xm_owned x) k \<noteq> None)"
proof (cases "xm_counters x")
  case None
  with assms show ?thesis by (simp add: xddp_def)
next
  case (Some s)
  from xddp_effect [OF Some, of ops d now] assms show ?thesis
    by (auto simp: justified_def has_dest_def)
qed

text \<open>A state with one owned prefix in enforcement, and an IPv4 packet for it whose length is malformed.\<close>

definition live_config :: "u32 \<Rightarrow> xdp_config" where
  "live_config mode = \<lparr>xc_lease_ns = 1000, xc_abi = 2, xc_observe = 0, xc_mode = mode, xc_ipv6 = 1, xc_drop_tcp_fragments = 1,
     xc_syn_rate = 10, xc_syn_burst = 2\<rparr>"

definition zero_stats :: xdp_stats where
  "zero_stats = \<lparr>st_rx_packets = 0, st_rx_bytes = 0, st_pass_packets = 0, st_drop_packets = 0, st_syn_packets = 0,
     st_udp_packets = 0, st_icmp_packets = 0, st_ipv6_deferred = 0, st_reasons = replicate 14 0\<rparr>"

definition v4_key :: "nat \<Rightarrow> bytes \<Rightarrow> prefix_key" where
  "v4_key n bs = \<lparr>pk_prefixlen = 32 + of_nat n, pk_family = 4, pk_addr = bs @ replicate 12 0\<rparr>"

definition live_maps :: "u32 \<Rightarrow> lpm_list xdp_maps" where
  "live_maps mode = \<lparr>xm_configuration = Some (live_config mode), xm_counters = Some zero_stats,
     xm_syn_budget = Some \<lparr>sb_last_ns = 0, sb_credit_ns = 0, sb_rate = 0, sb_burst = 0\<rparr>,
     xm_ports = [25565 \<mapsto> 1, 80 \<mapsto> 2, 53 \<mapsto> 4], xm_owned = [(v4_key 24 [192, 0, 2, 0], 1)],
     xm_allow = [(v4_key 32 [198, 51, 100, 9], 1)], xm_block = [(v4_key 8 [10, 0, 0, 0], 5)]\<rparr>"

definition short_packet :: bytes where
  "short_packet = replicate 12 0 @ [8, 0] @ [0x45, 0, 0, 10] @ replicate 8 0 @ [198, 51, 100, 7, 192, 0, 2, 1]"

lemma short_packet_dropped: "map_option fst (xddp lpm_list_ops (live_maps 0) short_packet 5) = Some XDP_DROP"
  by code_simp

theorem xdp_drop_justified_witness:
  "\<exists>x'. xddp lpm_list_ops (live_maps 0) short_packet 5 = Some (XDP_DROP, x') \<and> enforcing (xm_configuration (live_maps 0)) 5"
  using short_packet_dropped xdp_drop_justified [of lpm_list_ops "live_maps 0" short_packet 5] by fastforce

end
