(* ===== verification/Xdp_Syn.thy ===== *)
theory Xdp_Syn
  imports Xdp_Safety
begin

text \<open>
  The SYN budget of one CPU: the arithmetic of \<^verbatim>\<open>syn_allowed\<close> does not overflow, and over any
  traffic the budget lets through at most the burst plus the rate times the elapsed time.
\<close>

section \<open>Effective parameters\<close>

definition syn_limited :: "xdp_config \<Rightarrow> bool" where
  "syn_limited c \<longleftrightarrow> xc_syn_rate c \<noteq> 0 \<and> xc_syn_burst c \<noteq> 0"

definition eff_rate :: "xdp_config \<Rightarrow> u32" where
  "eff_rate c = (if xc_syn_rate c > 1000000000 then 1000000000 else xc_syn_rate c)"

definition eff_burst :: "xdp_config \<Rightarrow> u32" where
  "eff_burst c = (if xc_syn_burst c > 1000000 then 1000000 else xc_syn_burst c)"

definition eff_cost :: "xdp_config \<Rightarrow> nat" where
  "eff_cost c = unat (syn_cost (eff_rate c))"

definition eff_cap :: "xdp_config \<Rightarrow> nat" where
  "eff_cap c = eff_cost c * unat (eff_burst c)"

lemma eff_bounds:
  assumes "syn_limited c"
  shows "0 < unat (eff_rate c)" "unat (eff_rate c) \<le> 1000000000" "0 < unat (eff_burst c)" "unat (eff_burst c) \<le> 1000000"
  using assms by (auto simp: syn_limited_def eff_rate_def eff_burst_def word_less_nat_alt unat_gt_0)

lemma unat_ucast_u64: "unat (ucast (w :: u32) :: u64) = unat w"
proof -
  have "unat w < 2 ^ LENGTH(32)" by (rule unsigned_less)
  then show ?thesis by (simp add: unsigned_ucast_eq take_bit_nat_eq_self)
qed

lemma eff_cost_eq:
  assumes "syn_limited c"
  shows "eff_cost c = (999999999 + unat (eff_rate c)) div unat (eff_rate c)"
proof -
  have "unat (1000000000 + ucast (eff_rate c) - 1 :: u64) = 999999999 + unat (eff_rate c)"
    using eff_bounds(2) [OF assms] by (simp add: unat_word_ariths unat_ucast_u64)
  then show ?thesis by (simp add: eff_cost_def syn_cost_def unat_div unat_ucast_u64)
qed

lemma eff_cost_bounds:
  assumes "syn_limited c"
  shows "0 < eff_cost c" "eff_cost c \<le> 1000000000" "1000000000 \<le> eff_cost c * unat (eff_rate c)"
proof -
  let ?r = "unat (eff_rate c)"
  note r = eff_bounds(1,2) [OF assms]
  have "?r \<le> 999999999 + ?r" by simp
  then show "0 < eff_cost c" using r by (simp add: eff_cost_eq [OF assms] div_greater_zero_iff)
  have "(999999999 + ?r) div ?r \<le> 1000000000"
    using r by (simp add: div_le_mono less_mult_imp_div_less Suc_le_eq flip: less_Suc_eq_le)
  then show "eff_cost c \<le> 1000000000" by (simp add: eff_cost_eq [OF assms])
  have "999999999 + ?r < ((999999999 + ?r) div ?r) * ?r + ?r"
    using r(1) dividend_less_div_times [of ?r "999999999 + ?r"] by simp
  then show "1000000000 \<le> eff_cost c * ?r" by (simp add: eff_cost_eq [OF assms])
qed

lemma eff_cap_bounds:
  assumes "syn_limited c"
  shows "eff_cap c \<le> 10 ^ 15" "eff_cost c \<le> eff_cap c"
    "unat (syn_cost (eff_rate c) * ucast (eff_burst c)) = eff_cap c"
proof -
  have "eff_cap c \<le> 1000000000 * 1000000"
    unfolding eff_cap_def using eff_cost_bounds [OF assms] eff_bounds [OF assms] by (intro mult_le_mono)
  then show le: "eff_cap c \<le> 10 ^ 15" by simp
  show "eff_cost c \<le> eff_cap c" using eff_bounds(3) [OF assms] by (simp add: eff_cap_def)
  show "unat (syn_cost (eff_rate c) * ucast (eff_burst c)) = eff_cap c"
    using le by (simp add: unat_word_ariths unat_ucast_u64 flip: eff_cost_def eff_cap_def)
qed

section \<open>One packet\<close>

text \<open>\<^verbatim>\<open>syn_allowed\<close> on natural numbers: the credit after the syn_refill.\<close>

definition syn_refill :: "xdp_config \<Rightarrow> syn_bucket \<Rightarrow> u64 \<Rightarrow> nat" where
  "syn_refill c b now =
     (if sb_last_ns b = 0 \<or> sb_rate b \<noteq> eff_rate c \<or> sb_burst b \<noteq> eff_burst c then eff_cap c
      else min (eff_cap c) (unat (sb_credit_ns b) + unat (now - sb_last_ns b)))"

lemma saturating_refill:
  fixes cap credit elapsed :: u64
  defines "dt \<equiv> if elapsed > cap then cap else elapsed"
  assumes "unat cap \<le> 10 ^ 15"
  shows "unat (if credit > cap - dt then cap else credit + dt) = min (unat cap) (unat credit + unat elapsed)"
proof -
  have dt: "unat dt = min (unat cap) (unat elapsed)" by (auto simp: dt_def word_less_nat_alt)
  then have sub: "unat (cap - dt) = unat cap - unat dt" by (simp add: unat_sub word_le_nat_alt)
  show ?thesis
  proof (cases "credit > cap - dt")
    case True
    with dt sub show ?thesis by (simp add: word_less_nat_alt)
  next
    case False
    with sub dt have le: "unat credit + unat dt \<le> unat cap" by (simp add: word_less_nat_alt)
    with assms(2) have "unat (credit + dt) = unat credit + unat dt" by (simp add: unat_word_ariths)
    with False le dt show ?thesis by auto
  qed
qed

lemma syn_allowed_eq:
  assumes "syn_limited c"
  shows "\<exists>b'. syn_allowed c (Some b) now = (eff_cost c \<le> syn_refill c b now, Some b') \<and>
    sb_last_ns b' = now \<and> sb_rate b' = eff_rate c \<and> sb_burst b' = eff_burst c \<and>
    unat (sb_credit_ns b') = (if eff_cost c \<le> syn_refill c b now then syn_refill c b now - eff_cost c else syn_refill c b now)"
proof -
  let ?cost = "syn_cost (eff_rate c)" and ?cap = "syn_cost (eff_rate c) * ucast (eff_burst c)"
  let ?fresh = "sb_last_ns b = 0 \<or> sb_rate b \<noteq> eff_rate c \<or> sb_burst b \<noteq> eff_burst c"
  define dt where "dt = (if now - sb_last_ns b > ?cap then ?cap else now - sb_last_ns b)"
  define credit where "credit = (if ?fresh then ?cap else if sb_credit_ns b > ?cap - dt then ?cap else sb_credit_ns b + dt)"
  define b1 where "b1 = \<lparr>sb_last_ns = now, sb_credit_ns = credit, sb_rate = eff_rate c, sb_burst = eff_burst c\<rparr>"
  note cap = eff_cap_bounds [OF assms]
  have credit: "unat credit = syn_refill c b now"
    using saturating_refill [of ?cap "now - sb_last_ns b" "sb_credit_ns b"] cap
    by (auto simp: credit_def syn_refill_def dt_def)
  have run: "syn_allowed c (Some b) now = (if credit < ?cost then (False, Some b1) else (True, Some (b1\<lparr>sb_credit_ns := credit - ?cost\<rparr>)))"
    using assms unfolding syn_allowed_def syn_limited_def Let_def eff_rate_def [symmetric] eff_burst_def [symmetric]
    by (cases b) (simp add: b1_def credit_def dt_def)
  have less: "credit < ?cost \<longleftrightarrow> \<not> eff_cost c \<le> syn_refill c b now"
    by (simp add: word_less_nat_alt credit eff_cost_def not_le)
  show ?thesis
  proof (cases "credit < ?cost")
    case True
    with run less credit show ?thesis by (simp add: b1_def)
  next
    case False
    then have "unat (credit - ?cost) = syn_refill c b now - eff_cost c"
      by (simp add: unat_sub linorder_not_less credit eff_cost_def)
    with False run less show ?thesis by (simp add: b1_def)
  qed
qed

section \<open>Traffic\<close>

text \<open>
  The packets that the budget is for: a TCP SYN to a protected port of an owned destination from
  a source that is neither allowed nor blocked.
\<close>

definition syn_rules :: "'m lpm_ops \<Rightarrow> 'm xdp_maps \<Rightarrow> packet \<Rightarrow> bool" where
  "syn_rules ops x p \<longleftrightarrow> px_proto p = 6 \<and> is_syn (px_flags p) \<and>
     (case xm_ports x (ucast (px_port p)) of
        None \<Rightarrow> False
      | Some policy \<Rightarrow> policy AND PORT_DROP_TCP = 0 \<and> policy AND PORT_PROTECT_TCP \<noteq> 0) \<and>
     lpm_lookup ops (xm_allow x) (px_src p) = None \<and> lpm_lookup ops (xm_block x) (px_src p) = None"

definition syn_budgeted :: "'m lpm_ops \<Rightarrow> 'm xdp_maps \<Rightarrow> xdp_config \<Rightarrow> bytes \<Rightarrow> bool" where
  "syn_budgeted ops x c d \<longleftrightarrow>
     (case parse_ip d packet_zero of
        None \<Rightarrow> False
      | Some (r, p) \<Rightarrow> r = 0 \<and> px_proto p \<noteq> 1 \<and> px_proto p \<noteq> 58 \<and> (pk_family (px_dst p) = 6 \<longrightarrow> xc_ipv6 c \<noteq> 0) \<and>
          xdp_owned ops x p \<and> \<not> px_fragment p \<and>
          (case parse_transport d p of None \<Rightarrow> False | Some (r, q) \<Rightarrow> r = 0 \<and> syn_rules ops x q))"

text \<open>One packet moves the budget only through \<^verbatim>\<open>syn_allowed\<close>, and a syn_budgeted packet passes only with its consent.\<close>

definition syn_spends :: "xdp_config \<Rightarrow> syn_bucket option \<Rightarrow> u64 \<Rightarrow> bool \<Rightarrow> int \<Rightarrow> syn_bucket option \<Rightarrow> bool" where
  "syn_spends c b now charged why b' \<longleftrightarrow>
     b' = b \<and> (charged \<longrightarrow> why \<noteq> 0) \<or> b' = snd (syn_allowed c b now) \<and> (why = 0 \<longrightarrow> fst (syn_allowed c b now))"

lemma xddp_tcp_spends:
  assumes "xddp_tcp ops x c p s now = (why, s', b')" "px_proto p = 6"
    "xm_ports x (ucast (px_port p)) = Some policy" "policy AND PORT_DROP_TCP = 0" "policy AND PORT_PROTECT_TCP \<noteq> 0"
  shows "syn_spends c (xm_syn_budget x) now (syn_rules ops x p) why b'"
  using assms by (auto simp: xddp_tcp_def Let_def syn_spends_def syn_rules_def split: if_splits option.splits prod.splits)

lemma xddp_transport_spends:
  assumes "xddp_transport ops x c d p s now = Some (why, s', b')" "parse_transport d p = Some (r, q)"
  shows "syn_spends c (xm_syn_budget x) now (r = 0 \<and> syn_rules ops x q) why b'"
proof (cases "r = 0 \<and> px_proto q = 6 \<and> (\<exists>policy. xm_ports x (ucast (px_port q)) = Some policy \<and>
    policy AND PORT_DROP_TCP = 0 \<and> policy AND PORT_PROTECT_TCP \<noteq> 0)")
  case True
  with assms xddp_tcp_spends [of ops x c q s now why s' b'] show ?thesis
    by (auto simp: xddp_transport_def Let_def)
next
  case False
  with assms show ?thesis
    by (auto simp: xddp_transport_def Let_def syn_spends_def syn_rules_def split: if_splits option.splits)
qed

lemma xddp_why_spends:
  assumes "xddp_why ops x d s now = Some (why, s', b')" "xm_configuration x = Some c"
  shows "syn_spends c (xm_syn_budget x) now (syn_budgeted ops x c d) why b'"
proof -
  obtain r p where p: "parse_ip d packet_zero = Some (r, p)" using parse_ip_fields by metis
  obtain r' q where q: "parse_transport d p = Some (r', q)" using parse_transport_total by metis
  have charged: "syn_budgeted ops x c d \<longleftrightarrow> r = 0 \<and> px_proto p \<noteq> 1 \<and> px_proto p \<noteq> 58 \<and>
     (pk_family (px_dst p) = 6 \<longrightarrow> xc_ipv6 c \<noteq> 0) \<and> xdp_owned ops x p \<and> \<not> px_fragment p \<and> r' = 0 \<and> syn_rules ops x q"
    by (auto simp: syn_budgeted_def p q)
  show ?thesis
  proof (cases "r = 0 \<and> px_proto p \<noteq> 1 \<and> px_proto p \<noteq> 58 \<and> (pk_family (px_dst p) = 6 \<longrightarrow> xc_ipv6 c \<noteq> 0) \<and>
      xdp_owned ops x p \<and> \<not> px_fragment p")
    case True
    with assms p have "xddp_transport ops x c d p (xddp_count p s) now = Some (why, s', b')"
      by (auto simp: xddp_why_def xddp_ip_def)
    from xddp_transport_spends [OF this q] True show ?thesis by (simp add: charged)
  next
    case False
    with assms p have "b' = xm_syn_budget x" by (auto simp: xddp_why_def xddp_ip_def split: if_splits)
    with False show ?thesis by (auto simp: syn_spends_def charged)
  qed
qed

text \<open>
  The packets one CPU handles, in order, with their arrival times, and the number of syn_budgeted ones
  that pass.
\<close>

fun xddp_run :: "'m lpm_ops \<Rightarrow> 'm xdp_maps \<Rightarrow> xdp_config \<Rightarrow> (bytes \<times> u64) list \<Rightarrow> nat" where
  "xddp_run ops x c [] = 0"
| "xddp_run ops x c ((d, now) # ps) =
     (case xddp ops x d now of
        None \<Rightarrow> 0
      | Some (action, x') \<Rightarrow> (if syn_budgeted ops x c d \<and> action = XDP_PASS then 1 else 0) + xddp_run ops x' c ps)"

text \<open>The arrival times are ordered, positive, between \<open>t0\<close> and \<open>t1\<close>, and within the lease of an enforced configuration.\<close>

definition syn_window :: "xdp_config \<Rightarrow> u64 \<Rightarrow> u64 \<Rightarrow> (bytes \<times> u64) list \<Rightarrow> bool" where
  "syn_window c t0 t1 ps \<longleftrightarrow> xc_abi c = XDDP_ABI \<and> xc_observe c = 0 \<and> t1 < xc_lease_ns c \<and> 0 < t0 \<and> t0 \<le> t1 \<and>
     sorted (map snd ps) \<and> (\<forall>t \<in> set (map snd ps). t0 \<le> t \<and> t \<le> t1)"

definition syn_guarded :: "xdp_config \<Rightarrow> 'm xdp_maps \<Rightarrow> bool" where
  "syn_guarded c x \<longleftrightarrow> syn_limited c \<and> xm_configuration x = Some c \<and> xm_counters x \<noteq> None \<and> xm_syn_budget x \<noteq> None"

lemma window_Cons:
  assumes "syn_window c t0 t1 ((d, now) # ps)"
  shows "syn_window c now t1 ps" "syn_window c t0 t1 ps" "t0 \<le> now" "now \<le> t1" "now \<noteq> 0" "enforcing (Some c) now"
  using assms by (auto simp: syn_window_def enforcing_def intro: le_less_trans)

lemma xddp_spends:
  assumes "syn_guarded c x" "enforcing (Some c) now"
  shows "\<exists>action x' b'. xddp ops x d now = Some (action, x') \<and> syn_guarded c x' \<and> xm_syn_budget x' = Some b' \<and>
    (b' = the (xm_syn_budget x) \<and> \<not> (syn_budgeted ops x c d \<and> action = XDP_PASS) \<or>
     Some b' = snd (syn_allowed c (xm_syn_budget x) now) \<and> (action = XDP_PASS \<longrightarrow> fst (syn_allowed c (xm_syn_budget x) now)))"
proof -
  from assms(1) obtain s b where x: "xm_counters x = Some s" "xm_syn_budget x = Some b" "xm_configuration x = Some c" "syn_limited c"
    by (auto simp: syn_guarded_def)
  let ?s = "s\<lparr>st_rx_packets := st_rx_packets s + 1, st_rx_bytes := st_rx_bytes s + of_nat (length d)\<rparr>"
  obtain why s' b' where w: "xddp_why ops x d ?s now = Some (why, s', b')" "why_ok ops x d ?s why s'"
    using xddp_why_ok by blast
  obtain action s'' where r: "xdp_result s' (Some c) why now = (action, s'')" by fastforce
  with w(2) assms(2) have pass: "action = XDP_PASS \<longleftrightarrow> why = 0"
    by (auto simp: xdp_result_def Let_def why_ok_def enforcing_def split: if_splits)
  have run: "xddp ops x d now = Some (action, x\<lparr>xm_counters := Some s'', xm_syn_budget := b'\<rparr>)"
    using x w(1) r by (simp add: xddp_def)
  have sp: "syn_spends c (xm_syn_budget x) now (syn_budgeted ops x c d) why b'" by (rule xddp_why_spends [OF w(1) x(3)])
  obtain b'' where "snd (syn_allowed c (Some b) now) = Some b''" using syn_allowed_eq [OF x(4), of b now] by auto
  with sp x(2) obtain c' where "b' = Some c'" by (auto simp: syn_spends_def)
  with run sp pass x show ?thesis by (auto simp: syn_spends_def syn_guarded_def)
qed

text \<open>A bucket that is charged for the configuration.\<close>

definition syn_current :: "xdp_config \<Rightarrow> syn_bucket \<Rightarrow> bool" where
  "syn_current c b \<longleftrightarrow> sb_last_ns b \<noteq> 0 \<and> sb_rate b = eff_rate c \<and> sb_burst b = eff_burst c"

lemma syn_allowed_charge:
  assumes "syn_limited c" "syn_allowed c (Some b) now = (ok, Some b')" "now \<noteq> 0"
  shows "syn_current c b'" "sb_last_ns b' = now" "unat (sb_credit_ns b') + (if ok then eff_cost c else 0) \<le> eff_cap c"
    "syn_current c b \<Longrightarrow> sb_last_ns b \<le> now \<Longrightarrow>
      unat (sb_credit_ns b') + (if ok then eff_cost c else 0) \<le> unat (sb_credit_ns b) + (unat now - unat (sb_last_ns b))"
  using syn_allowed_eq [OF assms(1), of b now] assms(2,3)
  by (auto simp: syn_current_def syn_refill_def unat_sub split: if_splits)

lemma xddp_run_current:
  assumes "syn_guarded c x" "xm_syn_budget x = Some b" "syn_current c b" "sb_last_ns b \<le> t0" "syn_window c t0 t1 ps"
  shows "eff_cost c * xddp_run ops x c ps \<le> unat (sb_credit_ns b) + (unat t1 - unat (sb_last_ns b))"
  using assms
proof (induction ps arbitrary: x b t0)
  case (Cons p ps)
  obtain d now where p: "p = (d, now)" by fastforce
  note win = window_Cons [OF Cons.prems(5) [unfolded p]]
  have last: "sb_last_ns b \<le> now" using Cons.prems(4) win(3) by simp
  obtain action x' b' where st: "xddp ops x d now = Some (action, x')" "syn_guarded c x'" "xm_syn_budget x' = Some b'"
    "b' = b \<and> \<not> (syn_budgeted ops x c d \<and> action = XDP_PASS) \<or>
     Some b' = snd (syn_allowed c (Some b) now) \<and> (action = XDP_PASS \<longrightarrow> fst (syn_allowed c (Some b) now))"
    using xddp_spends [OF Cons.prems(1) win(6), of ops d] Cons.prems(2) by auto
  from st(4) show ?case
  proof (elim disjE conjE)
    assume "b' = b" "\<not> (syn_budgeted ops x c d \<and> action = XDP_PASS)"
    with st Cons.IH [of x' b now] last Cons.prems(3) win(1) show ?thesis by (auto simp: p)
  next
    assume charge: "Some b' = snd (syn_allowed c (Some b) now)" "action = XDP_PASS \<longrightarrow> fst (syn_allowed c (Some b) now)"
    then obtain ok where ok: "syn_allowed c (Some b) now = (ok, Some b')" by (metis prod.collapse)
    have lim: "syn_limited c" using Cons.prems(1) by (simp add: syn_guarded_def)
    note b' = syn_allowed_charge [OF lim ok win(5)]
    have "eff_cost c * xddp_run ops x' c ps \<le> unat (sb_credit_ns b') + (unat t1 - unat now)"
      using Cons.IH [OF st(2,3) b'(1) _ win(1)] b'(2) by simp
    moreover have "unat (sb_last_ns b) \<le> unat now" "unat now \<le> unat t1"
      using last win(4) by (simp_all add: word_le_nat_alt)
    ultimately show ?thesis using st(1) b'(4) [OF Cons.prems(3) last] charge(2) ok by (auto simp: p)
  qed
qed simp

lemma xddp_run_bound:
  assumes "syn_guarded c x" "syn_window c t0 t1 ps"
  shows "eff_cost c * xddp_run ops x c ps \<le> eff_cap c + (unat t1 - unat t0)"
  using assms
proof (induction ps arbitrary: x)
  case (Cons p ps)
  obtain d now where p: "p = (d, now)" by fastforce
  note win = window_Cons [OF Cons.prems(2) [unfolded p]]
  obtain b where b: "xm_syn_budget x = Some b" and lim: "syn_limited c" using Cons.prems(1) by (auto simp: syn_guarded_def)
  obtain action x' b' where st: "xddp ops x d now = Some (action, x')" "syn_guarded c x'" "xm_syn_budget x' = Some b'"
    "b' = b \<and> \<not> (syn_budgeted ops x c d \<and> action = XDP_PASS) \<or>
     Some b' = snd (syn_allowed c (Some b) now) \<and> (action = XDP_PASS \<longrightarrow> fst (syn_allowed c (Some b) now))"
    using xddp_spends [OF Cons.prems(1) win(6), of ops d] b by auto
  from st(4) show ?case
  proof (elim disjE conjE)
    assume "b' = b" "\<not> (syn_budgeted ops x c d \<and> action = XDP_PASS)"
    with st Cons.IH [OF st(2) win(2)] show ?thesis by (auto simp: p)
  next
    assume charge: "Some b' = snd (syn_allowed c (Some b) now)" "action = XDP_PASS \<longrightarrow> fst (syn_allowed c (Some b) now)"
    then obtain ok where ok: "syn_allowed c (Some b) now = (ok, Some b')" by (metis prod.collapse)
    note b' = syn_allowed_charge [OF lim ok win(5)]
    have "eff_cost c * xddp_run ops x' c ps \<le> unat (sb_credit_ns b') + (unat t1 - unat now)"
      using xddp_run_current [OF st(2,3) b'(1) _ win(1)] b'(2) by simp
    moreover have "unat t0 \<le> unat now" "unat now \<le> unat t1" using win(3,4) by (simp_all add: word_le_nat_alt)
    ultimately show ?thesis using st(1) b'(3) charge(2) ok by (auto simp: p)
  qed
qed simp

text \<open>
  C14: The SYN budget of a CPU holds on the wire: with a positive rate and burst in
  enforcement, whatever the bucket holds and whatever packets arrive between two times of the
  lease, the SYNs to protected ports from sources without a rule of their own that get
  through, beyond the burst, come at most at the configured rate per second (rate and burst
  capped as the program caps them).
\<close>

theorem xdp_syn_budget:
  assumes "syn_guarded c x" "syn_window c t0 t1 ps"
  shows "(xddp_run ops x c ps - unat (eff_burst c)) * 1000000000 \<le> unat (eff_rate c) * (unat t1 - unat t0)"
proof -
  let ?n = "xddp_run ops x c ps - unat (eff_burst c)" and ?r = "unat (eff_rate c)"
  have lim: "syn_limited c" using assms(1) by (simp add: syn_guarded_def)
  have "?n * 1000000000 \<le> ?n * (eff_cost c * ?r)"
    using eff_cost_bounds(3) [OF lim] by (intro mult_le_mono2)
  also have "\<dots> = (eff_cost c * ?n) * ?r" by simp
  also have "eff_cost c * ?n \<le> unat t1 - unat t0"
    using xddp_run_bound [OF assms, of ops] by (simp add: eff_cap_def diff_mult_distrib2)
  then have "(eff_cost c * ?n) * ?r \<le> (unat t1 - unat t0) * ?r" by (rule mult_le_mono1)
  finally show ?thesis by (simp add: mult.commute)
qed

text \<open>A SYN for a protected port of the state \<open>live_maps\<close>, three times: the burst of two passes, the third is dropped.\<close>

definition syn_packet :: bytes where
  "syn_packet = replicate 12 0 @ [8, 0] @
     [0x45, 0, 0, 40, 0, 0, 0, 0, 64, 6, 0, 0, 198, 51, 100, 7, 192, 0, 2, 1] @
     [0x30, 0x39, 0x63, 0xDD, 0, 0, 0, 1, 0, 0, 0, 1, 0x50, 2, 0xFF, 0xFF, 0, 0, 0, 0]"

theorem xdp_syn_budget_witness:
  "syn_guarded (live_config 0) (live_maps 0) \<and> syn_window (live_config 0) 5 7 [(syn_packet, 5), (syn_packet, 6), (syn_packet, 7)] \<and>
   (xddp_run lpm_list_ops (live_maps 0) (live_config 0) [(syn_packet, 5), (syn_packet, 6), (syn_packet, 7)]
     - unat (eff_burst (live_config 0))) * 1000000000 \<le> 20"
proof -
  have g: "syn_guarded (live_config 0) (live_maps 0)"
    by (simp add: syn_guarded_def syn_limited_def live_config_def live_maps_def)
  have w: "syn_window (live_config 0) 5 7 [(syn_packet, 5), (syn_packet, 6), (syn_packet, 7)]"
    by (simp add: syn_window_def live_config_def)
  have "unat (eff_rate (live_config 0)) = 10" by (simp add: eff_rate_def live_config_def)
  with xdp_syn_budget [OF g w, of lpm_list_ops] g w show ?thesis by simp
qed

end
