(* ===== verification/Xdp_Wire.thy ===== *)
theory Xdp_Wire
  imports Xdp_Syn
begin

text \<open>
  Packets as they are on the wire: Ethernet with up to two VLAN tags, IPv4 with options, TCP with
  options, and whatever padding follows. The parsers recover their fields, which gives the
  verdict of the program on every well-formed TCP packet.
\<close>

section \<open>Encoding\<close>

definition ethernet :: "bytes \<Rightarrow> (u16 \<times> u16) list \<Rightarrow> u16 \<Rightarrow> bytes \<Rightarrow> bytes" where
  "ethernet macs tags type payload =
     macs @ concat (map (\<lambda>(tpid, tci). be16 tpid @ be16 tci) tags) @ be16 type @ payload"

record ipv4 =
  i4_tos :: byte
  i4_id :: u16
  i4_frag :: u16
  i4_ttl :: byte
  i4_checksum :: u16
  i4_src :: bytes
  i4_dst :: bytes
  i4_options :: bytes

definition ipv4_header :: "ipv4 \<Rightarrow> byte \<Rightarrow> nat \<Rightarrow> bytes" where
  "ipv4_header h proto n =
     [0x40 OR of_nat (5 + length (i4_options h) div 4), i4_tos h] @ be16 (of_nat (20 + length (i4_options h) + n)) @
     be16 (i4_id h) @ be16 (i4_frag h) @ [i4_ttl h, proto] @ be16 (i4_checksum h) @ i4_src h @ i4_dst h @ i4_options h"

definition ipv4_packet :: "ipv4 \<Rightarrow> byte \<Rightarrow> bytes \<Rightarrow> bytes" where
  "ipv4_packet h proto payload = ipv4_header h proto (length payload) @ payload"

record tcp =
  tc_sport :: u16
  tc_dport :: u16
  tc_seq :: bytes
  tc_ack :: bytes
  tc_reserved :: byte
  tc_flags :: byte
  tc_window :: u16
  tc_checksum :: u16
  tc_urgent :: u16
  tc_options :: bytes

definition tcp_segment :: "tcp \<Rightarrow> bytes \<Rightarrow> bytes" where
  "tcp_segment h payload =
     be16 (tc_sport h) @ be16 (tc_dport h) @ tc_seq h @ tc_ack h @
     [push_bit 4 (of_nat (5 + length (tc_options h) div 4)) OR tc_reserved h, tc_flags h] @ be16 (tc_window h) @
     be16 (tc_checksum h) @ be16 (tc_urgent h) @ tc_options h @ payload"

definition options_ok :: "bytes \<Rightarrow> bool" where
  "options_ok opts \<longleftrightarrow> length opts mod 4 = 0 \<and> length opts \<le> 40"

definition tags_ok :: "(u16 \<times> u16) list \<Rightarrow> bool" where
  "tags_ok tags \<longleftrightarrow> length tags \<le> 2 \<and> list_all (\<lambda>(tpid, tci). is_vlan tpid) tags"

definition ipv4_ok :: "ipv4 \<Rightarrow> bytes \<Rightarrow> bool" where
  "ipv4_ok h payload \<longleftrightarrow> length (i4_src h) = 4 \<and> length (i4_dst h) = 4 \<and> options_ok (i4_options h) \<and>
     20 + length (i4_options h) + length payload \<le> 65535"

text \<open>The combinations of flags that a TCP packet may have: no SYN with FIN or RST, no FIN with RST.\<close>

definition flags_ok :: "byte \<Rightarrow> bool" where
  "flags_ok flags \<longleftrightarrow> \<not> (flags AND 2 \<noteq> 0 \<and> flags AND 5 \<noteq> 0) \<and> flags AND 5 \<noteq> 5"

definition tcp_ok :: "tcp \<Rightarrow> bool" where
  "tcp_ok h \<longleftrightarrow> length (tc_seq h) = 4 \<and> length (tc_ack h) = 4 \<and> tc_reserved h < 16 \<and> options_ok (tc_options h) \<and>
     flags_ok (tc_flags h)"

section \<open>Loads behind a prefix\<close>

lemma nth_shift: "length pre = off \<Longrightarrow> (pre @ body) ! (off + k) = body ! k"
  by (metis nth_append_length_plus)

lemma word_at_shift: "length pre = off \<Longrightarrow> word_at (pre @ body) (off + k) = word_at body k"
  using nth_shift [of pre off body k] nth_shift [of pre off body "k + 1"] by (simp add: word_at_def add.assoc)

lemma block_shift: "length pre = off \<Longrightarrow> take n (drop (off + k) (pre @ body)) = take n (drop k body)"
  by simp

lemma word_at_be16 [simp]: "word_at (be16 w @ rest) 0 = w"
  by (simp add: word_at_def be16_def)

section \<open>The network layer\<close>

lemma word_at_nth: "word_at d k = u16_from_be (d ! k) (d ! Suc k)"
  by (simp add: word_at_def)

lemma parse_ip_ipv4:
  assumes "ip_at d off" "word_at d (off - 2) = 0x0800"
  shows "parse_ip d p = parse_ipv4 d off p"
proof -
  from assms(1) have "14 \<le> length d" using ip_at_le by fastforce
  moreover from assms have "vlan_loop 2 d (word_at d 12) 14 = Some (Inr (0x0800, off))"
    unfolding ip_at_def numeral_2_eq_2 by (elim conjE disjE) (simp_all add: is_vlan_def)
  ultimately show ?thesis by (simp add: parse_ip_def)
qed

lemma ethernet_ip_at:
  fixes macs :: bytes and type :: u16 and payload :: bytes
  assumes "length macs = 12" "tags_ok tags"
  defines "d \<equiv> ethernet macs tags type payload" and "off \<equiv> 14 + 4 * length tags"
  shows "ip_at d off" "word_at d (off - 2) = type" "\<exists>pre. d = pre @ payload \<and> length pre = off"
proof -
  have len: "length (concat (map (\<lambda>(tpid, tci). be16 tpid @ be16 tci) tags)) = 4 * length tags"
    by (induction tags) auto
  show "\<exists>pre. d = pre @ payload \<and> length pre = off"
    using assms(1) len by (intro exI [of _ "macs @ concat (map (\<lambda>(tpid, tci). be16 tpid @ be16 tci) tags) @ be16 type"])
      (simp add: d_def off_def ethernet_def)
  consider "tags = []" | a i where "tags = [(a, i)]" "is_vlan a" | a i b j where "tags = [(a, i), (b, j)]" "is_vlan a" "is_vlan b"
    using assms(2) by (auto simp: tags_ok_def length_Suc_conv numeral_2_eq_2 le_Suc_eq)
  note tag = this
  show "ip_at d off"
    by (cases rule: tag) (use assms(1) in \<open>simp_all add: ip_at_def d_def off_def ethernet_def be16_def word_at_nth nth_append\<close>)
  show "word_at d (off - 2) = type"
    by (cases rule: tag) (use assms(1) in \<open>simp_all add: d_def off_def ethernet_def be16_def word_at_nth nth_append\<close>)
qed

text \<open>What \<^verbatim>\<open>parse_ipv4\<close> finds in a packet that starts with \<open>ipv4_packet\<close>.\<close>

definition v4_host :: "bytes \<Rightarrow> prefix_key" where
  "v4_host addr = \<lparr>pk_prefixlen = 64, pk_family = 4, pk_addr = addr @ replicate 12 0\<rparr>"

definition ipv4_fields :: "nat \<Rightarrow> ipv4 \<Rightarrow> byte \<Rightarrow> bytes \<Rightarrow> packet" where
  "ipv4_fields off h proto payload = packet_zero\<lparr>px_src := v4_host (i4_src h), px_dst := v4_host (i4_dst h), px_proto := proto,
     px_fragment := (i4_frag h AND 0x3fff \<noteq> 0), px_l4 := off + 20 + length (i4_options h),
     px_ip_end := off + 20 + length (i4_options h) + length payload\<rparr>"

lemma version_ihl:
  assumes "n \<le> 15"
  shows "drop_bit 4 (0x40 OR of_nat n :: byte) = 4" "unat ((0x40 OR of_nat n :: byte) AND 15) = n"
proof -
  have "list_all (\<lambda>n. drop_bit 4 (0x40 OR of_nat n :: byte) = 4 \<and> unat ((0x40 OR of_nat n :: byte) AND 15) = n) [0..<16]" by code_simp
  then show "drop_bit 4 (0x40 OR of_nat n :: byte) = 4" "unat ((0x40 OR of_nat n :: byte) AND 15) = n"
    using assms by (simp_all add: list_all_iff)
qed

lemma unat_of_nat16: "n \<le> 65535 \<Longrightarrow> unat (of_nat n :: u16) = n"
  by (simp add: unat_of_nat)

lemma length4: "length xs = 4 \<Longrightarrow> \<exists>a b c d. xs = [a, b, c, d]"
  by (auto simp: length_Suc_conv numeral_eq_Suc)

lemma options_words: "options_ok opts \<Longrightarrow> (5 + length opts div 4) * 4 = 20 + length opts \<and> 5 + length opts div 4 \<le> 15"
  by (auto simp: options_ok_def)

lemma parse_ipv4_packet:
  assumes "ipv4_ok h payload"
  shows "parse_ipv4 (pre @ ipv4_packet h proto payload @ pad) (length pre) packet_zero = Some (0, ipv4_fields (length pre) h proto payload)"
proof -
  let ?off = "length pre" and ?n = "5 + length (i4_options h) div 4" and ?len = "20 + length (i4_options h) + length payload"
  obtain s0 s1 s2 s3 t0 t1 t2 t3 where addrs: "i4_src h = [s0, s1, s2, s3]" "i4_dst h = [t0, t1, t2, t3]"
    using assms length4 unfolding ipv4_ok_def by metis
  note opt = options_words [of "i4_options h"] version_ihl [of ?n]
  define body where "body = ipv4_packet h proto payload @ pad"
  define d where "d = pre @ body"
  have len: "length d = ?off + ?len + length pad" by (simp add: d_def body_def ipv4_packet_def ipv4_header_def addrs)
  have loads: "d ! ?off = 0x40 OR of_nat ?n" "take 4 (drop (?off + 16) d) = i4_dst h" "take 4 (drop (?off + 12) d) = i4_src h"
    "word_at d (?off + 2) = of_nat ?len" "d ! (?off + 9) = proto" "word_at d (?off + 6) = i4_frag h"
    using nth_shift [of pre ?off body 0]
    by (simp_all add: d_def body_def ipv4_packet_def ipv4_header_def addrs be16_def nth_append word_at_def)
  have "unat (of_nat ?len :: u16) = ?len"
    using assms by (intro unat_of_nat16) (simp add: ipv4_ok_def)
  then show ?thesis
    using assms opt loads len unfolding d_def [symmetric] body_def [symmetric]
    by (simp add: parse_ipv4_def Let_def ipv4_ok_def ipv4_fields_def v4_host_def set_key_def packet_zero_def key_zero_def)
qed

section \<open>The transport layer\<close>

lemma data_offset:
  assumes "n \<le> 15" "res < (16 :: byte)"
  shows "unat (drop_bit 4 (push_bit 4 (of_nat n) OR res)) = n"
proof -
  have "unat (drop_bit 4 res) = 0"
    using assms(2) by (simp add: drop_bit_eq_div unat_div word_less_nat_alt)
  then have "drop_bit 4 res = 0" by (simp only: unat_eq_zero)
  then have "drop_bit 4 (push_bit 4 (of_nat n) OR res) = drop_bit 4 (push_bit 4 (of_nat n))" by (simp add: drop_bit_or)
  moreover have "list_all (\<lambda>n. unat (drop_bit 4 (push_bit 4 (of_nat n :: byte))) = n) [0..<16]" by code_simp
  ultimately show ?thesis using assms(1) by (simp add: list_all_iff)
qed

lemma parse_transport_tcp:
  assumes "tcp_ok h" "px_l4 p = length pre" "px_ip_end p = length pre + length (tcp_segment h payload)"
    and "length pre \<le> 128" "px_proto p = 6" "\<not> px_fragment p" "\<not> px_deferred p"
  shows "parse_transport (pre @ tcp_segment h payload @ pad) p = Some (0, p\<lparr>px_port := tc_dport h, px_flags := tc_flags h\<rparr>)"
proof -
  let ?off = "length pre" and ?n = "5 + length (tc_options h) div 4"
  obtain s0 s1 s2 s3 t0 t1 t2 t3 where nums: "tc_seq h = [s0, s1, s2, s3]" "tc_ack h = [t0, t1, t2, t3]"
    using assms(1) length4 unfolding tcp_ok_def by metis
  define d where "d = pre @ tcp_segment h payload @ pad"
  have seg: "length (tcp_segment h payload) = 20 + length (tc_options h) + length payload"
    by (simp add: tcp_segment_def nums)
  then have len: "length d = ?off + 20 + length (tc_options h) + length payload + length pad" by (simp add: d_def)
  have loads: "word_at d (?off + 2) = tc_dport h" "d ! (?off + 13) = tc_flags h"
    "d ! (?off + 12) = push_bit 4 (of_nat ?n) OR tc_reserved h"
    by (simp_all add: d_def tcp_segment_def nums be16_def nth_append word_at_def)
  have "unat (drop_bit 4 (d ! (?off + 12))) * 4 = 20 + length (tc_options h)"
    using assms(1) options_words [of "tc_options h"] data_offset [of ?n "tc_reserved h"] loads(3) by (simp add: tcp_ok_def)
  then show ?thesis
    using assms len loads(1,2) seg unfolding d_def [symmetric]
    by (simp add: parse_transport_def Let_def tcp_ok_def flags_ok_def)
qed

text \<open>A TCP packet on the wire.\<close>

definition tcp4_packet :: "bytes \<Rightarrow> (u16 \<times> u16) list \<Rightarrow> ipv4 \<Rightarrow> tcp \<Rightarrow> bytes \<Rightarrow> bytes \<Rightarrow> bytes" where
  "tcp4_packet macs tags h t payload pad = ethernet macs tags 0x0800 (ipv4_packet h 6 (tcp_segment t payload) @ pad)"

definition tcp4_ok :: "bytes \<Rightarrow> (u16 \<times> u16) list \<Rightarrow> ipv4 \<Rightarrow> tcp \<Rightarrow> bytes \<Rightarrow> bool" where
  "tcp4_ok macs tags h t payload \<longleftrightarrow> length macs = 12 \<and> tags_ok tags \<and> ipv4_ok h (tcp_segment t payload) \<and>
     i4_frag h AND 0x3fff = 0 \<and> tcp_ok t"

lemma parse_tcp4:
  fixes pad :: bytes
  assumes "tcp4_ok macs tags h t payload"
  defines "d \<equiv> tcp4_packet macs tags h t payload pad"
  shows "\<exists>p. parse_ip d packet_zero = Some (0, p) \<and> px_src p = v4_host (i4_src h) \<and> px_dst p = v4_host (i4_dst h) \<and> px_proto p = 6 \<and>
    \<not> px_fragment p \<and> \<not> px_deferred p \<and> parse_transport d p = Some (0, p\<lparr>px_port := tc_dport t, px_flags := tc_flags t\<rparr>)"
proof -
  let ?seg = "tcp_segment t payload"
  let ?eth = "ethernet macs tags 0x0800 (ipv4_packet h 6 ?seg @ pad)"
  from assms(1) have ok: "length macs = 12" "tags_ok tags" "ipv4_ok h ?seg" "i4_frag h AND 0x3fff = 0" "tcp_ok t"
    by (auto simp: tcp4_ok_def)
  note eth = ethernet_ip_at [OF ok(1,2), of "0x0800" "ipv4_packet h 6 ?seg @ pad"]
  from eth(3) obtain pre where pre: "?eth = pre @ ipv4_packet h 6 ?seg @ pad" "length pre = 14 + 4 * length tags" by blast
  let ?p = "ipv4_fields (length pre) h 6 ?seg"
  have ip: "parse_ip d packet_zero = Some (0, ?p)"
    unfolding d_def tcp4_packet_def parse_ip_ipv4 [OF eth(1,2)]
    using parse_ipv4_packet [OF ok(3), of pre 6 pad] pre by simp
  let ?hdr = "ipv4_header h 6 (length ?seg)"
  have hdr: "length ?hdr = 20 + length (i4_options h)" using ok(3) by (simp add: ipv4_header_def ipv4_ok_def)
  have "length pre \<le> 22" "length (i4_options h) \<le> 40"
    using pre(2) ok(2,3) by (auto simp: tags_ok_def ipv4_ok_def options_ok_def)
  then have "parse_transport ((pre @ ?hdr) @ ?seg @ pad) ?p = Some (0, ?p\<lparr>px_port := tc_dport t, px_flags := tc_flags t\<rparr>)"
    using ok(4) hdr by (intro parse_transport_tcp ok(5)) (simp_all add: ipv4_fields_def packet_zero_def)
  with ip pre(1) ok(4) show ?thesis
    by (intro exI [of _ ?p]) (simp add: d_def tcp4_packet_def ipv4_packet_def ipv4_fields_def packet_zero_def)
qed

section \<open>The verdict on TCP packets\<close>

text \<open>The rules for a TCP packet, in the order of their precedence, on its fields.\<close>

definition tcp_reason :: "'m lpm_ops \<Rightarrow> 'm xdp_maps \<Rightarrow> xdp_config \<Rightarrow> bytes \<Rightarrow> bytes \<Rightarrow> u16 \<Rightarrow> byte \<Rightarrow> u64 \<Rightarrow> nat" where
  "tcp_reason ops x c src dst port flags now =
     (case (lpm_lookup ops (xm_owned x) (v4_host dst), xm_ports x (ucast port)) of
        (Some _, Some policy) \<Rightarrow>
          if policy AND PORT_DROP_TCP \<noteq> 0 then nat R_BLOCKED_PORT
          else if policy AND PORT_PROTECT_TCP = 0 then 0
          else if flags AND 0x12 = 0x02 \<and> xc_abi c = XDDP_ABI \<and> xc_mode c = 3 \<and> now < xc_lease_ns c then nat R_EMERGENCY_SYN
          else (case (lpm_lookup ops (xm_allow x) (v4_host src), lpm_lookup ops (xm_block x) (v4_host src)) of
              (Some _, _) \<Rightarrow> 0
            | (None, Some deny) \<Rightarrow> nat (if deny = 5 then R_BOGON else R_MANUAL_BLOCK)
            | (None, None) \<Rightarrow> if flags AND 0x12 = 0x02 \<and> \<not> fst (syn_allowed c (xm_syn_budget x) now) then nat R_SYN_RATE else 0)
      | _ \<Rightarrow> 0)"

lemma xddp_why_tcp4:
  assumes "tcp4_ok macs tags h t payload" "xm_configuration x = Some c"
  shows "\<exists>s' b. xddp_why ops x (tcp4_packet macs tags h t payload pad) s now =
      Some (int (tcp_reason ops x c (i4_src h) (i4_dst h) (tc_dport t) (tc_flags t) now), s', b) \<and> same_verdicts s s'"
proof -
  obtain p where p: "parse_ip (tcp4_packet macs tags h t payload pad) packet_zero = Some (0, p)"
    "px_src p = v4_host (i4_src h)" "px_dst p = v4_host (i4_dst h)" "px_proto p = 6" "\<not> px_fragment p" "\<not> px_deferred p"
    "parse_transport (tcp4_packet macs tags h t payload pad) p = Some (0, p\<lparr>px_port := tc_dport t, px_flags := tc_flags t\<rparr>)"
    using parse_tcp4 [OF assms(1)] by blast
  have family: "pk_family (px_dst p) = 4" by (simp add: p(3) v4_host_def)
  show ?thesis
  proof (cases "lpm_lookup ops (xm_owned x) (v4_host (i4_dst h)) = None \<or> xm_ports x (ucast (tc_dport t)) = None")
    case True
    then show ?thesis
      using p family assms(2)
      by (auto simp: xddp_why_def xddp_ip_def xddp_count_def xddp_transport_def Let_def xdp_owned_def tcp_reason_def same_verdicts_def
        split: option.splits)
  next
    case False
    then obtain own policy where "lpm_lookup ops (xm_owned x) (v4_host (i4_dst h)) = Some own" "xm_ports x (ucast (tc_dport t)) = Some policy"
      by auto
    with p family assms(2) show ?thesis
      by (simp add: xddp_why_def xddp_ip_def xddp_count_def xddp_transport_def Let_def xdp_owned_def tcp_reason_def same_verdicts_def xddp_tcp_def is_syn_def
        split: option.split prod.split)
  qed
qed

lemma xddp_tcp4:
  assumes "tcp4_ok macs tags h t payload" "xm_configuration x = Some c" "xm_counters x = Some s"
    and why: "why = tcp_reason ops x c (i4_src h) (i4_dst h) (tc_dport t) (tc_flags t) now"
    and d: "d = tcp4_packet macs tags h t payload pad"
  shows "\<exists>action x' s'. xddp ops x d now = Some (action, x') \<and> xm_counters x' = Some s' \<and> counted d s action why s' \<and>
    (action = XDP_DROP \<longleftrightarrow> why \<noteq> 0 \<and> enforcing (Some c) now)"
proof -
  let ?s = "s\<lparr>st_rx_packets := st_rx_packets s + 1, st_rx_bytes := st_rx_bytes s + of_nat (length d)\<rparr>"
  obtain s' b where w: "xddp_why ops x d ?s now = Some (int why, s', b)" "same_verdicts ?s s'"
    using xddp_why_tcp4 [OF assms(1,2)] unfolding why d by blast
  then have small: "why < 14" using xddp_why_ok [of ops x d ?s now] by (auto simp: why_ok_def)
  obtain action s'' where r: "xdp_result s' (Some c) (int why) now = (action, s'')" by fastforce
  with w(2) small have "counted d s action why s''" "action = XDP_DROP \<longleftrightarrow> why \<noteq> 0 \<and> enforcing (Some c) now"
    by (auto simp: xdp_result_def Let_def same_verdicts_def counted_def enforcing_def split: if_splits)
  with assms(2,3) w(1) r show ?thesis by (simp add: xddp_def)
qed

text \<open>
  C13: The verdict on TCP traffic: whatever the addresses, VLAN tags (up to two), IP and TCP
  options, payload and padding of a well-formed unfragmented TCP packet over IPv4, the
  program finds its destination, source, port and flags and applies the rules in their
  order of precedence: only owned destinations, a closed port before everything, the freeze
  of EMERGENCY before the allow list, the allow list before the block list, and the SYN
  budget last. The candidate reason is counted, and the packet dropped in enforcement.
\<close>

theorem xdp_tcp_verdict:
  assumes "tcp4_ok macs tags h t payload" "xm_configuration x = Some c" "xm_counters x = Some s"
    and "why = tcp_reason ops x c (i4_src h) (i4_dst h) (tc_dport t) (tc_flags t) now"
    and "d = tcp4_packet macs tags h t payload pad"
  shows "\<exists>action x' s'. xddp ops x d now = Some (action, x') \<and> xm_counters x' = Some s' \<and> counted d s action why s' \<and>
    (action = XDP_DROP \<longleftrightarrow> why \<noteq> 0 \<and> enforcing (Some c) now)"
  using assms by (rule xddp_tcp4)

definition demo_ipv4 :: "bytes \<Rightarrow> ipv4" where
  "demo_ipv4 src = \<lparr>i4_tos = 0, i4_id = 7, i4_frag = 0x4000, i4_ttl = 64, i4_checksum = 0, i4_src = src, i4_dst = [192, 0, 2, 1],
     i4_options = [1, 1, 1, 0]\<rparr>"

definition demo_tcp :: "byte \<Rightarrow> tcp" where
  "demo_tcp flags = \<lparr>tc_sport = 12345, tc_dport = 25565, tc_seq = [0, 0, 0, 1], tc_ack = [0, 0, 0, 1], tc_reserved = 0, tc_flags = flags,
     tc_window = 0xFFFF, tc_checksum = 0, tc_urgent = 0, tc_options = [2, 4, 5, 0xB4]\<rparr>"

lemma demo_tcp4_ok: "flags_ok flags \<Longrightarrow> length src = 4 \<Longrightarrow>
    tcp4_ok (replicate 12 0) [(0x8100, 5)] (demo_ipv4 src) (demo_tcp flags) [9]"
  by (simp add: tcp4_ok_def tags_ok_def is_vlan_def ipv4_ok_def tcp_ok_def demo_ipv4_def demo_tcp_def options_ok_def
    tcp_segment_def)

lemma live_maps_sel: "xm_configuration (live_maps m) = Some (live_config m)" "xm_counters (live_maps m) = Some zero_stats"
  by (simp_all add: live_maps_def)

lemma live_enforcing: "now < 1000 \<Longrightarrow> enforcing (Some (live_config m)) now"
  by (simp add: enforcing_def live_config_def)

text \<open>A tagged packet with options from the bogon network of \<open>live_maps\<close>.\<close>

theorem xdp_tcp_verdict_witness:
  "\<exists>x'. xddp lpm_list_ops (live_maps 0)
     (tcp4_packet (replicate 12 0) [(0x8100, 5)] (demo_ipv4 [10, 1, 2, 3]) (demo_tcp 0x10) [9] [0, 0]) 5 = Some (XDP_DROP, x')"
proof -
  have why: "5 = tcp_reason lpm_list_ops (live_maps 0) (live_config 0) (i4_src (demo_ipv4 [10, 1, 2, 3])) (i4_dst (demo_ipv4 [10, 1, 2, 3]))
      (tc_dport (demo_tcp 0x10)) (tc_flags (demo_tcp 0x10)) 5" by code_simp
  have ok: "tcp4_ok (replicate 12 0) [(0x8100, 5)] (demo_ipv4 [10, 1, 2, 3]) (demo_tcp 0x10) [9]"
    by (rule demo_tcp4_ok) (simp_all add: flags_ok_def)
  from xdp_tcp_verdict [OF ok live_maps_sel why refl, of "[0, 0]"] live_enforcing [of 5 0] show ?thesis by auto
qed



end
