(* ===== verification/Loader.thy ===== *)
theory Loader
  imports Xdp_Filter Text
begin

text \<open>
  The loader (\<^verbatim>\<open>src/xdp/loader.c\<close>), as far as it changes the maps of the XDP program: parsing of
  numbers, prefixes and policy rows, the reconciliation of the maps with a policy, and the commands
  that set the configuration, a port or a prefix. Text is \<^typ>\<open>string\<close>, one character per byte.
  \<^verbatim>\<open>inet_pton\<close> is the parameter \<open>pton\<close> and the prefix maps are the kernel's (\<open>ops\<close>). A command
  returns the maps as it leaves them with the way it exits, \<open>None\<close> when it succeeds. That the pinned
  objects of the generation exist and fit the schema is the parameter \<open>gen\<close>.
\<close>

section \<open>Arguments\<close>

text \<open>\<^verbatim>\<open>require\<close> exits with status 2, \<^verbatim>\<open>die\<close> with 1.\<close>

datatype exit_code = Require | Die

definition is_digit :: "char \<Rightarrow> bool" where
  "is_digit c \<longleftrightarrow> 48 \<le> (of_char c :: nat) \<and> (of_char c :: nat) \<le> 57"

definition is_space :: "char \<Rightarrow> bool" where
  "is_space c \<longleftrightarrow> c = CHR '' '' \<or> 9 \<le> (of_char c :: nat) \<and> (of_char c :: nat) \<le> 13"

text \<open>
  The first character is a digit, so that \<^verbatim>\<open>strtoull\<close> reads neither space nor sign; it stops at
  the first other character and reports a number of more than 64 bits.
\<close>

definition number :: "string \<Rightarrow> nat \<Rightarrow> exit_code + nat" where
  "number s maximum =
     (if s \<noteq> [] \<and> list_all is_digit s \<and> text_nat s < 2 ^ 64 \<and> text_nat s \<le> maximum then Inr (text_nat s) else Inl Require)"

text \<open>The loop that clears the host bits from bit \<open>bits\<close> on.\<close>

definition mask_addr :: "nat \<Rightarrow> nat \<Rightarrow> bytes \<Rightarrow> bytes" where
  "mask_addr bits width addr =
     fold (\<lambda>i addr. addr[i div 8 := addr ! (i div 8) AND NOT (push_bit (7 - i mod 8) 1)]) [bits..<width] addr"

definition loader_prefix_key :: "(nat \<Rightarrow> string \<Rightarrow> bytes option) \<Rightarrow> string \<Rightarrow> exit_code + prefix_key" where
  "loader_prefix_key pton cidr =
     (if length cidr \<ge> 128 then Inl Require
      else
        let text = takeWhile (\<lambda>c. c \<noteq> CHR ''/'') cidr;
            slash = dropWhile (\<lambda>c. c \<noteq> CHR ''/'') cidr;
            family = (if CHR '':'' \<in> set cidr then 6 else 4);
            width = (if family = 4 then 32 else 128)
        in bind_result (if slash = [] then Inr width else number (tl slash) width) (\<lambda>bits.
           case pton family text of
             None \<Rightarrow> Inl Require
           | Some addr \<Rightarrow> Inr \<lparr>pk_prefixlen = of_nat (32 + bits), pk_family = of_nat family,
               pk_addr = mask_addr bits width (copy_front (replicate 16 0) addr)\<rparr>))"

section \<open>Policy rows\<close>

text \<open>\<^verbatim>\<open>%<n>s\<close> of \<^verbatim>\<open>sscanf\<close>: skip white space, then take at most \<open>n\<close> other characters.\<close>

definition scan_token :: "nat \<Rightarrow> string \<Rightarrow> (string \<times> string) option" where
  "scan_token n s =
     (let s = dropWhile is_space s; t = take n (takeWhile (\<lambda>c. \<not> is_space c) s)
      in if s = [] then None else Some (t, drop (length t) s))"

fun scan_tokens :: "nat list \<Rightarrow> string \<Rightarrow> string list" where
  "scan_tokens [] s = []"
| "scan_tokens (n # ns) s = (case scan_token n s of None \<Rightarrow> [] | Some (t, rest) \<Rightarrow> t # scan_tokens ns rest)"

text \<open>The parsed policy: flags by port, and the entries of the three prefix maps in their order.\<close>

record parsed =
  pr_ports :: "nat \<Rightarrow> nat"
  pr_owned :: "(prefix_key \<times> nat) list"
  pr_allow :: "(prefix_key \<times> nat) list"
  pr_block :: "(prefix_key \<times> nat) list"

definition parsed_empty :: parsed where
  "parsed_empty = \<lparr>pr_ports = \<lambda>_. 0, pr_owned = [], pr_allow = [], pr_block = []\<rparr>"

definition port_row :: "parsed \<Rightarrow> string \<Rightarrow> string \<Rightarrow> exit_code + parsed" where
  "port_row pr key val =
     bind_result (number key 65535) (\<lambda>port. bind_result (number val 7) (\<lambda>flags.
       if port \<noteq> 0 \<and> flags \<noteq> 0 \<and> flags AND 3 \<noteq> 3 \<and> pr_ports pr port = 0
       then Inr (pr\<lparr>pr_ports := (pr_ports pr)(port := flags)\<rparr>) else Inl Require))"

definition prefix_row :: "(nat \<Rightarrow> string \<Rightarrow> bytes option) \<Rightarrow> (prefix_key \<times> nat) list \<Rightarrow> string \<Rightarrow> string
    \<Rightarrow> exit_code + (prefix_key \<times> nat) list" where
  "prefix_row pton entries key val =
     (if \<not> length entries < PREFIX_CAP then Inl Require
      else bind_result (loader_prefix_key pton key) (\<lambda>k. bind_result (number val 13) (\<lambda>reason.
        if list_all (\<lambda>(e, _). e \<noteq> k) entries then Inr (entries @ [(k, reason)]) else Inl Require)))"

definition policy_row :: "(nat \<Rightarrow> string \<Rightarrow> bytes option) \<Rightarrow> parsed \<Rightarrow> string \<Rightarrow> exit_code + parsed" where
  "policy_row pton pr line =
     (case scan_tokens [15, 127, 31, 1] line of
        [name, key, val] \<Rightarrow>
          if name = ''port'' then port_row pr key val
          else if name = ''owned'' then bind_result (prefix_row pton (pr_owned pr) key val) (\<lambda>es. Inr (pr\<lparr>pr_owned := es\<rparr>))
          else if name = ''allow'' then bind_result (prefix_row pton (pr_allow pr) key val) (\<lambda>es. Inr (pr\<lparr>pr_allow := es\<rparr>))
          else if name = ''block'' then bind_result (prefix_row pton (pr_block pr) key val) (\<lambda>es. Inr (pr\<lparr>pr_block := es\<rparr>))
          else Inl Require
      | _ \<Rightarrow> Inl Require)"

text \<open>
  \<^verbatim>\<open>fgets\<close> into a buffer of 160 bytes: up to the line break, at most 159 characters. The length is that of
  the C string, up to the first zero byte.
\<close>

definition fgets_line :: "string \<Rightarrow> string" where
  "fgets_line s = take 159 (case dropWhile (\<lambda>c. c \<noteq> CHR 0x0A) s of
     [] \<Rightarrow> takeWhile (\<lambda>c. c \<noteq> CHR 0x0A) s | c # _ \<Rightarrow> takeWhile (\<lambda>c. c \<noteq> CHR 0x0A) s @ [c])"

lemma fgets_line_progress: "s \<noteq> [] \<Longrightarrow> fgets_line s \<noteq> []"
  by (cases s) (auto simp: fgets_line_def split: list.split)

definition c_string :: "string \<Rightarrow> string" where
  "c_string s = takeWhile (\<lambda>c. c \<noteq> CHR 0x00) s"

function policy_rows :: "(nat \<Rightarrow> string \<Rightarrow> bytes option) \<Rightarrow> nat \<Rightarrow> parsed \<Rightarrow> string \<Rightarrow> exit_code + parsed" where
  "policy_rows pton used pr input =
     (if input = [] then Inr pr
      else
        let line = c_string (fgets_line input);
            used = used + length line
        in if \<not> (used \<le> 4 * 1024 * 1024 \<and> line \<noteq> [] \<and> last line = CHR 0x0A) then Inl Require
           else bind_result (if length line = 1 then Inr pr else policy_row pton pr line) (\<lambda>pr.
                policy_rows pton used pr (drop (length (fgets_line input)) input)))"
  by pat_completeness auto
termination
  by (relation "measure (\<lambda>(pton, used, pr, input). length input)") (use fgets_line_progress in auto)

declare policy_rows.simps [simp del]

section \<open>Map updates\<close>

text \<open>The writes to the ports: an entry that has the value already is left alone.\<close>

fun port_writes :: "(nat \<Rightarrow> nat) \<Rightarrow> nat list \<Rightarrow> (u32 \<rightharpoonup> u32) \<Rightarrow> exit_code option \<times> (u32 \<rightharpoonup> u32)" where
  "port_writes flags [] m = (None, m)"
| "port_writes flags (k # ks) m =
     (case m (of_nat k) of
        None \<Rightarrow> (Some Die, m)
      | Some previous \<Rightarrow>
          port_writes flags ks (if previous \<noteq> of_nat (flags k) then m(of_nat k \<mapsto> of_nat (flags k)) else m))"

text \<open>\<^verbatim>\<open>clear_map\<close> of a prefix map: at most \<open>PREFIX_CAP + 1\<close> rounds.\<close>

fun clear_prefixes :: "'m lpm_ops \<Rightarrow> nat \<Rightarrow> 'm \<Rightarrow> exit_code option \<times> 'm" where
  "clear_prefixes ops 0 m = (None, m)"
| "clear_prefixes ops (Suc n) m =
     (case lpm_first ops m of
        Inl e \<Rightarrow> (if e \<noteq> ENOENT then Some Die else None, m)
      | Inr k \<Rightarrow> (case lpm_delete ops m k of Inl e \<Rightarrow> (Some Die, m) | Inr m \<Rightarrow> clear_prefixes ops n m))"

fun fill_prefixes :: "'m lpm_ops \<Rightarrow> (prefix_key \<times> nat) list \<Rightarrow> 'm \<Rightarrow> exit_code option \<times> 'm" where
  "fill_prefixes ops [] m = (None, m)"
| "fill_prefixes ops ((k, v) # es) m =
     (case lpm_update ops m k (of_nat v) of Inl e \<Rightarrow> (Some Die, m) | Inr m \<Rightarrow> fill_prefixes ops es m)"

definition replace_prefixes :: "'m lpm_ops \<Rightarrow> (prefix_key \<times> nat) list \<Rightarrow> 'm \<Rightarrow> exit_code option \<times> 'm" where
  "replace_prefixes ops es m =
     (case clear_prefixes ops (PREFIX_CAP + 1) m of (Some e, m) \<Rightarrow> (Some e, m) | (None, m) \<Rightarrow> fill_prefixes ops es m)"

definition reconcile :: "'m lpm_ops \<Rightarrow> parsed \<Rightarrow> 'm xdp_maps \<Rightarrow> exit_code option \<times> 'm xdp_maps" where
  "reconcile ops pr x =
     (case port_writes (pr_ports pr) [0..<65536] (xm_ports x) of (e, ports) \<Rightarrow>
        let x = x\<lparr>xm_ports := ports\<rparr> in if e \<noteq> None then (e, x) else
      case replace_prefixes ops (pr_owned pr) (xm_owned x) of (e, owned) \<Rightarrow>
        let x = x\<lparr>xm_owned := owned\<rparr> in if e \<noteq> None then (e, x) else
      case replace_prefixes ops (pr_allow pr) (xm_allow x) of (e, allow) \<Rightarrow>
        let x = x\<lparr>xm_allow := allow\<rparr> in if e \<noteq> None then (e, x) else
      case replace_prefixes ops (pr_block pr) (xm_block x) of (e, block) \<Rightarrow> (e, x\<lparr>xm_block := block\<rparr>))"

text \<open>
  The command \<^verbatim>\<open>policy\<close>: everything is parsed and validated, the generation is checked and the lease
  must have been withdrawn before the first write.
\<close>

definition loader_policy_cmd :: "'m lpm_ops \<Rightarrow> (nat \<Rightarrow> string \<Rightarrow> bytes option) \<Rightarrow> exit_code option \<Rightarrow> string
    \<Rightarrow> 'm xdp_maps \<Rightarrow> exit_code option \<times> 'm xdp_maps" where
  "loader_policy_cmd ops pton gen input x =
     (case policy_rows pton 0 parsed_empty input of
        Inl e \<Rightarrow> (Some e, x)
      | Inr pr \<Rightarrow>
          if gen \<noteq> None then (gen, x)
          else case xm_configuration x of
            None \<Rightarrow> (Some Die, x)
          | Some c \<Rightarrow> if xc_lease_ns c \<noteq> 0 then (Some Require, x) else reconcile ops pr x)"

text \<open>The command \<^verbatim>\<open>config\<close>, on its arguments.\<close>

definition loader_config_cmd :: "exit_code option \<Rightarrow> string list \<Rightarrow> 'm xdp_maps \<Rightarrow> exit_code option \<times> 'm xdp_maps" where
  "loader_config_cmd gen args x =
     (case args of
        [lease, observe, mode, ipv6, frag, rate, burst, abi] \<Rightarrow>
          if gen \<noteq> None then (gen, x)
          else case
            bind_result (number lease (2 ^ 64 - 1)) (\<lambda>lease. bind_result (number observe 1) (\<lambda>observe.
            bind_result (number mode 3) (\<lambda>mode. bind_result (number ipv6 1) (\<lambda>ipv6.
            bind_result (number frag 1) (\<lambda>frag. bind_result (number rate 1000000000) (\<lambda>rate.
            bind_result (number burst 1000000) (\<lambda>burst. bind_result (number abi (2 ^ 32 - 1)) (\<lambda>abi.
              if abi = 2 \<and> (rate = 0 \<longleftrightarrow> burst = 0)
              then Inr \<lparr>xc_lease_ns = of_nat lease, xc_abi = XDDP_ABI, xc_observe = of_nat observe, xc_mode = of_nat mode,
                xc_ipv6 = of_nat ipv6, xc_drop_tcp_fragments = of_nat frag, xc_syn_rate = of_nat rate, xc_syn_burst = of_nat burst\<rparr>
              else Inl Require))))))))
          of Inl e \<Rightarrow> (Some e, x) | Inr c \<Rightarrow> (None, x\<lparr>xm_configuration := Some c\<rparr>)
      | _ \<Rightarrow> (Some Require, x))"

text \<open>The commands \<^verbatim>\<open>port\<close> and \<^verbatim>\<open>prefix\<close>.\<close>

definition loader_port_cmd :: "exit_code option \<Rightarrow> string \<Rightarrow> string \<Rightarrow> 'm xdp_maps \<Rightarrow> exit_code option \<times> 'm xdp_maps" where
  "loader_port_cmd gen key val x =
     (if gen \<noteq> None then (gen, x)
      else case bind_result (number key 65535) (\<lambda>k. bind_result (number val 7) (\<lambda>v.
          if k \<noteq> 0 \<and> v AND 3 \<noteq> 3 then Inr (k, v) else Inl Require)) of
        Inl e \<Rightarrow> (Some e, x)
      | Inr (k, v) \<Rightarrow> (None, x\<lparr>xm_ports := (xm_ports x)(of_nat k \<mapsto> of_nat v)\<rparr>))"

text \<open>The command \<^verbatim>\<open>clear\<close>.\<close>

definition loader_clear_cmd :: "'m lpm_ops \<Rightarrow> exit_code option \<Rightarrow> string \<Rightarrow> 'm xdp_maps \<Rightarrow> exit_code option \<times> 'm xdp_maps" where
  "loader_clear_cmd ops gen name x =
     (if name \<notin> {''ports'', ''owned'', ''allow'', ''block''} then (Some Require, x)
      else if gen \<noteq> None then (gen, x)
      else if name = ''ports'' then (None, x\<lparr>xm_ports := fold (\<lambda>k m. m(of_nat k \<mapsto> 0)) [0..<65536] (xm_ports x)\<rparr>)
      else if name = ''owned'' then (case clear_prefixes ops (PREFIX_CAP + 1) (xm_owned x) of (e, m) \<Rightarrow> (e, x\<lparr>xm_owned := m\<rparr>))
      else if name = ''allow'' then (case clear_prefixes ops (PREFIX_CAP + 1) (xm_allow x) of (e, m) \<Rightarrow> (e, x\<lparr>xm_allow := m\<rparr>))
      else (case clear_prefixes ops (PREFIX_CAP + 1) (xm_block x) of (e, m) \<Rightarrow> (e, x\<lparr>xm_block := m\<rparr>)))"

definition prefix_change :: "'m lpm_ops \<Rightarrow> (nat \<Rightarrow> string \<Rightarrow> bytes option) \<Rightarrow> string \<Rightarrow> string \<Rightarrow> string \<Rightarrow> 'm \<Rightarrow> exit_code option \<times> 'm" where
  "prefix_change ops pton action cidr val m =
     (case loader_prefix_key pton cidr of
        Inl e \<Rightarrow> (Some e, m)
      | Inr k \<Rightarrow>
          if action = ''add'' then
            (case number val 13 of
               Inl e \<Rightarrow> (Some e, m)
             | Inr v \<Rightarrow> (case lpm_update ops m k (of_nat v) of Inl e \<Rightarrow> (Some Die, m) | Inr m \<Rightarrow> (None, m)))
          else if action = ''del'' then
            (case lpm_delete ops m k of Inl e \<Rightarrow> (if e \<noteq> ENOENT then Some Die else None, m) | Inr m \<Rightarrow> (None, m))
          else (Some Require, m))"

definition loader_prefix_cmd :: "'m lpm_ops \<Rightarrow> (nat \<Rightarrow> string \<Rightarrow> bytes option) \<Rightarrow> exit_code option \<Rightarrow> string \<Rightarrow> string \<Rightarrow> string \<Rightarrow> string
    \<Rightarrow> 'm xdp_maps \<Rightarrow> exit_code option \<times> 'm xdp_maps" where
  "loader_prefix_cmd ops pton gen name action cidr val x =
     (if name \<notin> {''owned'', ''allow'', ''block''} then (Some Require, x)
      else if gen \<noteq> None then (gen, x)
      else if name = ''owned'' then
        (case prefix_change ops pton action cidr val (xm_owned x) of (e, m) \<Rightarrow> (e, x\<lparr>xm_owned := m\<rparr>))
      else if name = ''allow'' then
        (case prefix_change ops pton action cidr val (xm_allow x) of (e, m) \<Rightarrow> (e, x\<lparr>xm_allow := m\<rparr>))
      else (case prefix_change ops pton action cidr val (xm_block x) of (e, m) \<Rightarrow> (e, x\<lparr>xm_block := m\<rparr>)))"

end
