(* ===== verification/Controller_Policy.thy ===== *)
theory Controller_Policy
  imports Loader Xdp_Wire "HOL-Library.Char_ord" "HOL-Library.List_Lexorder"
begin

text \<open>
  The static policy that the controller hands to the loader (\<^verbatim>\<open>src/controller/policy.py\<close>): its text,
  and that the loader reads exactly that policy back and installs it.
\<close>

section \<open>The document\<close>

record policy_cfg =
  pc_protected_tcp_ports :: "nat list"
  pc_drop_tcp_ports :: "nat list"
  pc_drop_udp_ports :: "nat list"
  pc_owned_prefixes :: "string list"
  pc_allow_prefixes :: "string list"
  pc_block_prefixes :: "string list"
  pc_bogon_prefixes :: "string list"

text \<open>\<^verbatim>\<open>ports[port] = ports.get(port, 0) | flag\<close> for every port of the list.\<close>

definition add_flags :: "nat \<Rightarrow> nat list \<Rightarrow> (nat \<rightharpoonup> nat) \<Rightarrow> (nat \<rightharpoonup> nat)" where
  "add_flags flag ports m =
     fold (\<lambda>port m. m(port \<mapsto> (case m port of None \<Rightarrow> 0 | Some f \<Rightarrow> f) OR flag)) ports m"

definition port_dict :: "policy_cfg \<Rightarrow> (nat \<rightharpoonup> nat)" where
  "port_dict cfg =
     add_flags 4 (pc_drop_udp_ports cfg) (add_flags 2 (pc_drop_tcp_ports cfg) (add_flags 1 (pc_protected_tcp_ports cfg) Map.empty))"

text \<open>\<^verbatim>\<open>sorted\<close> on the keys of a dictionary that was built from the list.\<close>

definition sorted_keys :: "'a :: linorder list \<Rightarrow> 'a list" where
  "sorted_keys xs = sort (remdups xs)"

definition port_lines :: "policy_cfg \<Rightarrow> string list" where
  "port_lines cfg = map (\<lambda>p. ''port '' @ to_text p @ '' '' @ to_text (the (port_dict cfg p)))
     (sorted_keys (pc_protected_tcp_ports cfg @ pc_drop_tcp_ports cfg @ pc_drop_udp_ports cfg))"

definition prefix_lines :: "string \<Rightarrow> (string \<Rightarrow> nat) \<Rightarrow> string list \<Rightarrow> string list" where
  "prefix_lines name reason prefixes =
     map (\<lambda>p. name @ '' '' @ p @ '' '' @ to_text (reason p)) (sorted_keys prefixes)"

text \<open>The reason of a blocked prefix: a manual block overrides a bogon.\<close>

definition block_reason :: "policy_cfg \<Rightarrow> string \<Rightarrow> nat" where
  "block_reason cfg p = (if p \<in> set (pc_block_prefixes cfg) then 11 else 5)"

definition policy_lines :: "policy_cfg \<Rightarrow> string list" where
  "policy_lines cfg = port_lines cfg @ prefix_lines ''owned'' (\<lambda>_. 1) (pc_owned_prefixes cfg) @
     prefix_lines ''allow'' (\<lambda>_. 1) (pc_allow_prefixes cfg) @
     prefix_lines ''block'' (block_reason cfg) (pc_bogon_prefixes cfg @ pc_block_prefixes cfg)"

text \<open>\<^verbatim>\<open>"\n".join(lines) + "\n"\<close>.\<close>

fun join_lines :: "string list \<Rightarrow> string" where
  "join_lines [] = [CHR 0x0A]"
| "join_lines [l] = l @ [CHR 0x0A]"
| "join_lines (l # ls) = l @ [CHR 0x0A] @ join_lines ls"

text \<open>\<open>None\<close> is the \<^verbatim>\<open>ValueError\<close>.\<close>

definition loader_policy :: "policy_cfg \<Rightarrow> string option" where
  "loader_policy cfg =
     (let document = join_lines (policy_lines cfg) in if length document > 4 * 1024 * 1024 then None else Some document)"

section \<open>Reading numbers and rows\<close>

lemma to_text_digit: "c \<in> set (to_text n) \<Longrightarrow> is_digit c"
  using to_text_digits [of n] by (auto simp: is_digit_def of_char_of take_bit_nat_eq_self)

lemma to_text_nonempty [simp]: "to_text n \<noteq> []"
  by (subst to_text_rec) simp

lemma number_to_text [simp]: "n \<le> maximum \<Longrightarrow> maximum < 2 ^ 64 \<Longrightarrow> number (to_text n) maximum = Inr n"
  using to_text_digit by (auto simp: number_def list_all_iff)

text \<open>A word of a row: no white space and no zero byte.\<close>

definition plain :: "string \<Rightarrow> bool" where
  "plain s \<longleftrightarrow> s \<noteq> [] \<and> list_all (\<lambda>c. \<not> is_space c \<and> c \<noteq> CHR 0x00) s"

lemma plain_to_text [simp]: "plain (to_text n)"
proof -
  have "\<not> is_space c \<and> c \<noteq> CHR 0x00" if "is_digit c" for c
    using that by (auto simp: is_digit_def is_space_def)
  then show ?thesis using to_text_digit [of _ n] by (auto simp: plain_def list_all_iff)
qed

lemma scan_token_word:
  assumes "plain w" "length w \<le> n" "is_space sep"
  shows "scan_token n (w @ sep # rest) = Some (w, sep # rest)"
proof -
  from assms(1) obtain c w' where w: "w = c # w'" "\<not> is_space c" by (cases w) (auto simp: plain_def)
  have "takeWhile (\<lambda>c. \<not> is_space c) (w @ sep # rest) = w"
    using assms(1,3) by (auto simp: plain_def list_all_iff takeWhile_append)
  with w assms(2) show ?thesis by (simp add: scan_token_def Let_def)
qed

lemma scan_token_skip: "is_space sep \<Longrightarrow> scan_token n (sep # s) = scan_token n s"
  by (simp add: scan_token_def)

lemma scan_row:
  assumes "plain a" "plain b" "plain c" "length a \<le> 15" "length b \<le> 127" "length c \<le> 31"
  shows "scan_tokens [15, 127, 31, 1] (a @ '' '' @ b @ '' '' @ c @ [CHR 0x0A]) = [a, b, c]"
proof -
  have sp: "is_space (CHR '' '')" "is_space (CHR 0x0A)" by (simp_all add: is_space_def)
  have "scan_token 1 [CHR 0x0A] = None" by (simp add: scan_token_def sp)
  then show ?thesis
    using assms scan_token_word [OF assms(1,4) sp(1)] scan_token_word [OF assms(2,5) sp(1)] scan_token_word [OF assms(3,6) sp(2), of "[]"]
    by (simp add: scan_token_skip sp)
qed

text \<open>A line of the document: three words, short enough for the loader's buffer.\<close>

definition row :: "string \<Rightarrow> string \<Rightarrow> string \<Rightarrow> string" where
  "row a b c = a @ '' '' @ b @ '' '' @ c"

definition row_ok :: "string \<Rightarrow> bool" where
  "row_ok l \<longleftrightarrow> (\<exists>a b c. l = row a b c \<and> plain a \<and> plain b \<and> plain c \<and> length a \<le> 15 \<and> length b \<le> 127 \<and> length c \<le> 14)"

lemma plain_chars:
  assumes "plain s" "c \<in> set s"
  shows "c \<noteq> CHR 0x0A \<and> c \<noteq> CHR 0x00"
proof -
  have "\<not> is_space c" "c \<noteq> CHR 0x00" using assms unfolding plain_def list_all_iff by blast+
  moreover have "is_space (CHR 0x0A)" by (simp add: is_space_def)
  ultimately show ?thesis by blast
qed

lemma row_ok_line:
  assumes "row_ok l"
  shows "fgets_line (l @ CHR 0x0A # rest) = l @ [CHR 0x0A]" "c_string (l @ [CHR 0x0A]) = l @ [CHR 0x0A]" "l \<noteq> []"
proof -
  from assms obtain a b c where l: "l = row a b c" "plain a" "plain b" "plain c" "length a \<le> 15" "length b \<le> 127" "length c \<le> 14"
    unfolding row_ok_def by blast
  have chars: "\<forall>x \<in> set l. x \<noteq> CHR 0x0A \<and> x \<noteq> CHR 0x00"
  proof
    fix x
    assume "x \<in> set l"
    then consider "x \<in> set a" | "x \<in> set b" | "x \<in> set c" | "x = CHR '' ''" by (auto simp: l(1) row_def)
    then show "x \<noteq> CHR 0x0A \<and> x \<noteq> CHR 0x00"
      by cases (use plain_chars [OF l(2)] plain_chars [OF l(3)] plain_chars [OF l(4)] in simp_all)
  qed
  have "takeWhile (\<lambda>c. c \<noteq> CHR 0x0A) (l @ CHR 0x0A # rest) = l" "dropWhile (\<lambda>c. c \<noteq> CHR 0x0A) (l @ CHR 0x0A # rest) = CHR 0x0A # rest"
    using takeWhile_append2 [of l "\<lambda>c. c \<noteq> CHR 0x0A"] dropWhile_append2 [of l "\<lambda>c. c \<noteq> CHR 0x0A"] chars by simp_all
  moreover have "length l \<le> 158" using l by (simp add: row_def)
  ultimately show "fgets_line (l @ CHR 0x0A # rest) = l @ [CHR 0x0A]" by (simp add: fgets_line_def)
  show "c_string (l @ [CHR 0x0A]) = l @ [CHR 0x0A]" using takeWhile_append2 [of l "\<lambda>c. c \<noteq> CHR 0x00" "[CHR 0x0A]"] chars by (simp add: c_string_def)
  show "l \<noteq> []" by (simp add: l(1) row_def)
qed

text \<open>The rows of a document, one after the other.\<close>

fun apply_rows :: "(nat \<Rightarrow> string \<Rightarrow> bytes option) \<Rightarrow> string list \<Rightarrow> parsed \<Rightarrow> exit_code + parsed" where
  "apply_rows pton [] pr = Inr pr"
| "apply_rows pton (l # ls) pr = bind_result (policy_row pton pr (l @ [CHR 0x0A])) (apply_rows pton ls)"

lemma apply_rows_append: "apply_rows pton (ls @ ms) pr = bind_result (apply_rows pton ls pr) (apply_rows pton ms)"
  by (induction ls arbitrary: pr) (auto simp: bind_result_def split: sum.splits)

lemma policy_rows_lines:
  assumes "list_all row_ok ls" "used + length (concat (map (\<lambda>l. l @ [CHR 0x0A]) ls)) \<le> 4 * 1024 * 1024"
  shows "policy_rows pton used pr (concat (map (\<lambda>l. l @ [CHR 0x0A]) ls)) = apply_rows pton ls pr"
  using assms
proof (induction ls arbitrary: used pr)
  case Nil
  show ?case by (simp add: policy_rows.simps)
next
  case (Cons l ls)
  let ?rest = "concat (map (\<lambda>l. l @ [CHR 0x0A]) ls)"
  have l: "row_ok l" using Cons.prems(1) by simp
  note line = row_ok_line [OF l]
  have IH: "policy_rows pton (used + length (l @ [CHR 0x0A])) pr' ?rest = apply_rows pton ls pr'" for pr'
    using Cons.prems by (intro Cons.IH) simp_all
  have input: "concat (map (\<lambda>l. l @ [CHR 0x0A]) (l # ls)) = l @ CHR 0x0A # ?rest" by simp
  have "length (l @ [CHR 0x0A]) \<noteq> 1" "drop (length (l @ [CHR 0x0A])) (l @ CHR 0x0A # ?rest) = ?rest" using line(3) by simp_all
  then show ?case
    unfolding input policy_rows.simps [of _ _ _ "l @ CHR 0x0A # ?rest"] line(1,2) Let_def
    using Cons.prems(2) IH by (simp add: bind_result_def split: sum.split)
qed

lemma join_lines_concat: "ls \<noteq> [] \<Longrightarrow> join_lines ls = concat (map (\<lambda>l. l @ [CHR 0x0A]) ls)"
  by (induction ls rule: join_lines.induct) auto

lemma policy_rows_join:
  assumes "list_all row_ok ls" "length (join_lines ls) \<le> 4 * 1024 * 1024"
  shows "policy_rows pton 0 pr (join_lines ls) = apply_rows pton ls pr"
proof (cases "ls = []")
  case True
  then show ?thesis
    by (simp add: policy_rows.simps [of _ _ _ "[CHR 0x0A]"] policy_rows.simps [of _ _ _ "[]"] fgets_line_def c_string_def)
next
  case False
  with policy_rows_lines [OF assms(1), of 0] assms(2) show ?thesis by (simp add: join_lines_concat)
qed

section \<open>Ports\<close>

lemma add_flags_eq:
  "add_flags flag ports m p = (if p \<in> set ports then Some ((case m p of None \<Rightarrow> 0 | Some f \<Rightarrow> f) OR flag) else m p)"
  by (induction ports arbitrary: m) (auto simp: add_flags_def or.assoc split: option.splits)

definition flag_if :: "nat \<Rightarrow> nat \<Rightarrow> nat list \<Rightarrow> nat" where
  "flag_if flag p ports = (if p \<in> set ports then flag else 0)"

lemma port_dict_eq:
  "port_dict cfg p = (if p \<in> set (pc_protected_tcp_ports cfg @ pc_drop_tcp_ports cfg @ pc_drop_udp_ports cfg)
     then Some (flag_if 1 p (pc_protected_tcp_ports cfg) OR flag_if 2 p (pc_drop_tcp_ports cfg) OR flag_if 4 p (pc_drop_udp_ports cfg))
     else None)"
  by (auto simp: port_dict_def add_flags_eq flag_if_def or.assoc)

text \<open>What \<^verbatim>\<open>validate\<close> establishes of the static policy.\<close>

definition ports_ok :: "policy_cfg \<Rightarrow> bool" where
  "ports_ok cfg \<longleftrightarrow>
     list_all (\<lambda>p. 1 \<le> p \<and> p \<le> 65535) (pc_protected_tcp_ports cfg @ pc_drop_tcp_ports cfg @ pc_drop_udp_ports cfg) \<and>
     set (pc_protected_tcp_ports cfg) \<inter> set (pc_drop_tcp_ports cfg) = {}"

lemma port_dict_ok:
  assumes "ports_ok cfg" "p \<in> set (pc_protected_tcp_ports cfg @ pc_drop_tcp_ports cfg @ pc_drop_udp_ports cfg)"
  shows "the (port_dict cfg p) \<noteq> 0 \<and> the (port_dict cfg p) \<le> 7 \<and> the (port_dict cfg p) AND 3 \<noteq> 3"
  using assms by (auto simp: port_dict_eq flag_if_def ports_ok_def)

lemma sorted_keys_set [simp]: "set (sorted_keys xs) = set xs" "distinct (sorted_keys xs)"
  by (simp_all add: sorted_keys_def)

lemma policy_row_eq:
  assumes "plain a" "plain b" "plain c" "length a \<le> 15" "length b \<le> 127" "length c \<le> 31"
  shows "policy_row pton pr (row a b c @ [CHR 0x0A]) =
     (if a = ''port'' then port_row pr b c
      else if a = ''owned'' then bind_result (prefix_row pton (pr_owned pr) b c) (\<lambda>es. Inr (pr\<lparr>pr_owned := es\<rparr>))
      else if a = ''allow'' then bind_result (prefix_row pton (pr_allow pr) b c) (\<lambda>es. Inr (pr\<lparr>pr_allow := es\<rparr>))
      else if a = ''block'' then bind_result (prefix_row pton (pr_block pr) b c) (\<lambda>es. Inr (pr\<lparr>pr_block := es\<rparr>))
      else Inl Require)"
  using scan_row [OF assms] by (simp add: policy_row_def row_def)

lemma to_text_length: "n < 10 ^ Suc k \<Longrightarrow> length (to_text n) \<le> Suc k"
  using decimal_length [of n k] by (simp add: to_text_def)

lemma plain_names [simp]: "plain ''port''" "plain ''owned''" "plain ''allow''" "plain ''block''"
  by (simp_all add: plain_def is_space_def)

definition port_text :: "(nat \<Rightarrow> nat) \<Rightarrow> nat \<Rightarrow> string" where
  "port_text f p = row ''port'' (to_text p) (to_text (f p))"

lemma apply_port_rows:
  assumes "distinct ps" "\<forall>p \<in> set ps. 1 \<le> p \<and> p \<le> 65535 \<and> f p \<noteq> 0 \<and> f p \<le> 7 \<and> f p AND 3 \<noteq> 3 \<and> pr_ports pr p = 0"
  shows "apply_rows pton (map (port_text f) ps) pr = Inr (pr\<lparr>pr_ports := \<lambda>q. if q \<in> set ps then f q else pr_ports pr q\<rparr>)"
  using assms
proof (induction ps arbitrary: pr)
  case (Cons p ps)
  have p: "1 \<le> p" "p \<le> 65535" "f p \<noteq> 0" "f p \<le> 7" "f p AND 3 \<noteq> 3" "pr_ports pr p = 0" using Cons.prems(2) by auto
  have len: "length (to_text p) \<le> 127" "length (to_text (f p)) \<le> 31"
    using to_text_length [of p 4] to_text_length [of "f p" 0] p by simp_all
  let ?pr = "pr\<lparr>pr_ports := (pr_ports pr)(p := f p)\<rparr>"
  have "policy_row pton pr (port_text f p @ [CHR 0x0A]) = Inr ?pr"
    unfolding port_text_def using p len by (simp add: policy_row_eq port_row_def)
  moreover have "apply_rows pton (map (port_text f) ps) ?pr = Inr (?pr\<lparr>pr_ports := \<lambda>q. if q \<in> set ps then f q else pr_ports ?pr q\<rparr>)"
    using Cons.prems by (intro Cons.IH) auto
  moreover have "(\<lambda>q. if q \<in> set ps then f q else pr_ports ?pr q) = (\<lambda>q. if q \<in> set (p # ps) then f q else pr_ports pr q)"
    by auto
  ultimately show ?case by simp
qed simp

section \<open>Prefixes\<close>

text \<open>
  What the controller relies on between Python's \<^verbatim>\<open>ipaddress\<close>, which printed the prefixes, and the C
  library's \<^verbatim>\<open>inet_pton\<close>, which reads them: each is one short word that the loader reads as the key \<open>key p\<close>,
  and different prefixes are different entries of a map.
\<close>

definition prefixes_ok :: "(nat \<Rightarrow> string \<Rightarrow> bytes option) \<Rightarrow> (string \<Rightarrow> prefix_key) \<Rightarrow> string list \<Rightarrow> bool" where
  "prefixes_ok pton key ps \<longleftrightarrow> card (set ps) \<le> PREFIX_CAP \<and> (\<forall>p \<in> set ps. \<forall>q \<in> set ps. same_entry (key p) (key q) \<longrightarrow> p = q) \<and>
     list_all (\<lambda>p. plain p \<and> length p \<le> 127 \<and> loader_prefix_key pton p = Inr (key p)) ps"

definition prefix_text :: "string \<Rightarrow> (string \<Rightarrow> nat) \<Rightarrow> string \<Rightarrow> string" where
  "prefix_text name reason p = row name p (to_text (reason p))"

lemma apply_prefix_rows:
  assumes rows: "\<And>pr p c. plain p \<Longrightarrow> length p \<le> 127 \<Longrightarrow> plain c \<Longrightarrow> length c \<le> 31 \<Longrightarrow>
      policy_row pton pr (row name p c @ [CHR 0x0A]) = bind_result (prefix_row pton (get pr) p c) (\<lambda>es. Inr (upd es pr))"
    and upd: "\<And>es pr. get (upd es pr) = es" "\<And>es es' pr. upd es' (upd es pr) = upd es' pr" "\<And>pr. upd (get pr) pr = pr"
    and ps: "distinct ps" "list_all (\<lambda>p. plain p \<and> length p \<le> 127 \<and> loader_prefix_key pton p = Inr (key p)) ps" "inj_on key (set ps)"
    and fresh: "length (get pr) + length ps \<le> PREFIX_CAP" "\<forall>(e, v) \<in> set (get pr). e \<notin> key ` set ps" "\<forall>p. reason p \<le> 13"
  shows "apply_rows pton (map (prefix_text name reason) ps) pr = Inr (upd (get pr @ map (\<lambda>p. (key p, reason p)) ps) pr)"
  using ps fresh(1,2)
proof (induction ps arbitrary: pr)
  case Nil
  then show ?case by (simp add: upd(3))
next
  case (Cons p ps)
  have p: "plain p" "length p \<le> 127" "loader_prefix_key pton p = Inr (key p)" using Cons.prems(2) by auto
  have len: "length (to_text (reason p)) \<le> 31"
    using to_text_length [of "reason p" 1] fresh(3) by (auto simp: order.strict_trans1 [of _ 13])
  have "list_all (\<lambda>(e, _). e \<noteq> key p) (get pr)" using Cons.prems(5) by (auto simp: list_all_iff)
  then have "prefix_row pton (get pr) p (to_text (reason p)) = Inr (get pr @ [(key p, reason p)])"
    using Cons.prems(4) p(3) fresh(3) by (simp add: prefix_row_def)
  with rows [OF p(1,2) plain_to_text len, of pr]
  have row: "policy_row pton pr (prefix_text name reason p @ [CHR 0x0A]) = Inr (upd (get pr @ [(key p, reason p)]) pr)"
    by (simp add: prefix_text_def)
  let ?pr = "upd (get pr @ [(key p, reason p)]) pr"
  have "apply_rows pton (map (prefix_text name reason) ps) ?pr = Inr (upd (get ?pr @ map (\<lambda>p. (key p, reason p)) ps) ?pr)"
    using Cons.prems by (intro Cons.IH) (auto simp: upd inj_on_def)
  with row show ?case by (simp add: upd)
qed

lemma prefixes_ok_sorted:
  assumes "prefixes_ok pton key ps"
  shows "list_all (\<lambda>p. plain p \<and> length p \<le> 127 \<and> loader_prefix_key pton p = Inr (key p)) (sorted_keys ps)"
    "inj_on key (set (sorted_keys ps))" "length (sorted_keys ps) \<le> PREFIX_CAP"
proof -
  have "inj_on key (set ps)" using assms same_entry_refl unfolding prefixes_ok_def inj_on_def by metis
  with assms show "list_all (\<lambda>p. plain p \<and> length p \<le> 127 \<and> loader_prefix_key pton p = Inr (key p)) (sorted_keys ps)"
    "inj_on key (set (sorted_keys ps))" "length (sorted_keys ps) \<le> PREFIX_CAP"
    by (auto simp: prefixes_ok_def list_all_iff sorted_keys_def length_remdups_card_conv)
qed

text \<open>The rows of the document are the rows above.\<close>

lemma policy_lines_eq:
  "policy_lines cfg = map (port_text (\<lambda>p. the (port_dict cfg p)))
       (sorted_keys (pc_protected_tcp_ports cfg @ pc_drop_tcp_ports cfg @ pc_drop_udp_ports cfg)) @
     map (prefix_text ''owned'' (\<lambda>_. 1)) (sorted_keys (pc_owned_prefixes cfg)) @
     map (prefix_text ''allow'' (\<lambda>_. 1)) (sorted_keys (pc_allow_prefixes cfg)) @
     map (prefix_text ''block'' (block_reason cfg)) (sorted_keys (pc_bogon_prefixes cfg @ pc_block_prefixes cfg))"
  by (simp add: policy_lines_def port_lines_def prefix_lines_def port_text_def prefix_text_def row_def)

definition policy_ok :: "(nat \<Rightarrow> string \<Rightarrow> bytes option) \<Rightarrow> (string \<Rightarrow> prefix_key) \<Rightarrow> policy_cfg \<Rightarrow> bool" where
  "policy_ok pton key cfg \<longleftrightarrow> ports_ok cfg \<and> prefixes_ok pton key (pc_owned_prefixes cfg) \<and>
     prefixes_ok pton key (pc_allow_prefixes cfg) \<and> prefixes_ok pton key (pc_bogon_prefixes cfg @ pc_block_prefixes cfg)"

definition policy_parsed :: "(string \<Rightarrow> prefix_key) \<Rightarrow> policy_cfg \<Rightarrow> parsed" where
  "policy_parsed key cfg = \<lparr>pr_ports = \<lambda>p. (case port_dict cfg p of None \<Rightarrow> 0 | Some f \<Rightarrow> f),
     pr_owned = map (\<lambda>p. (key p, 1)) (sorted_keys (pc_owned_prefixes cfg)),
     pr_allow = map (\<lambda>p. (key p, 1)) (sorted_keys (pc_allow_prefixes cfg)),
     pr_block = map (\<lambda>p. (key p, block_reason cfg p)) (sorted_keys (pc_bogon_prefixes cfg @ pc_block_prefixes cfg))\<rparr>"

lemma policy_lines_ok:
  assumes "policy_ok pton key cfg"
  shows "list_all row_ok (policy_lines cfg)"
proof -
  have short: "row_ok (row name p (to_text v))" if "plain name" "length name \<le> 15" "plain p" "length p \<le> 127" "v < 100" for name p v
    using that to_text_length [of v 1] unfolding row_ok_def
    by (intro exI [of _ name] exI [of _ p] exI [of _ "to_text v"]) simp
  have "block_reason cfg p < 100" for p by (simp add: block_reason_def)
  moreover have "length (to_text p) \<le> 127" "the (port_dict cfg p) < 100"
    if "p \<in> set (pc_protected_tcp_ports cfg @ pc_drop_tcp_ports cfg @ pc_drop_udp_ports cfg)" for p
  proof -
    have "p \<le> 65535" using that assms unfolding policy_ok_def ports_ok_def list_all_iff by blast
    then show "length (to_text p) \<le> 127" using to_text_length [of p 4] by simp
    show "the (port_dict cfg p) < 100" using port_dict_ok [OF _ that] assms by (auto simp: policy_ok_def)
  qed
  ultimately show ?thesis
    using assms prefixes_ok_sorted(1) unfolding policy_ok_def policy_lines_eq list_all_iff port_text_def prefix_text_def
    by (auto intro!: short)
qed

lemma policy_read:
  assumes "policy_ok pton key cfg"
  shows "apply_rows pton (policy_lines cfg) parsed_empty = Inr (policy_parsed key cfg)"
proof -
  let ?ports = "sorted_keys (pc_protected_tcp_ports cfg @ pc_drop_tcp_ports cfg @ pc_drop_udp_ports cfg)"
  have ok: "ports_ok cfg" "prefixes_ok pton key (pc_owned_prefixes cfg)" "prefixes_ok pton key (pc_allow_prefixes cfg)"
    "prefixes_ok pton key (pc_bogon_prefixes cfg @ pc_block_prefixes cfg)" using assms by (auto simp: policy_ok_def)
  have ports: "\<forall>p \<in> set ?ports. 1 \<le> p \<and> p \<le> 65535 \<and> the (port_dict cfg p) \<noteq> 0 \<and> the (port_dict cfg p) \<le> 7 \<and>
      the (port_dict cfg p) AND 3 \<noteq> 3 \<and> pr_ports parsed_empty p = 0"
    using port_dict_ok [OF ok(1)] ok(1) by (simp add: ports_ok_def list_all_iff parsed_empty_def)
  let ?p1 = "parsed_empty\<lparr>pr_ports := \<lambda>q. if q \<in> set ?ports then the (port_dict cfg q) else pr_ports parsed_empty q\<rparr>"
  let ?p2 = "?p1\<lparr>pr_owned := map (\<lambda>p. (key p, 1)) (sorted_keys (pc_owned_prefixes cfg))\<rparr>"
  let ?p3 = "?p2\<lparr>pr_allow := map (\<lambda>p. (key p, 1)) (sorted_keys (pc_allow_prefixes cfg))\<rparr>"
  have 1: "apply_rows pton (map (port_text (\<lambda>p. the (port_dict cfg p))) ?ports) parsed_empty = Inr ?p1"
    by (rule apply_port_rows [OF sorted_keys_set(2) ports])
  have 2: "apply_rows pton (map (prefix_text ''owned'' (\<lambda>_. 1)) (sorted_keys (pc_owned_prefixes cfg))) ?p1 = Inr ?p2"
    using prefixes_ok_sorted [OF ok(2)]
    by (subst apply_prefix_rows [where get = pr_owned and upd = "\<lambda>es pr. pr\<lparr>pr_owned := es\<rparr>" and key = key])
      (simp_all add: policy_row_eq parsed_empty_def)
  have 3: "apply_rows pton (map (prefix_text ''allow'' (\<lambda>_. 1)) (sorted_keys (pc_allow_prefixes cfg))) ?p2 = Inr ?p3"
    using prefixes_ok_sorted [OF ok(3)]
    by (subst apply_prefix_rows [where get = pr_allow and upd = "\<lambda>es pr. pr\<lparr>pr_allow := es\<rparr>" and key = key])
      (simp_all add: policy_row_eq parsed_empty_def)
  have 4: "apply_rows pton (map (prefix_text ''block'' (block_reason cfg)) (sorted_keys (pc_bogon_prefixes cfg @ pc_block_prefixes cfg))) ?p3 =
      Inr (?p3\<lparr>pr_block := map (\<lambda>p. (key p, block_reason cfg p)) (sorted_keys (pc_bogon_prefixes cfg @ pc_block_prefixes cfg))\<rparr>)"
    using prefixes_ok_sorted [OF ok(4)]
    by (subst apply_prefix_rows [where get = pr_block and upd = "\<lambda>es pr. pr\<lparr>pr_block := es\<rparr>" and key = key])
      (simp_all add: policy_row_eq parsed_empty_def block_reason_def)
  have "(\<lambda>q. if q \<in> set ?ports then the (port_dict cfg q) else pr_ports parsed_empty q) = (\<lambda>p. case port_dict cfg p of None \<Rightarrow> 0 | Some f \<Rightarrow> f)"
    by (auto simp: port_dict_eq parsed_empty_def)
  with 1 2 3 4 show ?thesis
    by (simp add: policy_lines_eq apply_rows_append policy_parsed_def parsed_empty_def)
qed

section \<open>Installing the policy\<close>

lemma port_writes_ok:
  assumes "\<forall>k \<in> set ks. m (of_nat k) \<noteq> None" "list_all (\<lambda>k. k < 65536) ks"
  shows "\<exists>m'. port_writes flags ks m = (None, m') \<and> (\<forall>k < 65536. m' (of_nat k) = (if k \<in> set ks then Some (of_nat (flags k)) else m (of_nat k)))"
  using assms
proof (induction ks arbitrary: m)
  case (Cons k ks)
  obtain v where v: "m (of_nat k) = Some v" using Cons.prems(1) by auto
  let ?m = "if v \<noteq> of_nat (flags k) then m(of_nat k \<mapsto> of_nat (flags k)) else m"
  have inj: "(of_nat i :: u32) = of_nat j \<longleftrightarrow> i = j" if "i < 65536" "j < 65536" for i j
  proof -
    have "unat (of_nat i :: u32) = i" "unat (of_nat j :: u32) = j" using that by (simp_all add: unat_of_nat)
    then show ?thesis by metis
  qed
  have k: "k < 65536" using Cons.prems(2) by simp
  have "\<forall>k \<in> set ks. ?m (of_nat k) \<noteq> None" using Cons.prems(1) by auto
  from Cons.IH [OF this] Cons.prems(2) obtain m' where "port_writes flags ks ?m = (None, m')"
    "\<forall>i < 65536. m' (of_nat i) = (if i \<in> set ks then Some (of_nat (flags i)) else ?m (of_nat i))" by auto
  with v k show ?case by (auto simp: inj)
qed simp

context lpm_trie
begin

lemma clear_prefixes_ok:
  "sound m \<Longrightarrow> card (entries m) \<le> n \<Longrightarrow> \<exists>m'. clear_prefixes ops (Suc n) m = (None, m') \<and> sound m' \<and> entries m' = {}"
proof (induction n arbitrary: m)
  case 0
  then have "entries m = {}" using finite_entries by simp
  with 0 first_empty show ?case by simp
next
  case (Suc n)
  show ?case
  proof (cases "entries m = {}")
    case True
    with Suc.prems first_empty show ?thesis by simp
  next
    case False
    with first_key [OF Suc.prems(1)] obtain e where e: "e \<in> entries m" "lpm_first ops m = Inr (fst e)" by blast
    from delete_hit [OF Suc.prems(1) e(1) same_entry_refl] obtain m' where
      m': "lpm_delete ops m (fst e) = Inr m'" "sound m'" "entries m' = entries m - {e}" by blast
    then have "card (entries m') \<le> n" using e(1) Suc.prems finite_entries by (simp add: card_Diff_singleton)
    from Suc.IH [OF m'(2) this] e(2) m'(1) show ?thesis by (simp del: clear_prefixes.simps(2) add: clear_prefixes.simps(2) [of _ "Suc n"])
  qed
qed

lemma fill_prefixes_ok:
  assumes "sound m" "card (entries m) + length es \<le> PREFIX_CAP"
    and "\<forall>(k, v) \<in> set es. \<forall>e \<in> entries m. \<not> same_entry (fst e) k"
    and "distinct (map fst es)" "\<forall>k \<in> fst ` set es. \<forall>k' \<in> fst ` set es. same_entry k k' \<longrightarrow> k = k'"
  shows "\<exists>m'. fill_prefixes ops es m = (None, m') \<and> sound m' \<and> entries m' = entries m \<union> (\<lambda>(k, v). (k, of_nat v)) ` set es"
  using assms
proof (induction es arbitrary: m)
  case (Cons kv es)
  obtain k v where kv: "kv = (k, v)" by fastforce
  have "card (entries m) < PREFIX_CAP" using Cons.prems(2) by simp
  from update_room [OF Cons.prems(1) this] obtain m1 where m1: "lpm_update ops m k (of_nat v) = Inr m1" by blast
  have "{e \<in> entries m. \<not> same_entry (fst e) k} = entries m" using Cons.prems(3) by (auto simp: kv)
  with update_ok [OF Cons.prems(1) m1] have u: "sound m1" "entries m1 = insert (k, of_nat v) (entries m)" by simp_all
  have "card (entries m1) \<le> Suc (card (entries m))" using finite_entries [OF Cons.prems(1)] by (simp add: u(2) card_insert_if)
  then have room: "card (entries m1) + length es \<le> PREFIX_CAP" using Cons.prems(2) by simp
  have fresh: "\<forall>(k', v') \<in> set es. \<forall>e \<in> entries m1. \<not> same_entry (fst e) k'"
  proof clarify
    fix k' v' e w
    assume es: "(k', v') \<in> set es" and e: "(e, w) \<in> entries m1" and same: "same_entry (fst (e, w)) k'"
    have k': "k' \<in> fst ` set es" using es by (rule rev_image_eqI) simp
    have "k \<notin> fst ` set es" using Cons.prems(4) by (simp add: kv)
    with k' have "k \<noteq> k'" by blast
    moreover have "same_entry k k' \<longrightarrow> k = k'" using Cons.prems(5) [THEN bspec, of k, THEN bspec, of k'] k' by (simp add: kv)
    moreover have "\<forall>e \<in> entries m. \<not> same_entry (fst e) k'"
      using Cons.prems(3) [THEN bspec, of "(k', v')"] es by simp
    ultimately show False using e same unfolding u(2) by (metis fst_conv insertE prod.inject)
  qed
  have tail: "distinct (map fst es)" "fst ` set es \<subseteq> fst ` set (kv # es)" using Cons.prems(4) by auto
  have "\<forall>k \<in> fst ` set es. \<forall>k' \<in> fst ` set es. same_entry k k' \<longrightarrow> k = k'"
  proof (intro ballI)
    fix k k'
    assume "k \<in> fst ` set es" "k' \<in> fst ` set es"
    then have "k \<in> fst ` set (kv # es)" "k' \<in> fst ` set (kv # es)" using tail(2) by blast+
    with Cons.prems(5) show "same_entry k k' \<longrightarrow> k = k'" by blast
  qed
  from Cons.IH [OF u(1) room fresh tail(1) this] m1 show ?case by (simp add: kv u(2))
qed simp

lemma replace_prefixes_ok:
  assumes "sound m" "length es \<le> PREFIX_CAP" "distinct (map fst es)" "\<forall>k \<in> fst ` set es. \<forall>k' \<in> fst ` set es. same_entry k k' \<longrightarrow> k = k'"
  shows "\<exists>m'. replace_prefixes ops es m = (None, m') \<and> sound m' \<and> entries m' = (\<lambda>(k, v). (k, of_nat v)) ` set es"
proof -
  obtain m1 where m1: "clear_prefixes ops (PREFIX_CAP + 1) m = (None, m1)" "sound m1" "entries m1 = {}"
    using clear_prefixes_ok [OF assms(1) card_entries [OF assms(1)]] by auto
  have "\<exists>m'. fill_prefixes ops es m1 = (None, m') \<and> sound m' \<and> entries m' = entries m1 \<union> (\<lambda>(k, v). (k, of_nat v)) ` set es"
    by (rule fill_prefixes_ok) (use m1 assms in auto)
  with m1 show ?thesis by (auto simp: replace_prefixes_def)
qed

end

lemma reconcile_ok:
  assumes "lpm_trie ops entries sound" "sound (xm_owned x)" "sound (xm_allow x)" "sound (xm_block x)"
    and "\<forall>k < 65536. xm_ports x (of_nat k) \<noteq> None" "policy_ok pton key cfg"
  shows "\<exists>x'. reconcile ops (policy_parsed key cfg) x = (None, x') \<and> xm_configuration x' = xm_configuration x \<and>
    (\<forall>k < 65536. xm_ports x' (of_nat k) = Some (of_nat (case port_dict cfg k of None \<Rightarrow> 0 | Some f \<Rightarrow> f))) \<and>
    sound (xm_owned x') \<and> entries (xm_owned x') = (\<lambda>p. (key p, 1)) ` set (pc_owned_prefixes cfg) \<and>
    sound (xm_allow x') \<and> entries (xm_allow x') = (\<lambda>p. (key p, 1)) ` set (pc_allow_prefixes cfg) \<and>
    sound (xm_block x') \<and> entries (xm_block x') =
      (\<lambda>p. (key p, of_nat (block_reason cfg p))) ` set (pc_bogon_prefixes cfg @ pc_block_prefixes cfg)"
proof -
  have ps: "\<exists>m'. replace_prefixes ops (map (\<lambda>p. (key p, f p)) (sorted_keys ps)) m = (None, m') \<and> sound m' \<and>
      entries m' = (\<lambda>p. (key p, of_nat (f p))) ` set ps" if "prefixes_ok pton key ps" "sound m" for ps f m
  proof -
    have "distinct (map fst (map (\<lambda>p. (key p, f p)) (sorted_keys ps)))"
      using prefixes_ok_sorted(2) [OF that(1)] by (simp add: distinct_map comp_def)
    moreover have "\<forall>k \<in> fst ` set (map (\<lambda>p. (key p, f p)) (sorted_keys ps)). \<forall>k' \<in> fst ` set (map (\<lambda>p. (key p, f p)) (sorted_keys ps)).
        same_entry k k' \<longrightarrow> k = k'" using that(1) by (auto simp: prefixes_ok_def)
    ultimately have "\<exists>m'. replace_prefixes ops (map (\<lambda>p. (key p, f p)) (sorted_keys ps)) m = (None, m') \<and> sound m' \<and>
        entries m' = (\<lambda>(k, v). (k, of_nat v)) ` set (map (\<lambda>p. (key p, f p)) (sorted_keys ps))"
      using prefixes_ok_sorted(3) [OF that(1)] that(2) by (intro lpm_trie.replace_prefixes_ok [OF assms(1)]) simp_all
    then show ?thesis by (simp add: image_image)
  qed
  have ok: "prefixes_ok pton key (pc_owned_prefixes cfg)" "prefixes_ok pton key (pc_allow_prefixes cfg)"
    "prefixes_ok pton key (pc_bogon_prefixes cfg @ pc_block_prefixes cfg)" using assms(6) by (auto simp: policy_ok_def)
  obtain ports where ports: "port_writes (\<lambda>p. case port_dict cfg p of None \<Rightarrow> 0 | Some f \<Rightarrow> f) [0..<65536] (xm_ports x) = (None, ports)"
    "\<forall>k < 65536. ports (of_nat k) = Some (of_nat (case port_dict cfg k of None \<Rightarrow> 0 | Some f \<Rightarrow> f))"
    using port_writes_ok [of "[0..<65536]" "xm_ports x" "\<lambda>p. case port_dict cfg p of None \<Rightarrow> 0 | Some f \<Rightarrow> f"] assms(5)
    by (auto simp: list_all_iff)
  from ps [OF ok(1) assms(2), of "\<lambda>_. 1"] obtain owned where owned: "replace_prefixes ops (pr_owned (policy_parsed key cfg)) (xm_owned x) = (None, owned)"
    "sound owned" "entries owned = (\<lambda>p. (key p, 1)) ` set (pc_owned_prefixes cfg)" by (auto simp: policy_parsed_def)
  from ps [OF ok(2) assms(3), of "\<lambda>_. 1"] obtain allow where allow: "replace_prefixes ops (pr_allow (policy_parsed key cfg)) (xm_allow x) = (None, allow)"
    "sound allow" "entries allow = (\<lambda>p. (key p, 1)) ` set (pc_allow_prefixes cfg)" by (auto simp: policy_parsed_def)
  from ps [OF ok(3) assms(4), of "block_reason cfg"] obtain block where block:
    "replace_prefixes ops (pr_block (policy_parsed key cfg)) (xm_block x) = (None, block)"
    "sound block" "entries block = (\<lambda>p. (key p, of_nat (block_reason cfg p))) ` set (pc_bogon_prefixes cfg @ pc_block_prefixes cfg)"
    by (auto simp: policy_parsed_def)
  have "pr_ports (policy_parsed key cfg) = (\<lambda>p. case port_dict cfg p of None \<Rightarrow> 0 | Some f \<Rightarrow> f)" by (simp add: policy_parsed_def)
  with ports owned allow block show ?thesis by (simp add: reconcile_def)
qed

section \<open>Properties\<close>

text \<open>
  C9: The policy that the operator configured is the one in force: for a validated policy whose
  prefixes are printed by the controller so that the loader can read them, the document that the
  controller writes is accepted by the loader once the lease is withdrawn, and afterwards every port has
  exactly its configured flags, a destination is owned and a source allowed exactly when
  a configured prefix covers it, and a source is blocked exactly when a bogon or blocked
  prefix covers it, for the longest such prefix and as a manual block if that is one of them; whatever the maps held before.
\<close>

theorem policy_installed:
  assumes "lpm_trie ops entries sound" "sound (xm_owned x)" "sound (xm_allow x)" "sound (xm_block x)"
    and "\<forall>k < 65536. xm_ports x (of_nat k) \<noteq> None" "xm_configuration x = Some c" "xc_lease_ns c = 0"
    and "policy_ok pton key cfg" "loader_policy cfg = Some document"
  shows "\<exists>x'. loader_policy_cmd ops pton None document x = (None, x') \<and> xm_configuration x' = Some c \<and>
    (\<forall>port < 65536. xm_ports x' (of_nat port) = Some (of_nat (flag_if 1 port (pc_protected_tcp_ports cfg) OR
       flag_if 2 port (pc_drop_tcp_ports cfg) OR flag_if 4 port (pc_drop_udp_ports cfg)))) \<and>
    (\<forall>k. lpm_lookup ops (xm_owned x') k \<noteq> None \<longleftrightarrow> (\<exists>p \<in> set (pc_owned_prefixes cfg). covers (key p) k)) \<and>
    (\<forall>k. lpm_lookup ops (xm_allow x') k \<noteq> None \<longleftrightarrow> (\<exists>p \<in> set (pc_allow_prefixes cfg). covers (key p) k)) \<and>
    (\<forall>k. let blocked = set (pc_bogon_prefixes cfg @ pc_block_prefixes cfg) in
       case lpm_lookup ops (xm_block x') k of
         None \<Rightarrow> \<forall>p \<in> blocked. \<not> covers (key p) k
       | Some v \<Rightarrow> \<exists>p \<in> blocked. covers (key p) k \<and> v = (if p \<in> set (pc_block_prefixes cfg) then 11 else 5) \<and>
           (\<forall>q \<in> blocked. covers (key q) k \<longrightarrow> pk_prefixlen (key q) \<le> pk_prefixlen (key p)))"
proof -
  note none = lpm_trie.lookup_None [OF assms(1)]
  from assms(9) have doc: "document = join_lines (policy_lines cfg)" "length document \<le> 4 * 1024 * 1024"
    by (auto simp: loader_policy_def Let_def split: if_splits)
  have "policy_rows pton 0 parsed_empty document = Inr (policy_parsed key cfg)"
    using policy_rows_join [OF policy_lines_ok [OF assms(8)]] doc policy_read [OF assms(8)] by simp
  then have run: "loader_policy_cmd ops pton None document x = reconcile ops (policy_parsed key cfg) x"
    by (simp add: loader_policy_cmd_def assms(6,7))
  from reconcile_ok [OF assms(1-5,8)] obtain x' where x': "reconcile ops (policy_parsed key cfg) x = (None, x')"
    "xm_configuration x' = xm_configuration x"
    "\<forall>k < 65536. xm_ports x' (of_nat k) = Some (of_nat (case port_dict cfg k of None \<Rightarrow> 0 | Some f \<Rightarrow> f))"
    "sound (xm_owned x')" "entries (xm_owned x') = (\<lambda>p. (key p, 1)) ` set (pc_owned_prefixes cfg)"
    "sound (xm_allow x')" "entries (xm_allow x') = (\<lambda>p. (key p, 1)) ` set (pc_allow_prefixes cfg)"
    "sound (xm_block x')" "entries (xm_block x') =
      (\<lambda>p. (key p, of_nat (block_reason cfg p))) ` set (pc_bogon_prefixes cfg @ pc_block_prefixes cfg)"
    by (elim exE conjE) (rule that)
  have ports: "\<forall>port < 65536. xm_ports x' (of_nat port) = Some (of_nat (flag_if 1 port (pc_protected_tcp_ports cfg) OR
       flag_if 2 port (pc_drop_tcp_ports cfg) OR flag_if 4 port (pc_drop_udp_ports cfg)))"
    using x'(3) by (auto simp: port_dict_eq flag_if_def)
  have owned: "lpm_lookup ops (xm_owned x') k \<noteq> None \<longleftrightarrow> (\<exists>p \<in> set (pc_owned_prefixes cfg). covers (key p) k)"
    and allow: "lpm_lookup ops (xm_allow x') k \<noteq> None \<longleftrightarrow> (\<exists>p \<in> set (pc_allow_prefixes cfg). covers (key p) k)" for k
    unfolding none [OF x'(4)] none [OF x'(6)] x'(5,7) by auto
  have reason: "of_nat (block_reason cfg p) = (if p \<in> set (pc_block_prefixes cfg) then 11 else 5 :: u32)" for p
    by (simp add: block_reason_def)
  have block: "let blocked = set (pc_bogon_prefixes cfg @ pc_block_prefixes cfg) in
       case lpm_lookup ops (xm_block x') k of
         None \<Rightarrow> \<forall>p \<in> blocked. \<not> covers (key p) k
       | Some v \<Rightarrow> \<exists>p \<in> blocked. covers (key p) k \<and> v = (if p \<in> set (pc_block_prefixes cfg) then 11 else 5) \<and>
           (\<forall>q \<in> blocked. covers (key q) k \<longrightarrow> pk_prefixlen (key q) \<le> pk_prefixlen (key p))" for k
  proof (cases "lpm_lookup ops (xm_block x') k")
    case None
    with none [OF x'(8), of k] show ?thesis unfolding x'(9) by (simp add: Let_def)
  next
    case (Some v)
    from lpm_trie.lookup_Some [OF assms(1) x'(8) Some]
    have "\<exists>p \<in> set (pc_bogon_prefixes cfg @ pc_block_prefixes cfg). covers (key p) k \<and> v = of_nat (block_reason cfg p) \<and>
        (\<forall>q \<in> set (pc_bogon_prefixes cfg @ pc_block_prefixes cfg). covers (key q) k \<longrightarrow> pk_prefixlen (key q) \<le> pk_prefixlen (key p))"
      unfolding x'(9) by simp blast
    then show ?thesis unfolding reason Some Let_def option.case .
  qed
  have ran: "loader_policy_cmd ops pton None document x = (None, x')" "xm_configuration x' = Some c"
    using run x'(1,2) assms(6) by simp_all
  show ?thesis
    by (rule exI [of _ x'], intro conjI) (rule ran ports allI [OF owned] allI [OF allow] allI [OF block])+
qed

text \<open>The state of a fresh generation, and a policy for it.\<close>

definition fresh_maps :: "lpm_list xdp_maps" where
  "fresh_maps = (live_maps 0)\<lparr>xm_configuration := Some ((live_config 0)\<lparr>xc_lease_ns := 0\<rparr>), xm_ports := \<lambda>_. Some 0\<rparr>"

definition demo_pton :: "nat \<Rightarrow> string \<Rightarrow> bytes option" where
  "demo_pton family s = (if family \<noteq> 4 then None else if s = ''203.0.113.0'' then Some [203, 0, 113, 0]
     else if s = ''10.0.0.0'' then Some [10, 0, 0, 0] else None)"

definition demo_key :: "string \<Rightarrow> prefix_key" where
  "demo_key s =
     (if s = ''203.0.113.0/24'' then \<lparr>pk_prefixlen = 56, pk_family = 4, pk_addr = [203, 0, 113] @ replicate 13 0\<rparr>
      else \<lparr>pk_prefixlen = 40, pk_family = 4, pk_addr = [10] @ replicate 15 0\<rparr>)"

definition demo_policy_cfg :: policy_cfg where
  "demo_policy_cfg = \<lparr>pc_protected_tcp_ports = [25565], pc_drop_tcp_ports = [80], pc_drop_udp_ports = [53, 80],
     pc_owned_prefixes = [''203.0.113.0/24''], pc_allow_prefixes = [], pc_block_prefixes = [], pc_bogon_prefixes = [''10.0.0.0/8'']\<rparr>"

lemma demo_policy_ok: "policy_ok demo_pton demo_key demo_policy_cfg"
proof -
  have bits: "number ''24'' 32 = Inr 24" "number ''8'' 32 = Inr 8"
    by (simp_all add: number_def is_digit_def text_nat_def)
  have masked: "mask_addr 24 32 (copy_front (replicate 16 0) [203, 0, 113, 0]) = [203, 0, 113] @ replicate 13 0"
    "mask_addr 8 32 (copy_front (replicate 16 0) [10, 0, 0, 0]) = [10] @ replicate 15 0" by code_simp+
  have keys: "loader_prefix_key demo_pton ''203.0.113.0/24'' = Inr (demo_key ''203.0.113.0/24'')"
    "loader_prefix_key demo_pton ''10.0.0.0/8'' = Inr (demo_key ''10.0.0.0/8'')"
    using bits masked by (simp_all add: loader_prefix_key_def demo_pton_def demo_key_def Let_def)
  have "plain ''203.0.113.0/24''" "plain ''10.0.0.0/8''" by code_simp+
  with keys have "prefixes_ok demo_pton demo_key (pc_owned_prefixes demo_policy_cfg)" "prefixes_ok demo_pton demo_key (pc_allow_prefixes demo_policy_cfg)"
    "prefixes_ok demo_pton demo_key (pc_bogon_prefixes demo_policy_cfg @ pc_block_prefixes demo_policy_cfg)"
    by (simp_all add: prefixes_ok_def demo_policy_cfg_def)
  then show ?thesis by (simp add: policy_ok_def ports_ok_def demo_policy_cfg_def)
qed

text \<open>Rows are short, so a document of few of them is within the limit.\<close>

lemma join_lines_length: "list_all row_ok ls \<Longrightarrow> length (join_lines ls) \<le> 159 * length ls + 1"
proof (induction ls rule: join_lines.induct)
  case (2 l)
  then show ?case by (auto simp: row_ok_def row_def)
next
  case (3 l l' ls)
  then have "length l \<le> 158" by (auto simp: row_ok_def row_def)
  with 3 show ?case by simp
qed simp

lemma demo_document: "loader_policy demo_policy_cfg = Some (join_lines (policy_lines demo_policy_cfg))"
proof -
  have "length (remdups [25565, 80, 53, 80 :: nat]) = 3" by simp
  then have "length (policy_lines demo_policy_cfg) = 5"
    by (simp add: policy_lines_def port_lines_def prefix_lines_def sorted_keys_def demo_policy_cfg_def)
  with join_lines_length [OF policy_lines_ok [OF demo_policy_ok]] show ?thesis by (simp add: loader_policy_def Let_def)
qed

theorem policy_installed_witness:
  "\<exists>document x'. loader_policy demo_policy_cfg = Some document \<and> loader_policy_cmd lpm_list_ops demo_pton None document fresh_maps = (None, x') \<and>
     lpm_lookup lpm_list_ops (xm_owned x') (v4_host [203, 0, 113, 7]) \<noteq> None \<and>
     lpm_lookup lpm_list_ops (xm_owned x') (v4_host [192, 0, 2, 1]) = None"
proof -
  note doc = demo_document
  have maps: "lpm_list_ok (xm_owned fresh_maps)" "lpm_list_ok (xm_allow fresh_maps)" "lpm_list_ok (xm_block fresh_maps)"
    "\<forall>k < 65536. xm_ports fresh_maps (of_nat k) \<noteq> None" "xm_configuration fresh_maps = Some ((live_config 0)\<lparr>xc_lease_ns := 0\<rparr>)"
    "xc_lease_ns ((live_config 0)\<lparr>xc_lease_ns := 0\<rparr>) = 0"
    by (simp_all add: fresh_maps_def live_maps_def lpm_list_ok_def)
  have "covers (demo_key ''203.0.113.0/24'') (v4_host [203, 0, 113, 7])" "\<not> covers (demo_key ''203.0.113.0/24'') (v4_host [192, 0, 2, 1])"
    by code_simp+
  then have "\<exists>p \<in> set (pc_owned_prefixes demo_policy_cfg). covers (demo_key p) (v4_host [203, 0, 113, 7])"
    "\<not> (\<exists>p \<in> set (pc_owned_prefixes demo_policy_cfg). covers (demo_key p) (v4_host [192, 0, 2, 1]))" by (simp_all add: demo_policy_cfg_def)
  with policy_installed [OF lpml.lpm_trie_axioms maps demo_policy_ok doc] doc show ?thesis by blast
qed



end
