(* ===== verification/Adaptive.thy ===== *)
theory Adaptive
  imports Float64
begin

text \<open>
  The adaptive mode selection of the controller (\<^verbatim>\<open>src/controller/core.py\<close>, class \<^verbatim>\<open>Adaptive\<close>) and the
  validation of its configuration. Python numbers are values of \<^typ>\<open>f64\<close>: a float is itself, an
  int \<open>n\<close> is \<open>Fin (of_int n)\<close>, exact at every size, so that comparisons between the two are exact
  as in Python. Times are the floats of \<^verbatim>\<open>time.monotonic()\<close>, and differences and sums of times are
  rounded. A dictionary of the configuration is an association list. An exception
  is a value; the object keeps the assignments made before it.
\<close>

section \<open>Configuration\<close>

type_synonym signals = "string \<rightharpoonup> f64"

record band =
  bd_enter :: f64
  bd_exit :: f64

record stage =
  sg_seconds :: int
  sg_rate :: int
  sg_burst :: int

text \<open>The optional \<^verbatim>\<open>recovery\<close> key: absent, \<^verbatim>\<open>null\<close>, or an object.\<close>

datatype recovery = RecoveryAbsent | RecoveryNull | Recovery bool "stage list"

record adaptive_cfg =
  ac_up_samples :: int
  ac_down_samples :: int
  ac_cooldown_seconds :: int
  ac_up_cooldown_seconds :: "int option"
  ac_thresholds :: "(string \<times> (string \<times> band) list) list"
  ac_required_signals :: "(string \<times> string list) list option"
  ac_immediate_signals :: "(string \<times> string list) list option"
  ac_allow_emergency :: "bool option"
  ac_recovery :: recovery
  ac_emergency_max_seconds :: "int option"
  ac_emergency_rearm_seconds :: "int option"

text \<open>\<^verbatim>\<open>cfg.get(key, default)\<close>.\<close>

definition get_or :: "'a option \<Rightarrow> 'a \<Rightarrow> 'a" where
  "get_or x d = (case x of None \<Rightarrow> d | Some v \<Rightarrow> v)"

lemma get_or_simps [simp]: "get_or None d = d" "get_or (Some v) d = v"
  by (simp_all add: get_or_def)

text \<open>\<^verbatim>\<open>cfg.get(key, {}).get(mode, [])\<close>.\<close>

definition names_of :: "(string \<times> string list) list option \<Rightarrow> string \<Rightarrow> string list" where
  "names_of table mode = get_or (map_of (get_or table []) mode) []"

definition MODES :: "string list" where
  "MODES = [''normal'', ''elevated'', ''attack'', ''emergency'']"

abbreviation (input) NORMAL :: nat where "NORMAL \<equiv> 0"
abbreviation (input) ELEVATED :: nat where "ELEVATED \<equiv> 1"
abbreviation (input) ATTACK :: nat where "ATTACK \<equiv> 2"
abbreviation (input) EMERGENCY :: nat where "EMERGENCY \<equiv> 3"

abbreviation py_int :: "int \<Rightarrow> f64" where "py_int n \<equiv> Fin (of_int n)"

section \<open>The object\<close>

datatype py_error = KeyError | IndexError | TypeError | AttributeError

record adaptive =
  ad_mode :: nat
  ad_changed :: f64
  ad_up :: int
  ad_down :: int
  ad_target :: nat
  ad_recovery_index :: int
  ad_recovery_since :: f64
  ad_emergency_blocked_until :: f64
  ad_emergency_timeouts :: int

definition adaptive_init :: "f64 \<Rightarrow> adaptive" where
  "adaptive_init now = \<lparr>ad_mode = NORMAL, ad_changed = now, ad_up = 0, ad_down = 0, ad_target = 0, ad_recovery_index = -1,
     ad_recovery_since = now, ad_emergency_blocked_until = now, ad_emergency_timeouts = 0\<rparr>"

definition recovery_stage :: "adaptive \<Rightarrow> int" where
  "recovery_stage a = ad_recovery_index a + 1"

text \<open>\<^verbatim>\<open>self.cfg["recovery"]["stages"][i]\<close> for a non-negative \<open>i\<close>.\<close>

definition stage_at :: "adaptive_cfg \<Rightarrow> int \<Rightarrow> py_error + stage" where
  "stage_at cfg i =
     (case ac_recovery cfg of
        RecoveryAbsent \<Rightarrow> Inl KeyError
      | RecoveryNull \<Rightarrow> Inl TypeError
      | Recovery _ stages \<Rightarrow> if nat i < length stages then Inr (stages ! nat i) else Inl IndexError)"

text \<open>\<^verbatim>\<open>self.cfg.get("recovery", {}).get("enabled", False)\<close>.\<close>

definition recovery_enabled :: "adaptive_cfg \<Rightarrow> py_error + bool" where
  "recovery_enabled cfg =
     (case ac_recovery cfg of RecoveryAbsent \<Rightarrow> Inr False | RecoveryNull \<Rightarrow> Inl AttributeError | Recovery enabled _ \<Rightarrow> Inr enabled)"

text \<open>A SYN budget: rate and burst.\<close>

definition adaptive_syn_budget :: "adaptive_cfg \<Rightarrow> (string \<rightharpoonup> int \<times> int) \<Rightarrow> adaptive \<Rightarrow> py_error + int \<times> int" where
  "adaptive_syn_budget cfg budgets a =
     (if ad_mode a = ATTACK \<and> ad_recovery_index a \<ge> 0
      then bind_result (stage_at cfg (ad_recovery_index a)) (\<lambda>s. Inr (sg_rate s, sg_burst s))
      else case budgets (MODES ! ad_mode a) of None \<Rightarrow> Inl KeyError | Some b \<Rightarrow> Inr b)"

definition below_exit :: "adaptive_cfg \<Rightarrow> nat \<Rightarrow> signals \<Rightarrow> bool" where
  "below_exit cfg mode signals =
     (let bands = get_or (map_of (ac_thresholds cfg) (MODES ! mode)) [] in
      bands \<noteq> [] \<and>
      list_all (\<lambda>(name, band). case signals name of None \<Rightarrow> False | Some v \<Rightarrow> is_finite v \<and> v \<le> bd_exit band) bands)"

definition start_recovery :: "f64 \<Rightarrow> adaptive \<Rightarrow> adaptive" where
  "start_recovery now a = a\<lparr>ad_recovery_index := 0, ad_recovery_since := now\<rparr>"

definition mode_transition :: "nat \<Rightarrow> f64 \<Rightarrow> adaptive \<Rightarrow> adaptive" where
  "mode_transition mode now a =
     (let a = a\<lparr>ad_mode := mode, ad_changed := now\<rparr>
      in if mode = EMERGENCY then a\<lparr>ad_recovery_index := -1\<rparr> else a)"

definition expire_emergency :: "adaptive_cfg \<Rightarrow> f64 \<Rightarrow> adaptive \<Rightarrow> py_error option \<times> adaptive" where
  "expire_emergency cfg now a =
     (let a = mode_transition ATTACK now a;
          a = a\<lparr>ad_up := 0, ad_down := 0, ad_target := 0\<rparr>;
          a = a\<lparr>ad_emergency_blocked_until := now + py_int (get_or (ac_emergency_rearm_seconds cfg) 60)\<rparr>;
          a = a\<lparr>ad_emergency_timeouts := ad_emergency_timeouts a + 1\<rparr>
      in case recovery_enabled cfg of
           Inl e \<Rightarrow> (Some e, a)
         | Inr enabled \<Rightarrow>
             (None, if enabled then start_recovery now a else a\<lparr>ad_recovery_index := -1, ad_recovery_since := now\<rparr>))"

text \<open>The names of the signals at or over their entry threshold.\<close>

definition high_signals :: "(string \<times> band) list \<Rightarrow> signals \<Rightarrow> string set" where
  "high_signals bands signals =
     set (map fst (filter (\<lambda>(n, b). case signals n of None \<Rightarrow> False | Some v \<Rightarrow> is_finite v \<and> bd_enter b \<le> v) bands))"

text \<open>One turn of the loop of \<^verbatim>\<open>_targets\<close>: the mode \<open>mode\<close> of index \<open>i\<close>.\<close>

definition target_turn :: "adaptive_cfg \<Rightarrow> adaptive \<Rightarrow> signals \<Rightarrow> f64 \<Rightarrow> nat \<times> string \<Rightarrow> py_error + nat \<times> nat \<Rightarrow> py_error + nat \<times> nat" where
  "target_turn cfg a signals now = (\<lambda>(i, mode) acc. bind_result acc (\<lambda>(target, immediate_target).
     if mode = ''emergency'' \<and> (\<not> get_or (ac_allow_emergency cfg) False \<or> now < ad_emergency_blocked_until a)
     then Inr (target, immediate_target)
     else case map_of (ac_thresholds cfg) mode of
       None \<Rightarrow> Inl KeyError
     | Some bands \<Rightarrow>
         let high = high_signals bands signals in
         if high \<noteq> {} \<and> list_all (\<lambda>n. n \<in> high) (names_of (ac_required_signals cfg) mode)
         then Inr (i, if list_ex (\<lambda>n. n \<in> high) (names_of (ac_immediate_signals cfg) mode) then i else immediate_target)
         else Inr (target, immediate_target)))"

definition mode_targets :: "adaptive_cfg \<Rightarrow> adaptive \<Rightarrow> signals \<Rightarrow> f64 \<Rightarrow> py_error + nat \<times> nat" where
  "mode_targets cfg a signals now = fold (target_turn cfg a signals now) (enumerate 1 (tl MODES)) (Inr (NORMAL, NORMAL))"

definition sample_recovery :: "adaptive_cfg \<Rightarrow> signals \<Rightarrow> f64 \<Rightarrow> nat \<Rightarrow> adaptive \<Rightarrow> py_error option \<times> adaptive" where
  "sample_recovery cfg signals now target a =
     (let finish = (\<lambda>a. (None, a\<lparr>ad_up := 0, ad_down := 0, ad_target := target\<rparr>)) in
      if \<not> below_exit cfg ATTACK signals then finish (start_recovery now a)
      else case stage_at cfg (ad_recovery_index a) of
        Inl e \<Rightarrow> (Some e, a)
      | Inr stage \<Rightarrow>
          if py_int (sg_seconds stage) \<le> now - ad_recovery_since a then
            let a = a\<lparr>ad_recovery_index := ad_recovery_index a + 1, ad_recovery_since := now\<rparr> in
            case ac_recovery cfg of
              Recovery _ stages \<Rightarrow>
                finish (if ad_recovery_index a = int (length stages) then a\<lparr>ad_recovery_index := -1\<rparr> else a)
            | _ \<Rightarrow> (Some KeyError, a)
          else finish a)"

definition mode_escalate :: "adaptive_cfg \<Rightarrow> nat \<Rightarrow> f64 \<Rightarrow> adaptive \<Rightarrow> adaptive" where
  "mode_escalate cfg target now a =
     (let a = a\<lparr>ad_up := (if ad_target a = target then ad_up a + 1 else 1)\<rparr>;
          a = a\<lparr>ad_target := target, ad_down := 0\<rparr>;
          cooldown = get_or (ac_up_cooldown_seconds cfg) (ac_cooldown_seconds cfg)
      in if ad_up a \<ge> ac_up_samples cfg \<and> py_int cooldown \<le> now - ad_changed a
         then (mode_transition target now a)\<lparr>ad_up := 0\<rparr> else a)"

definition mode_relax :: "adaptive_cfg \<Rightarrow> signals \<Rightarrow> f64 \<Rightarrow> adaptive \<Rightarrow> py_error option \<times> adaptive" where
  "mode_relax cfg signals now a =
     (let a = a\<lparr>ad_up := 0\<rparr>;
          a = a\<lparr>ad_down := (if below_exit cfg (ad_mode a) signals then ad_down a + 1 else 0)\<rparr>
      in if ad_mode a \<noteq> 0 \<and> ad_down a \<ge> ac_down_samples cfg \<and> py_int (ac_cooldown_seconds cfg) \<le> now - ad_changed a then
           let previous_mode = ad_mode a;
               a = mode_transition (ad_mode a - 1) now a;
               a = a\<lparr>ad_down := 0\<rparr>
           in if previous_mode = EMERGENCY then
                case recovery_enabled cfg of
                  Inl e \<Rightarrow> (Some e, a)
                | Inr enabled \<Rightarrow> (None, if enabled then start_recovery now a else a)
              else (None, a)
         else (None, a))"

definition adaptive_sample :: "adaptive_cfg \<Rightarrow> signals \<Rightarrow> f64 \<Rightarrow> adaptive \<Rightarrow> py_error option \<times> adaptive" where
  "adaptive_sample cfg signals now a =
     (if ad_mode a = EMERGENCY \<and> py_int (get_or (ac_emergency_max_seconds cfg) 120) \<le> now - ad_changed a
      then expire_emergency cfg now a
      else case mode_targets cfg a signals now of
        Inl e \<Rightarrow> (Some e, a)
      | Inr (target, immediate_target) \<Rightarrow>
          if immediate_target > ad_mode a
          then (None, (mode_transition immediate_target now a)\<lparr>ad_up := 0, ad_down := 0, ad_target := 0\<rparr>)
          else if ad_mode a = ATTACK \<and> ad_recovery_index a \<ge> 0 \<and> target < EMERGENCY
          then sample_recovery cfg signals now target a
          else if target > ad_mode a then (None, mode_escalate cfg target now a)
          else mode_relax cfg signals now a)"

section \<open>Validation\<close>

text \<open>
  The part of \<^verbatim>\<open>validate\<close> on the \<^verbatim>\<open>adaptive\<close> section, given the SYN budget of ATTACK: \<open>False\<close> is a
  \<^verbatim>\<open>ValueError\<close>. The checks of the JSON types are the types of the record.
\<close>

definition py_positive :: "f64 \<Rightarrow> int \<Rightarrow> int \<Rightarrow> bool" where
  "py_positive v minimum maximum \<longleftrightarrow> is_finite v \<and> py_int minimum \<le> v \<and> v \<le> py_int maximum"

definition SIGNALS :: "string list" where
  "SIGNALS = [''pps'', ''bps'', ''syn_per_second'', ''accepts_per_second'', ''handshakes_per_second'',
     ''status_per_second'', ''logins_per_second'', ''churn_per_second'', ''active_prelogin'',
     ''new_ip_entries_per_second'', ''new_prefix_entries_per_second'', ''active_status'',
     ''backend_connections'', ''backend_failures_per_second'', ''resource_limited_per_second'', ''conntrack_percent'',
     ''conntrack_projected_percent'', ''conntrack_growth_per_second'', ''conntrack_drops_per_second'',
     ''listen_overflows_per_second'', ''listen_drops_per_second'', ''syncookies_per_second'']"

text \<open>The connection anomalies and the resource pressures that a guard of automatic EMERGENCY combines.\<close>

definition traffic_signals :: "string list" where
  "traffic_signals = [''syn_per_second'', ''accepts_per_second'', ''handshakes_per_second'', ''churn_per_second'']"

definition pressure_signals :: "string list" where
  "pressure_signals = [''conntrack_percent'', ''conntrack_projected_percent'', ''conntrack_growth_per_second'',
     ''conntrack_drops_per_second'', ''listen_overflows_per_second'', ''listen_drops_per_second'', ''active_prelogin'',
     ''backend_connections'', ''resource_limited_per_second'']"

definition emergency_guarded :: "adaptive_cfg \<Rightarrow> bool" where
  "emergency_guarded cfg \<longleftrightarrow>
     (let guards = names_of (ac_required_signals cfg) ''emergency'' in
      list_ex (\<lambda>n. n \<in> set traffic_signals) guards \<and> list_ex (\<lambda>n. n \<in> set pressure_signals) guards \<and>
      2 \<le> card (set guards))"

definition band_ok :: "string \<times> band \<Rightarrow> bool" where
  "band_ok = (\<lambda>(name, band). py_positive (bd_enter band) 1 1000000000 \<and> py_positive (bd_exit band) 0 1000000000 \<and>
     bd_exit band < bd_enter band)"

definition thresholds_ok :: "adaptive_cfg \<Rightarrow> string \<times> (string \<times> band) list \<Rightarrow> bool" where
  "thresholds_ok cfg = (\<lambda>(mode, bands). set (map fst bands) \<subseteq> set SIGNALS \<and> list_all band_ok bands \<and>
     list_all (\<lambda>names. distinct names \<and> set names \<subseteq> set (map fst bands))
       [names_of (ac_required_signals cfg) mode, names_of (ac_immediate_signals cfg) mode])"

text \<open>The loop over the stages, with the rate and burst of the stage before.\<close>

fun stages_ok :: "bool \<Rightarrow> int \<times> int \<Rightarrow> int \<Rightarrow> int \<Rightarrow> stage list \<Rightarrow> bool" where
  "stages_ok enabled attack last_rate last_burst [] \<longleftrightarrow> True"
| "stages_ok enabled attack last_rate last_burst (s # ss) \<longleftrightarrow>
     1 \<le> sg_seconds s \<and> sg_seconds s \<le> 3600 \<and> 1 \<le> sg_rate s \<and> sg_rate s \<le> 1000000000 \<and> 1 \<le> sg_burst s \<and> sg_burst s \<le> 1000000 \<and>
     last_rate \<le> sg_rate s \<and> last_burst \<le> sg_burst s \<and>
     (enabled \<longrightarrow> sg_rate s \<le> fst attack \<and> sg_burst s \<le> snd attack) \<and>
     stages_ok enabled attack (sg_rate s) (sg_burst s) ss"

definition recovery_ok :: "adaptive_cfg \<Rightarrow> int \<times> int \<Rightarrow> bool" where
  "recovery_ok cfg attack =
     (case ac_recovery cfg of
        RecoveryAbsent \<Rightarrow> True
      | RecoveryNull \<Rightarrow> True
      | Recovery enabled stages \<Rightarrow>
          1 \<le> length stages \<and> length stages \<le> 4 \<and> stages_ok enabled attack 0 0 stages \<and>
          (enabled \<longrightarrow> get_or (ac_allow_emergency cfg) False \<and> get_or (map_of (ac_thresholds cfg) ''emergency'') [] \<noteq> [] \<and>
             get_or (map_of (ac_thresholds cfg) ''attack'') [] \<noteq> []))"

definition validate_adaptive :: "adaptive_cfg \<Rightarrow> int \<times> int \<Rightarrow> bool" where
  "validate_adaptive cfg attack \<longleftrightarrow>
     list_all (\<lambda>v. 1 \<le> v \<and> v \<le> 3600) [get_or (ac_emergency_max_seconds cfg) 120, get_or (ac_emergency_rearm_seconds cfg) 60] \<and>
     (case ac_up_cooldown_seconds cfg of None \<Rightarrow> True | Some v \<Rightarrow> 0 \<le> v \<and> v \<le> 3600) \<and>
     set (map fst (get_or (ac_required_signals cfg) [])) \<subseteq> set (tl MODES) \<and>
     set (map fst (get_or (ac_immediate_signals cfg) [])) \<subseteq> set (tl MODES) \<and>
     list_all (\<lambda>v. 1 \<le> v \<and> v \<le> 3600) [ac_up_samples cfg, ac_down_samples cfg, ac_cooldown_seconds cfg] \<and>
     set (map fst (ac_thresholds cfg)) = set (tl MODES) \<and>
     (get_or (ac_allow_emergency cfg) False \<longrightarrow> emergency_guarded cfg) \<and>
     list_all (thresholds_ok cfg) (ac_thresholds cfg) \<and> recovery_ok cfg attack"

end
