(* ===== verification/Adaptive_Inv.thy ===== *)
theory Adaptive_Inv
  imports Adaptive
begin

text \<open>
  The mode selection as a state machine: with a validated configuration it never raises, the
  recovery stage is always one of the configured stages, the mode changes only for the reasons
  the configuration gives, and automatic EMERGENCY is bounded in time.
\<close>

section \<open>Targets\<close>

text \<open>The entry condition of a mode: some signal is high, and so is every required one.\<close>

definition mode_high :: "adaptive_cfg \<Rightarrow> signals \<Rightarrow> string \<Rightarrow> bool" where
  "mode_high cfg signals mode \<longleftrightarrow>
     (\<exists>bands. map_of (ac_thresholds cfg) mode = Some bands \<and> high_signals bands signals \<noteq> {} \<and>
        set (names_of (ac_required_signals cfg) mode) \<subseteq> high_signals bands signals)"

definition emergency_open :: "adaptive_cfg \<Rightarrow> adaptive \<Rightarrow> signals \<Rightarrow> f64 \<Rightarrow> bool" where
  "emergency_open cfg a signals now \<longleftrightarrow> get_or (ac_allow_emergency cfg) False \<and> \<not> now < ad_emergency_blocked_until a \<and>
     mode_high cfg signals ''emergency''"

lemma modes_enumerate: "enumerate 1 (tl MODES) = [(1, ''elevated''), (2, ''attack''), (3, ''emergency'')]"
  by (simp add: MODES_def)

definition has_thresholds :: "adaptive_cfg \<Rightarrow> bool" where
  "has_thresholds cfg \<longleftrightarrow> (\<forall>mode \<in> set (tl MODES). map_of (ac_thresholds cfg) mode \<noteq> None)"

lemma validated_thresholds: "validate_adaptive cfg attack \<Longrightarrow> has_thresholds cfg"
  by (auto simp: validate_adaptive_def has_thresholds_def map_of_eq_None_iff)

lemma target_turn_ok:
  assumes "map_of (ac_thresholds cfg) mode \<noteq> None"
  shows "\<exists>t' m'. target_turn cfg a signals now (i, mode) (Inr (t, m)) = Inr (t', m') \<and>
    (t' = t \<and> m' = m \<or> t' = i \<and> (m' = i \<or> m' = m) \<and> mode_high cfg signals mode \<and>
       (mode = ''emergency'' \<longrightarrow> emergency_open cfg a signals now))"
  using assms by (auto simp: target_turn_def Let_def mode_high_def emergency_open_def list_all_iff)

lemma mode_targets_ok:
  assumes "has_thresholds cfg"
  shows "\<exists>t m. mode_targets cfg a signals now = Inr (t, m) \<and> m \<le> t \<and> t \<le> 3 \<and> (t = 3 \<longrightarrow> emergency_open cfg a signals now) \<and>
    (t \<noteq> 0 \<longrightarrow> mode_high cfg signals (MODES ! t)) \<and> (m \<noteq> 0 \<longrightarrow> mode_high cfg signals (MODES ! m))"
proof -
  from assms have th: "map_of (ac_thresholds cfg) ''elevated'' \<noteq> None" "map_of (ac_thresholds cfg) ''attack'' \<noteq> None"
    "map_of (ac_thresholds cfg) ''emergency'' \<noteq> None"
    by (auto simp: has_thresholds_def MODES_def)
  obtain t1 m1 where 1: "target_turn cfg a signals now (1, ''elevated'') (Inr (0, 0)) = Inr (t1, m1)"
    "t1 = 0 \<and> m1 = 0 \<or> t1 = 1 \<and> (m1 = 1 \<or> m1 = 0) \<and> mode_high cfg signals ''elevated''"
    using target_turn_ok [OF th(1), of a signals now 1 0 0] by blast
  obtain t2 m2 where 2: "target_turn cfg a signals now (2, ''attack'') (Inr (t1, m1)) = Inr (t2, m2)"
    "t2 = t1 \<and> m2 = m1 \<or> t2 = 2 \<and> (m2 = 2 \<or> m2 = m1) \<and> mode_high cfg signals ''attack''"
    using target_turn_ok [OF th(2), of a signals now 2 t1 m1] by blast
  obtain t3 m3 where 3: "target_turn cfg a signals now (3, ''emergency'') (Inr (t2, m2)) = Inr (t3, m3)"
    "t3 = t2 \<and> m3 = m2 \<or> t3 = 3 \<and> (m3 = 3 \<or> m3 = m2) \<and> mode_high cfg signals ''emergency'' \<and> emergency_open cfg a signals now"
    using target_turn_ok [OF th(3), of a signals now 3 t2 m2] by blast
  have "mode_targets cfg a signals now = Inr (t3, m3)"
    unfolding mode_targets_def modes_enumerate using 1(1) 2(1) 3(1) by simp
  moreover have "MODES ! 1 = ''elevated''" "MODES ! 2 = ''attack''" "MODES ! 3 = ''emergency''" by (simp_all add: MODES_def)
  ultimately show ?thesis using 1(2) 2(2) 3(2) by auto
qed

section \<open>The invariant\<close>

text \<open>While a recovery runs, the mode is ATTACK and the stage is one of those configured.\<close>

definition adaptive_inv :: "adaptive_cfg \<Rightarrow> adaptive \<Rightarrow> bool" where
  "adaptive_inv cfg a \<longleftrightarrow> ad_mode a \<le> EMERGENCY \<and> - 1 \<le> ad_recovery_index a \<and>
     (0 \<le> ad_recovery_index a \<longrightarrow> ad_mode a = ATTACK \<and>
        (\<exists>stages. ac_recovery cfg = Recovery True stages \<and> nat (ad_recovery_index a) < length stages))"

definition sane_cfg :: "adaptive_cfg \<Rightarrow> bool" where
  "sane_cfg cfg \<longleftrightarrow> has_thresholds cfg \<and> 1 \<le> ac_down_samples cfg \<and>
     (case ac_recovery cfg of RecoveryAbsent \<Rightarrow> True | RecoveryNull \<Rightarrow> False | Recovery _ stages \<Rightarrow> stages \<noteq> [])"

lemma validated_sane: "validate_adaptive cfg attack \<Longrightarrow> ac_recovery cfg \<noteq> RecoveryNull \<Longrightarrow> sane_cfg cfg"
  using validated_thresholds [of cfg attack]
  by (auto simp: sane_cfg_def validate_adaptive_def recovery_ok_def split: recovery.splits)

text \<open>What a sample may do to the mode, to the time of its last change and to the block of EMERGENCY.\<close>

datatype mode_change = Stays | Rises | Relaxes | Expires

fun changes :: "adaptive_cfg \<Rightarrow> signals \<Rightarrow> f64 \<Rightarrow> adaptive \<Rightarrow> adaptive \<Rightarrow> mode_change \<Rightarrow> bool" where
  "changes cfg signals now a a' Stays \<longleftrightarrow> ad_mode a' = ad_mode a \<and> ad_changed a' = ad_changed a \<and>
     ad_emergency_blocked_until a' = ad_emergency_blocked_until a"
| "changes cfg signals now a a' Rises \<longleftrightarrow> ad_mode a < ad_mode a' \<and> ad_changed a' = now \<and>
     ad_emergency_blocked_until a' = ad_emergency_blocked_until a \<and> mode_high cfg signals (MODES ! ad_mode a') \<and>
     (ad_mode a' = EMERGENCY \<longrightarrow> emergency_open cfg a signals now)"
| "changes cfg signals now a a' Relaxes \<longleftrightarrow> ad_mode a' + 1 = ad_mode a \<and> ad_changed a' = now \<and>
     ad_emergency_blocked_until a' = ad_emergency_blocked_until a \<and> below_exit cfg (ad_mode a) signals \<and>
     py_int (ac_cooldown_seconds cfg) \<le> now - ad_changed a"
| "changes cfg signals now a a' Expires \<longleftrightarrow> ad_mode a = EMERGENCY \<and> ad_mode a' = ATTACK \<and> ad_changed a' = now \<and>
     ad_emergency_blocked_until a' = now + py_int (get_or (ac_emergency_rearm_seconds cfg) 60) \<and>
     py_int (get_or (ac_emergency_max_seconds cfg) 120) \<le> now - ad_changed a"

lemma expire_ok:
  assumes "sane_cfg cfg" "ad_mode a = EMERGENCY" "py_int (get_or (ac_emergency_max_seconds cfg) 120) \<le> now - ad_changed a"
  shows "\<exists>a'. expire_emergency cfg now a = (None, a') \<and> adaptive_inv cfg a' \<and> changes cfg signals now a a' Expires"
  using assms
  by (cases "ac_recovery cfg")
    (auto simp: expire_emergency_def recovery_enabled_def sane_cfg_def mode_transition_def start_recovery_def adaptive_inv_def Let_def)

lemma sample_recovery_ok:
  assumes "adaptive_inv cfg a" "0 \<le> ad_recovery_index a"
  shows "\<exists>a'. sample_recovery cfg signals now target a = (None, a') \<and> adaptive_inv cfg a' \<and> changes cfg signals now a a' Stays"
proof -
  from assms obtain stages where st: "ac_recovery cfg = Recovery True stages" "nat (ad_recovery_index a) < length stages"
    "ad_mode a = ATTACK" by (auto simp: adaptive_inv_def)
  then have "stages \<noteq> []" by auto
  moreover have "nat (ad_recovery_index a + 1) < length stages" if "ad_recovery_index a + 1 \<noteq> int (length stages)"
    using that st(2) assms(2) by linarith
  ultimately show ?thesis
    using st assms(2) by (auto simp: sample_recovery_def stage_at_def start_recovery_def adaptive_inv_def Let_def)
qed

lemma mode_escalate_ok:
  assumes "adaptive_inv cfg a" "ad_mode a < target" "target \<le> EMERGENCY" "mode_high cfg signals (MODES ! target)"
    and "target = EMERGENCY \<longrightarrow> emergency_open cfg a signals now"
  shows "adaptive_inv cfg (mode_escalate cfg target now a)"
    and "\<exists>k \<in> {Stays, Rises}. changes cfg signals now a (mode_escalate cfg target now a) k"
  using assms by (auto simp: mode_escalate_def mode_transition_def adaptive_inv_def Let_def)

lemma mode_relax_ok:
  assumes "sane_cfg cfg" "adaptive_inv cfg a" "ad_recovery_index a < 0"
  shows "\<exists>a'. mode_relax cfg signals now a = (None, a') \<and> adaptive_inv cfg a' \<and>
    (\<exists>k \<in> {Stays, Relaxes}. changes cfg signals now a a' k)"
proof (cases "ad_mode a \<noteq> 0 \<and> (if below_exit cfg (ad_mode a) signals then ad_down a + 1 else 0) \<ge> ac_down_samples cfg \<and>
    py_int (ac_cooldown_seconds cfg) \<le> now - ad_changed a")
  case True
  with assms(1) have below: "below_exit cfg (ad_mode a) signals" by (auto simp: sane_cfg_def split: if_splits)
  define b where "b = a\<lparr>ad_up := 0, ad_down := 0, ad_mode := ad_mode a - 1, ad_changed := now\<rparr>"
  have relax: "mode_relax cfg signals now a = (if ad_mode a = EMERGENCY then
      (case recovery_enabled cfg of Inl e \<Rightarrow> (Some e, b) | Inr enabled \<Rightarrow> (None, if enabled then start_recovery now b else b)) else (None, b))"
  proof -
    have "ad_mode a - 1 \<noteq> EMERGENCY" using assms(2) unfolding adaptive_inv_def by arith
    with True below have "mode_relax cfg signals now a = (let b' = (mode_transition (ad_mode a - 1) now
        (a\<lparr>ad_up := 0, ad_down := ad_down a + 1\<rparr>))\<lparr>ad_down := 0\<rparr> in if ad_mode a = EMERGENCY then
      (case recovery_enabled cfg of Inl e \<Rightarrow> (Some e, b') | Inr enabled \<Rightarrow> (None, if enabled then start_recovery now b' else b'))
      else (None, b'))" by (simp add: mode_relax_def mode_transition_def Let_def split: sum.split)
    also have "(mode_transition (ad_mode a - 1) now (a\<lparr>ad_up := 0, ad_down := ad_down a + 1\<rparr>))\<lparr>ad_down := 0\<rparr> = b"
      using \<open>ad_mode a - 1 \<noteq> EMERGENCY\<close> by (cases a) (simp add: mode_transition_def b_def)
    finally show ?thesis by (simp add: Let_def)
  qed
  have b: "adaptive_inv cfg b" "changes cfg signals now a b Relaxes" "changes cfg signals now a (start_recovery now b) Relaxes"
    using True below assms(2,3) by (auto simp: adaptive_inv_def b_def start_recovery_def)
  moreover have "adaptive_inv cfg (start_recovery now b)" if "ad_mode a = EMERGENCY" "recovery_enabled cfg = Inr True"
    using that assms(1) by (simp add: adaptive_inv_def b_def start_recovery_def recovery_enabled_def sane_cfg_def split: recovery.splits)
  moreover have "\<exists>enabled. recovery_enabled cfg = Inr enabled"
    using assms(1) by (cases "ac_recovery cfg") (auto simp: recovery_enabled_def sane_cfg_def)
  ultimately show ?thesis unfolding relax by (cases "ad_mode a = EMERGENCY") (auto simp del: changes.simps)
next
  case False
  then have "mode_relax cfg signals now a =
      (None, a\<lparr>ad_up := 0, ad_down := (if below_exit cfg (ad_mode a) signals then ad_down a + 1 else 0)\<rparr>)"
    by (auto simp: mode_relax_def Let_def)
  with assms(2) show ?thesis by (simp add: adaptive_inv_def)
qed

declare changes.simps [simp del]

lemma adaptive_sample_ok:
  assumes "sane_cfg cfg" "adaptive_inv cfg a"
  shows "\<exists>a' k. adaptive_sample cfg signals now a = (None, a') \<and> adaptive_inv cfg a' \<and> changes cfg signals now a a' k \<and>
    (k = Expires \<longleftrightarrow> ad_mode a = EMERGENCY \<and> py_int (get_or (ac_emergency_max_seconds cfg) 120) \<le> now - ad_changed a)"
proof (cases "ad_mode a = EMERGENCY \<and> py_int (get_or (ac_emergency_max_seconds cfg) 120) \<le> now - ad_changed a")
  case True
  from expire_ok [OF assms(1) conjunct1 [OF True] conjunct2 [OF True]] obtain a' where "expire_emergency cfg now a = (None, a')" "adaptive_inv cfg a'"
    "changes cfg signals now a a' Expires" by blast
  moreover from True have "adaptive_sample cfg signals now a = expire_emergency cfg now a" by (simp add: adaptive_sample_def)
  ultimately show ?thesis using True by (intro exI [of _ a'] exI [of _ Expires]) simp
next
  case False
  obtain t m where tm: "mode_targets cfg a signals now = Inr (t, m)" "m \<le> t" "t \<le> 3"
    "t = 3 \<longrightarrow> emergency_open cfg a signals now" "t \<noteq> 0 \<longrightarrow> mode_high cfg signals (MODES ! t)" "m \<noteq> 0 \<longrightarrow> mode_high cfg signals (MODES ! m)"
    using mode_targets_ok [of cfg a signals now] assms(1) by (auto simp: sane_cfg_def)
  have run: "adaptive_sample cfg signals now a =
      (if m > ad_mode a then (None, (mode_transition m now a)\<lparr>ad_up := 0, ad_down := 0, ad_target := 0\<rparr>)
       else if ad_mode a = ATTACK \<and> ad_recovery_index a \<ge> 0 \<and> t < EMERGENCY then sample_recovery cfg signals now t a
       else if t > ad_mode a then (None, mode_escalate cfg t now a) else mode_relax cfg signals now a)"
    unfolding adaptive_sample_def if_not_P [OF False] tm(1) by simp
  have "\<exists>a' k. adaptive_sample cfg signals now a = (None, a') \<and> adaptive_inv cfg a' \<and> changes cfg signals now a a' k \<and> k \<noteq> Expires"
  proof (cases "m > ad_mode a")
    case imm: True
    let ?a = "(mode_transition m now a)\<lparr>ad_up := 0, ad_down := 0, ad_target := 0\<rparr>"
    have "adaptive_inv cfg ?a" "changes cfg signals now a ?a Rises"
      using imm tm assms(2) by (auto simp: mode_transition_def adaptive_inv_def changes.simps Let_def)
    with run imm show ?thesis by (intro exI [of _ ?a] exI [of _ Rises]) simp
  next
    case imm: False
    show ?thesis
    proof (cases "ad_mode a = ATTACK \<and> ad_recovery_index a \<ge> 0 \<and> t < EMERGENCY")
      case True
      with sample_recovery_ok [OF assms(2)] obtain a' where "sample_recovery cfg signals now t a = (None, a')" "adaptive_inv cfg a'"
        "changes cfg signals now a a' Stays" by blast
      with run imm True show ?thesis by (intro exI [of _ a'] exI [of _ Stays]) simp
    next
      case rec: False
      show ?thesis
      proof (cases "t > ad_mode a")
        case True
        with tm(5) have "mode_high cfg signals (MODES ! t)" by simp
        from mode_escalate_ok [OF assms(2) True tm(3) this tm(4)] obtain k
          where "k \<in> {Stays, Rises}" "changes cfg signals now a (mode_escalate cfg t now a) k" "adaptive_inv cfg (mode_escalate cfg t now a)" by blast
        with run imm rec True show ?thesis by (intro exI [of _ "mode_escalate cfg t now a"] exI [of _ k]) auto
      next
        case False
        have "ad_recovery_index a < 0" using assms(2) rec False tm(3) imm by (auto simp: adaptive_inv_def)
        from mode_relax_ok [OF assms this, of signals now] obtain a' k where "mode_relax cfg signals now a = (None, a')" "adaptive_inv cfg a'"
          "k \<in> {Stays, Relaxes}" "changes cfg signals now a a' k" by blast
        with run imm rec False show ?thesis by (intro exI [of _ a'] exI [of _ k]) auto
      qed
    qed
  qed
  then obtain a' k where "adaptive_sample cfg signals now a = (None, a')" "adaptive_inv cfg a'" "changes cfg signals now a a' k" "k \<noteq> Expires"
    by blast
  with False show ?thesis by (intro exI [of _ a'] exI [of _ k]) simp
qed

section \<open>Runs\<close>

text \<open>The controller dies of an exception, so a run ends there.\<close>

inductive adaptive_step :: "adaptive_cfg \<Rightarrow> adaptive \<Rightarrow> adaptive \<Rightarrow> bool" for cfg :: adaptive_cfg where
  adaptive_samples: "adaptive_sample cfg signals now a = (None, a') \<Longrightarrow> adaptive_step cfg a a'"

abbreviation adaptive_reachable :: "adaptive_cfg \<Rightarrow> adaptive \<Rightarrow> bool" where
  "adaptive_reachable cfg \<equiv> reachable (\<lambda>a. \<exists>now. a = adaptive_init now) (adaptive_step cfg)"

interpretation adapt: invariant_system "\<lambda>a. \<exists>now. a = adaptive_init now" "adaptive_step cfg"
    "\<lambda>a. sane_cfg cfg \<longrightarrow> adaptive_inv cfg a" for cfg
proof
  fix a a'
  assume inv: "sane_cfg cfg \<longrightarrow> adaptive_inv cfg a" and "adaptive_step cfg a a'"
  then obtain signals now where s: "adaptive_sample cfg signals now a = (None, a')" by (auto elim: adaptive_step.cases)
  show "sane_cfg cfg \<longrightarrow> adaptive_inv cfg a'"
    using adaptive_sample_ok [of cfg a signals now] inv s by auto
qed (auto simp: adaptive_init_def adaptive_inv_def)

fun adaptive_run :: "adaptive_cfg \<Rightarrow> (signals \<times> f64) list \<Rightarrow> adaptive \<Rightarrow> adaptive list" where
  "adaptive_run cfg [] a = []"
| "adaptive_run cfg ((signals, now) # xs) a =
     (case adaptive_sample cfg signals now a of (None, a') \<Rightarrow> a' # adaptive_run cfg xs a' | (Some e, a') \<Rightarrow> [])"

lemma deadline_reached:
  assumes "n < (2 :: nat) ^ 53" "t0 + of_nat n \<le> t"
  shows "py_int (int n) \<le> Fin t - Fin t0"
proof -
  have "f64_of_rat (of_nat n) \<le> f64_of_rat (t - t0)" using assms(2) by (intro f64_of_rat_mono) simp
  moreover have "f64_of_rat (of_nat n) = Fin (of_nat n)" using f64_of_nat_exact [OF assms(1)] by (simp add: f64_of_nat_def)
  ultimately show ?thesis by (simp add: minus_f64_def)
qed

lemma emergency_stays:
  assumes "sane_cfg cfg" "adaptive_inv cfg a" "ad_mode a = EMERGENCY" "adaptive_sample cfg signals now a = (None, a')" "ad_mode a' = EMERGENCY"
  shows "ad_changed a' = ad_changed a" "adaptive_inv cfg a'" "\<not> py_int (get_or (ac_emergency_max_seconds cfg) 120) \<le> now - ad_changed a"
proof -
  from adaptive_sample_ok [OF assms(1,2), of signals now] assms(4) obtain k where k: "changes cfg signals now a a' k"
    "k = Expires \<longleftrightarrow> ad_mode a = EMERGENCY \<and> py_int (get_or (ac_emergency_max_seconds cfg) 120) \<le> now - ad_changed a"
    and inv: "adaptive_inv cfg a'" by auto
  show "adaptive_inv cfg a'" by (rule inv)
  have "k = Stays" using k(1) assms(3,5) by (cases k) (auto simp: changes.simps)
  with k assms(3) show "ad_changed a' = ad_changed a" "\<not> py_int (get_or (ac_emergency_max_seconds cfg) 120) \<le> now - ad_changed a"
    by (auto simp: changes.simps)
qed

lemma emergency_run:
  assumes "sane_cfg cfg" "adaptive_inv cfg a" "ad_mode a = EMERGENCY" "\<forall>b \<in> set (adaptive_run cfg xs a). ad_mode b = EMERGENCY"
  shows "\<forall>(signals, now) \<in> set xs. \<not> py_int (get_or (ac_emergency_max_seconds cfg) 120) \<le> now - ad_changed a"
  using assms
proof (induction xs arbitrary: a)
  case (Cons x xs)
  obtain signals now where x: "x = (signals, now)" by fastforce
  obtain a' where s: "adaptive_sample cfg signals now a = (None, a')"
    using adaptive_sample_ok [OF Cons.prems(1,2)] by blast
  with Cons.prems(4) x have m: "ad_mode a' = EMERGENCY" "\<forall>b \<in> set (adaptive_run cfg xs a'). ad_mode b = EMERGENCY" by auto
  note st = emergency_stays [OF Cons.prems(1-3) s m(1)]
  from Cons.IH [OF Cons.prems(1) st(2) m] st(1,3) x show ?case by simp
qed simp

lemma blocked_run:
  assumes "sane_cfg cfg" "adaptive_inv cfg a" "ad_mode a \<noteq> EMERGENCY" "\<forall>(signals, now) \<in> set xs. now < ad_emergency_blocked_until a"
  shows "\<forall>b \<in> set (adaptive_run cfg xs a). ad_mode b \<noteq> EMERGENCY"
  using assms
proof (induction xs arbitrary: a)
  case (Cons x xs)
  obtain signals now where x: "x = (signals, now)" by fastforce
  obtain a' k where s: "adaptive_sample cfg signals now a = (None, a')" "adaptive_inv cfg a'" "changes cfg signals now a a' k"
    using adaptive_sample_ok [OF Cons.prems(1,2)] by blast
  have "ad_mode a' \<noteq> EMERGENCY \<and> ad_emergency_blocked_until a' = ad_emergency_blocked_until a"
    using s(2,3) Cons.prems(2-4) x by (cases k) (auto simp: changes.simps emergency_open_def adaptive_inv_def)
  with Cons.IH [OF Cons.prems(1) s(2)] s(1) Cons.prems(4) x show ?case by auto
qed simp

lemma stages_ok_nth:
  "stages_ok True attack r b ss \<Longrightarrow> i < length ss \<Longrightarrow> sg_rate (ss ! i) \<le> fst attack \<and> sg_burst (ss ! i) \<le> snd attack"
proof (induction ss arbitrary: r b i)
  case (Cons s ss)
  then show ?case by (cases i) auto
qed simp

section \<open>A configuration\<close>

text \<open>Automatic EMERGENCY with both kinds of guards and one stage of recovery, and signals that trigger it.\<close>

definition demo_cfg :: "recovery \<Rightarrow> adaptive_cfg" where
  "demo_cfg rec = \<lparr>ac_up_samples = 3, ac_down_samples = 5, ac_cooldown_seconds = 60, ac_up_cooldown_seconds = Some 0,
     ac_thresholds = [(''elevated'', [(''pps'', \<lparr>bd_enter = Fin 1000, bd_exit = Fin 500\<rparr>)]),
       (''attack'', [(''conntrack_percent'', \<lparr>bd_enter = Fin 80, bd_exit = Fin 40\<rparr>)]),
       (''emergency'', [(''syn_per_second'', \<lparr>bd_enter = Fin 5000, bd_exit = Fin 100\<rparr>),
          (''conntrack_percent'', \<lparr>bd_enter = Fin 95, bd_exit = Fin 50\<rparr>)])],
     ac_required_signals = Some [(''emergency'', [''syn_per_second'', ''conntrack_percent''])],
     ac_immediate_signals = Some [(''emergency'', [''syn_per_second''])], ac_allow_emergency = Some True, ac_recovery = rec,
     ac_emergency_max_seconds = Some 30, ac_emergency_rearm_seconds = None\<rparr>"

definition demo_recovery :: recovery where
  "demo_recovery = Recovery True [\<lparr>sg_seconds = 20, sg_rate = 16, sg_burst = 32\<rparr>]"

definition flood :: signals where
  "flood = [''syn_per_second'' \<mapsto> Fin 9000, ''conntrack_percent'' \<mapsto> Fin 97]"

definition frozen :: "recovery \<Rightarrow> adaptive" where
  "frozen rec = snd (adaptive_sample (demo_cfg rec) flood (Fin 1) (adaptive_init (Fin 0)))"

lemma demo_validated: "validate_adaptive (demo_cfg demo_recovery) (128, 512)" "validate_adaptive (demo_cfg RecoveryNull) (128, 512)"
  by code_simp+

lemma demo_not_null: "ac_recovery (demo_cfg demo_recovery) \<noteq> RecoveryNull"
  by (simp add: demo_cfg_def demo_recovery_def)

lemma frozen_sample: "fst (adaptive_sample (demo_cfg rec) flood (Fin 1) (adaptive_init (Fin 0))) = None"
  and frozen_mode: "ad_mode (frozen rec) = EMERGENCY" and frozen_changed: "ad_changed (frozen rec) = Fin 1"
  by code_simp+

lemma frozen_reachable: "adaptive_reachable (demo_cfg rec) (frozen rec)"
proof (rule reach_step)
  show "adaptive_reachable (demo_cfg rec) (adaptive_init (Fin 0))" by (rule reach_init) blast
  show "adaptive_step (demo_cfg rec) (adaptive_init (Fin 0)) (frozen rec)"
    using frozen_sample [of rec] by (intro adaptive_samples [of _ flood "Fin 1"]) (simp add: frozen_def prod_eq_iff)
qed

lemma frozen_deadline: "py_int (get_or (ac_emergency_max_seconds (demo_cfg rec)) 120) \<le> Fin 40 - ad_changed (frozen rec)"
  using deadline_reached [of 30 1 40] by (simp add: demo_cfg_def frozen_changed)

section \<open>Properties\<close>

lemma reachable_inv:
  "validate_adaptive cfg attack \<Longrightarrow> ac_recovery cfg \<noteq> RecoveryNull \<Longrightarrow> adaptive_reachable cfg a \<Longrightarrow> sane_cfg cfg \<and> adaptive_inv cfg a"
  using adapt.always [of cfg a] validated_sane by blast

text \<open>
  C17: The controller's mode selection does not go wrong: with a validated configuration whose
  recovery section is not null, in every reachable state no sample of any signals at any
  time raises, the mode is one of the four, and there is a SYN budget to publish; in ATTACK,
  staged recovery included, it is at most the budget configured for ATTACK.
\<close>

theorem adaptive_typed:
  assumes "validate_adaptive cfg attack" "ac_recovery cfg \<noteq> RecoveryNull" "adaptive_reachable cfg a"
    and "budgets ''attack'' = Some attack" "set MODES \<subseteq> dom budgets"
  shows "(\<forall>signals now. fst (adaptive_sample cfg signals now a) = None) \<and> ad_mode a \<le> EMERGENCY \<and>
    (\<exists>rate burst. adaptive_syn_budget cfg budgets a = Inr (rate, burst) \<and>
       (ad_mode a = ATTACK \<longrightarrow> rate \<le> fst attack \<and> burst \<le> snd attack))"
proof -
  from reachable_inv [OF assms(1-3)] have ok: "sane_cfg cfg" "adaptive_inv cfg a" by auto
  have raise: "fst (adaptive_sample cfg signals now a) = None" for signals now
    using adaptive_sample_ok [OF ok, of signals now] by auto
  have mode: "ad_mode a \<le> EMERGENCY" using ok(2) by (simp add: adaptive_inv_def)
  have "\<exists>rate burst. adaptive_syn_budget cfg budgets a = Inr (rate, burst) \<and>
       (ad_mode a = ATTACK \<longrightarrow> rate \<le> fst attack \<and> burst \<le> snd attack)"
  proof (cases "0 \<le> ad_recovery_index a")
    case True
    with ok(2) obtain stages where st: "ac_recovery cfg = Recovery True stages" "nat (ad_recovery_index a) < length stages" "ad_mode a = ATTACK"
      by (auto simp: adaptive_inv_def)
    with assms(1) have "stages_ok True attack 0 0 stages" by (simp add: validate_adaptive_def recovery_ok_def)
    from stages_ok_nth [OF this st(2)] st True show ?thesis by (simp add: adaptive_syn_budget_def stage_at_def)
  next
    case False
    from mode have "MODES ! ad_mode a \<in> set MODES" by (intro nth_mem) (simp add: MODES_def)
    with assms(5) obtain b where b: "budgets (MODES ! ad_mode a) = Some b" by blast
    have "ad_mode a = ATTACK \<longrightarrow> b = attack" using b assms(4) by (auto simp: MODES_def)
    with b False show ?thesis by (cases b) (auto simp: adaptive_syn_budget_def)
  qed
  with raise mode show ?thesis by blast
qed

theorem adaptive_typed_witness:
  "\<exists>rate burst. adaptive_syn_budget (demo_cfg demo_recovery) (\<lambda>_. Some (128, 512)) (frozen demo_recovery) = Inr (rate, burst)"
  using adaptive_typed [OF demo_validated(1) demo_not_null frozen_reachable, of "\<lambda>_. Some (128, 512)"] by auto

text \<open>
  C15: Automatic EMERGENCY has a hard deadline: while it lasts, whatever the telemetry says or
  omits, every sample is taken less than emergency_max_seconds after it began, in the
  rounded arithmetic of the clock; so it ends at the first sample at or after the deadline.
\<close>

theorem emergency_deadline:
  assumes "validate_adaptive cfg attack" "ac_recovery cfg \<noteq> RecoveryNull" "adaptive_reachable cfg a"
    and "ad_mode a = EMERGENCY" "ad_changed a = Fin t0" "\<forall>b \<in> set (adaptive_run cfg xs a). ad_mode b = EMERGENCY"
  shows "\<forall>(signals, now) \<in> set xs. \<forall>t. now = Fin t \<longrightarrow> t < t0 + of_int (get_or (ac_emergency_max_seconds cfg) 120)"
proof -
  let ?n = "get_or (ac_emergency_max_seconds cfg) 120"
  from reachable_inv [OF assms(1-3)] have ok: "sane_cfg cfg" "adaptive_inv cfg a" by auto
  have n: "1 \<le> ?n" "?n \<le> 3600" using assms(1) by (auto simp: validate_adaptive_def)
  have "t < t0 + of_int ?n" if "(signals, Fin t) \<in> set xs" for signals t
  proof (rule ccontr)
    assume "\<not> t < t0 + of_int ?n"
    then have "py_int (int (nat ?n)) \<le> Fin t - Fin t0" using n by (intro deadline_reached) auto
    with n have "py_int ?n \<le> Fin t - Fin t0" by simp
    with emergency_run [OF ok assms(4,6)] that assms(5) show False by auto
  qed
  then show ?thesis by auto
qed

theorem emergency_deadline_witness:
  "\<exists>b \<in> set (adaptive_run (demo_cfg demo_recovery) [(flood, Fin 20), (Map.empty, Fin 31)] (frozen demo_recovery)). ad_mode b \<noteq> EMERGENCY"
proof (rule ccontr)
  assume "\<not> ?thesis"
  then have "\<forall>b \<in> set (adaptive_run (demo_cfg demo_recovery) [(flood, Fin 20), (Map.empty, Fin 31)] (frozen demo_recovery)). ad_mode b = EMERGENCY"
    by blast
  from emergency_deadline [OF demo_validated(1) demo_not_null frozen_reachable frozen_mode frozen_changed this] show False
    by (simp add: demo_cfg_def)
qed

text \<open>
  No immediate freeze after a timeout: once EMERGENCY has expired at some time, no sample
  taken before emergency_rearm_seconds have passed returns to it, whatever the signals.
\<close>

theorem emergency_rearm:
  assumes "validate_adaptive cfg attack" "ac_recovery cfg \<noteq> RecoveryNull" "adaptive_reachable cfg a" "ad_mode a = EMERGENCY"
    and "py_int (get_or (ac_emergency_max_seconds cfg) 120) \<le> now - ad_changed a"
    and "\<forall>(signals, t) \<in> set xs. t < now + py_int (get_or (ac_emergency_rearm_seconds cfg) 60)"
  shows "\<exists>a'. adaptive_sample cfg signals now a = (None, a') \<and> ad_mode a' = ATTACK \<and>
    (\<forall>b \<in> set (adaptive_run cfg xs a'). ad_mode b \<noteq> EMERGENCY)"
proof -
  from reachable_inv [OF assms(1-3)] have ok: "sane_cfg cfg" "adaptive_inv cfg a" by auto
  from adaptive_sample_ok [OF ok, of signals now] assms(4,5) obtain a' where s: "adaptive_sample cfg signals now a = (None, a')"
    "adaptive_inv cfg a'" "changes cfg signals now a a' Expires" by auto
  then have "ad_mode a' = ATTACK" "ad_emergency_blocked_until a' = now + py_int (get_or (ac_emergency_rearm_seconds cfg) 60)"
    by (simp_all add: changes.simps)
  with blocked_run [OF ok(1) s(2)] assms(6) s(1) show ?thesis by auto
qed

theorem emergency_rearm_witness:
  "\<exists>a'. adaptive_sample (demo_cfg demo_recovery) flood (Fin 40) (frozen demo_recovery) = (None, a') \<and> ad_mode a' = ATTACK \<and>
     (\<forall>b \<in> set (adaptive_run (demo_cfg demo_recovery) [(flood, Fin 41), (flood, Fin 99)] a'). ad_mode b \<noteq> EMERGENCY)"
  by (rule emergency_rearm [OF demo_validated(1) demo_not_null frozen_reachable frozen_mode frozen_deadline])
    (simp add: demo_cfg_def less_f64_def f64_of_rat_def)

text \<open>The signal is over its entry threshold for the mode.\<close>

definition signal_high :: "adaptive_cfg \<Rightarrow> signals \<Rightarrow> string \<Rightarrow> string \<Rightarrow> bool" where
  "signal_high cfg signals mode n \<longleftrightarrow> (\<exists>bands band v. map_of (ac_thresholds cfg) mode = Some bands \<and> (n, band) \<in> set bands \<and>
     signals n = Some v \<and> is_finite v \<and> bd_enter band \<le> v)"

lemma high_signals_iff: "n \<in> high_signals bands signals \<longleftrightarrow>
    (\<exists>band v. (n, band) \<in> set bands \<and> signals n = Some v \<and> is_finite v \<and> bd_enter band \<le> v)"
  by (auto simp: high_signals_def image_iff split: option.splits)

lemma mode_high_required:
  assumes "mode_high cfg signals mode" "n \<in> set (names_of (ac_required_signals cfg) mode)"
  shows "signal_high cfg signals mode n"
  using assms unfolding mode_high_def signal_high_def by (auto simp: high_signals_iff subset_iff)

text \<open>
  C16: The mode moves only for a reason. It rises only to a mode that has a high signal and all of
  its required ones high; to EMERGENCY only when automatic EMERGENCY is allowed and not
  blocked, and then both a connection anomaly and a resource pressure are measured over
  their thresholds, so that no single signal can freeze the service. It falls by one mode at
  a time, after the cooldown and with every signal of the mode present, finite and at or
  below its exit threshold; only the deadline of EMERGENCY lowers it without telemetry.
\<close>

theorem mode_changes_justified:
  assumes "validate_adaptive cfg attack" "ac_recovery cfg \<noteq> RecoveryNull" "adaptive_reachable cfg a"
    and "adaptive_sample cfg signals now a = (None, a')"
  shows "(ad_mode a < ad_mode a' \<longrightarrow>
       (\<exists>n. signal_high cfg signals (MODES ! ad_mode a') n) \<and>
       (\<forall>n \<in> set (names_of (ac_required_signals cfg) (MODES ! ad_mode a')). signal_high cfg signals (MODES ! ad_mode a') n)) \<and>
    (ad_mode a < ad_mode a' \<and> ad_mode a' = EMERGENCY \<longrightarrow>
       get_or (ac_allow_emergency cfg) False \<and> \<not> now < ad_emergency_blocked_until a \<and>
       (\<exists>n \<in> set traffic_signals. signal_high cfg signals ''emergency'' n) \<and>
       (\<exists>n \<in> set pressure_signals. signal_high cfg signals ''emergency'' n)) \<and>
    (ad_mode a' < ad_mode a \<longrightarrow> ad_mode a' + 1 = ad_mode a \<and>
       (below_exit cfg (ad_mode a) signals \<and> py_int (ac_cooldown_seconds cfg) \<le> now - ad_changed a \<or>
        ad_mode a = EMERGENCY \<and> py_int (get_or (ac_emergency_max_seconds cfg) 120) \<le> now - ad_changed a))"
proof -
  from reachable_inv [OF assms(1-3)] have ok: "sane_cfg cfg" "adaptive_inv cfg a" by auto
  from adaptive_sample_ok [OF ok, of signals now] assms(4) obtain k where k: "changes cfg signals now a a' k" by auto
  have some: "\<exists>n. signal_high cfg signals mode n" if "mode_high cfg signals mode" for mode
    using that unfolding mode_high_def signal_high_def by (auto simp: high_signals_iff)
  have guards: "(\<exists>n \<in> set traffic_signals. signal_high cfg signals ''emergency'' n) \<and>
      (\<exists>n \<in> set pressure_signals. signal_high cfg signals ''emergency'' n)"
    if "mode_high cfg signals ''emergency''" "get_or (ac_allow_emergency cfg) False"
    using that assms(1) mode_high_required [OF that(1)]
    by (auto simp: validate_adaptive_def emergency_guarded_def Let_def list_ex_iff)
  show ?thesis
  proof (cases k)
    case Rises
    with k some guards mode_high_required show ?thesis by (auto simp: changes.simps emergency_open_def)
  qed (use k in \<open>auto simp: changes.simps\<close>)
qed

theorem mode_changes_justified_witness:
  "\<exists>n \<in> set pressure_signals. signal_high (demo_cfg demo_recovery) flood ''emergency'' n"
proof -
  have r: "adaptive_reachable (demo_cfg demo_recovery) (adaptive_init (Fin 0))" by (rule reach_init) blast
  have s: "adaptive_sample (demo_cfg demo_recovery) flood (Fin 1) (adaptive_init (Fin 0)) = (None, frozen demo_recovery)"
    using frozen_sample [of demo_recovery] by (simp add: frozen_def prod_eq_iff)
  have "ad_mode (adaptive_init (Fin 0)) < ad_mode (frozen demo_recovery)" by (simp add: adaptive_init_def frozen_mode)
  with mode_changes_justified [OF demo_validated(1) demo_not_null r s] frozen_mode show ?thesis by blast
qed



end
