(* ===== verification/Controller.thy ===== *)
theory Controller
  imports Controller_Policy Adaptive_Inv Runtime
begin

text \<open>
  The controller of \<^verbatim>\<open>src/controller/ddosctl.py\<close> and the writer of the gate's policy document in
  \<^verbatim>\<open>core.py\<close>: publishing to the gate, leasing the XDP filter, the tick, the operator's commands and
  the cleanup. The maps of the filter are changed by the loader's commands of the theory Loader.
  The telemetry of a tick is its argument \<open>signals\<close>; \<^verbatim>\<open>ipaddress.ip_network\<close> followed by
  \<^verbatim>\<open>str\<close> is the parameter \<open>network\<close>, and the prefixes of a configuration are in that printed form.
  Faults are arguments: what the loader's checks before a write report (\<open>fl\<close>, per call), and whether
  a file is written (\<open>wr\<close>, per write).
\<close>

section \<open>Configuration\<close>

record controller_cfg =
  co_manual_mode :: string
  co_observe :: bool
  co_ipv6 :: bool
  co_drop_tcp_fragments :: bool
  co_lease_seconds :: nat
  co_syn_per_cpu :: "(string \<times> (int \<times> int)) list"
  co_policy :: policy_cfg
  co_adaptive :: adaptive_cfg

text \<open>\<^verbatim>\<open>json.dumps\<close> of a number, a boolean and a list of printed prefixes, which need no escapes.\<close>

definition json_bool :: "bool \<Rightarrow> string" where
  "json_bool b = (if b then ''true'' else ''false'')"

definition json_quote :: "string \<Rightarrow> string" where
  "json_quote s = [CHR 0x22] @ s @ [CHR 0x22]"

fun json_items :: "string list \<Rightarrow> string" where
  "json_items [] = []"
| "json_items [s] = json_quote s"
| "json_items (s # ss) = json_quote s @ '', '' @ json_items ss"

definition json_field :: "string \<Rightarrow> string \<Rightarrow> string" where
  "json_field name val = json_quote name @ '': '' @ val"

definition blocked_prefixes :: "policy_cfg \<Rightarrow> string list" where
  "blocked_prefixes p = sorted_keys (pc_block_prefixes p @ pc_bogon_prefixes p)"

text \<open>\<open>None\<close> is the \<^verbatim>\<open>ValueError\<close> of \<^verbatim>\<open>bounded_json\<close>.\<close>

definition runtime_document :: "controller_cfg \<Rightarrow> nat \<Rightarrow> nat \<Rightarrow> nat \<Rightarrow> string option" where
  "runtime_document cfg generation expires_unix mode =
     (let text = ''{'' @ json_field ''generation'' (to_text generation) @ '', '' @
            json_field ''expires_unix'' (to_text expires_unix) @ '', '' @ json_field ''mode'' (to_text mode) @ '', '' @
            json_field ''observe'' (json_bool (co_observe cfg)) @ '', '' @
            json_field ''allow'' (''['' @ json_items (pc_allow_prefixes (co_policy cfg)) @ '']'') @ '', '' @
            json_field ''block'' (''['' @ json_items (blocked_prefixes (co_policy cfg)) @ '']'') @ ''}'' @ [CHR 0x0A]
      in if length text > 262144 then None else Some text)"

text \<open>
  \<^verbatim>\<open>validate\<close>, on the modelled part of the configuration; file names, URLs and the size of the printed
  configuration file are not part of it.
\<close>

definition budget_ok :: "int \<times> int \<Rightarrow> bool" where
  "budget_ok = (\<lambda>(rate, burst). 0 \<le> rate \<and> rate \<le> 1000000000 \<and> 0 \<le> burst \<and> burst \<le> 1000000 \<and> (rate = 0 \<longleftrightarrow> burst = 0))"

definition prefix_counts_ok :: "policy_cfg \<Rightarrow> bool" where
  "prefix_counts_ok p \<longleftrightarrow>
     list_all (\<lambda>ps. length ps \<le> 4096) [pc_owned_prefixes p, pc_allow_prefixes p, pc_block_prefixes p, pc_bogon_prefixes p] \<and>
     length (remdups (pc_block_prefixes p @ pc_bogon_prefixes p)) \<le> 4096"

definition validate_controller :: "controller_cfg \<Rightarrow> bool" where
  "validate_controller cfg \<longleftrightarrow>
     co_manual_mode cfg \<in> set (MODES @ [''auto'']) \<and> 5 \<le> co_lease_seconds cfg \<and> co_lease_seconds cfg \<le> 15 \<and>
     prefix_counts_ok (co_policy cfg) \<and>
     list_all (\<lambda>ps. length ps \<le> 65535) [pc_protected_tcp_ports (co_policy cfg), pc_drop_tcp_ports (co_policy cfg), pc_drop_udp_ports (co_policy cfg)] \<and>
     ports_ok (co_policy cfg) \<and>
     set (map fst (co_syn_per_cpu cfg)) = set MODES \<and> distinct (map fst (co_syn_per_cpu cfg)) \<and>
     list_all (\<lambda>(_, b). budget_ok b) (co_syn_per_cpu cfg) \<and>
     validate_adaptive (co_adaptive cfg) (the (map_of (co_syn_per_cpu cfg) ''attack'')) \<and>
     runtime_document cfg (2 ^ 64 - 1) (2 ^ 64 - 1) 3 \<noteq> None"

section \<open>The controller\<close>

record controller =
  ct_cfg :: controller_cfg
  ct_adaptive :: adaptive
  ct_mode :: nat
  ct_generation :: nat
  ct_stopping :: bool

text \<open>What the controller writes: the gate's policy file, its own configuration file and the maps.\<close>

record 'm world =
  wo_runtime_file :: string
  wo_config_file :: controller_cfg
  wo_maps :: "'m xdp_maps"

datatype failure = Raised py_error | ValueError | OSError | CalledProcessError exit_code

definition controller_init :: "controller_cfg \<Rightarrow> f64 \<Rightarrow> nat \<Rightarrow> controller" where
  "controller_init cfg now time_ns =
     \<lparr>ct_cfg = cfg, ct_adaptive = adaptive_init now, ct_mode = 0, ct_generation = time_ns, ct_stopping = False\<rparr>"

definition ct_syn_budget :: "controller \<Rightarrow> py_error + int \<times> int" where
  "ct_syn_budget ct =
     (let cfg = ct_cfg ct in
      if co_manual_mode cfg = ''auto'' then adaptive_syn_budget (co_adaptive cfg) (map_of (co_syn_per_cpu cfg)) (ct_adaptive ct)
      else case map_of (co_syn_per_cpu cfg) (MODES ! ct_mode ct) of None \<Rightarrow> Inl KeyError | Some b \<Rightarrow> Inr b)"

text \<open>\<^verbatim>\<open>str\<close> of an int, and \<^verbatim>\<open>str(int(b))\<close>.\<close>

definition py_str :: "int \<Rightarrow> string" where
  "py_str n = (if n < 0 then ''-'' @ to_text (nat (- n)) else to_text (nat n))"

definition flag_text :: "bool \<Rightarrow> string" where
  "flag_text b = to_text (of_bool b)"

definition called :: "exit_code option \<times> 'x \<Rightarrow> failure option \<times> 'x" where
  "called = (\<lambda>(e, x). (map_option CalledProcessError e, x))"

definition lease :: "exit_code option \<Rightarrow> controller \<Rightarrow> nat \<Rightarrow> nat \<Rightarrow> 'm world \<Rightarrow> failure option \<times> 'm world" where
  "lease fl ct seconds now_ns w =
     (let c = ct_cfg ct in
      case ct_syn_budget ct of
        Inl e \<Rightarrow> (Some (Raised e), w)
      | Inr (r, b) \<Rightarrow>
          let deadline = (if seconds = 0 then 0 else now_ns + seconds * 1000000000);
              args = [to_text deadline, flag_text (co_observe c), to_text (ct_mode ct), flag_text (co_ipv6 c),
                flag_text (co_drop_tcp_fragments c), py_str r, py_str b, to_text 2]
          in case called (loader_config_cmd fl args (wo_maps w)) of (e, x) \<Rightarrow> (e, w\<lparr>wo_maps := x\<rparr>))"

definition publish :: "bool \<Rightarrow> bool \<Rightarrow> nat \<Rightarrow> controller \<Rightarrow> 'm world \<Rightarrow> failure option \<times> controller \<times> 'm world" where
  "publish wr expired unix ct w =
     (let ct = ct\<lparr>ct_generation := ct_generation ct + 1\<rparr> in
      case runtime_document (ct_cfg ct) (ct_generation ct) (unix + (if expired then 0 else co_lease_seconds (ct_cfg ct))) (ct_mode ct) of
        None \<Rightarrow> (Some ValueError, ct, w)
      | Some text \<Rightarrow> if wr then (None, ct, w\<lparr>wo_runtime_file := text\<rparr>) else (Some OSError, ct, w))"

text \<open>The index of a manual mode.\<close>

definition mode_index :: "string \<Rightarrow> nat" where
  "mode_index mode = length (takeWhile (\<lambda>m. m \<noteq> mode) MODES)"

definition chosen_mode :: "controller_cfg \<Rightarrow> adaptive \<Rightarrow> nat" where
  "chosen_mode cfg a = (if co_manual_mode cfg = ''auto'' then ad_mode a else mode_index (co_manual_mode cfg))"

text \<open>The two safety-critical writes, in their order.\<close>

definition publish_and_lease :: "bool \<Rightarrow> exit_code option \<Rightarrow> nat \<Rightarrow> nat \<Rightarrow> controller \<Rightarrow> 'm world \<Rightarrow> failure option \<times> controller \<times> 'm world" where
  "publish_and_lease wr fl unix now_ns ct w =
     (case publish wr False unix ct w of
        (Some e, ct, w) \<Rightarrow> (Some e, ct, w)
      | (None, ct, w) \<Rightarrow> (case lease fl ct (co_lease_seconds (ct_cfg ct)) now_ns w of (e, w) \<Rightarrow> (e, ct, w)))"

definition tick :: "bool \<Rightarrow> exit_code option \<Rightarrow> signals \<Rightarrow> f64 \<Rightarrow> nat \<Rightarrow> nat \<Rightarrow> controller \<Rightarrow> 'm world
    \<Rightarrow> failure option \<times> controller \<times> 'm world" where
  "tick wr fl signals now unix now_ns ct w =
     (case adaptive_sample (co_adaptive (ct_cfg ct)) signals now (ct_adaptive ct) of
        (Some e, a) \<Rightarrow> (Some (Raised e), ct\<lparr>ct_adaptive := a\<rparr>, w)
      | (None, a) \<Rightarrow> publish_and_lease wr fl unix now_ns (ct\<lparr>ct_adaptive := a, ct_mode := chosen_mode (ct_cfg ct) a\<rparr>) w)"

text \<open>\<^verbatim>\<open>prepare\<close>, once the pinned generation exists: the lease is withdrawn before the policy is replaced.\<close>

definition prepare :: "'m lpm_ops \<Rightarrow> (nat \<Rightarrow> string \<Rightarrow> bytes option) \<Rightarrow> (nat \<Rightarrow> exit_code option) \<Rightarrow> nat \<Rightarrow> controller \<Rightarrow> 'm world
    \<Rightarrow> failure option \<times> 'm world" where
  "prepare ops pton fl now_ns ct w =
     (if fl 0 \<noteq> None then (map_option CalledProcessError (fl 0), w)
      else case loader_policy (co_policy (ct_cfg ct)) of
        None \<Rightarrow> (Some ValueError, w)
      | Some policy \<Rightarrow>
          (case lease (fl 1) ct 0 now_ns w of
             (Some e, w) \<Rightarrow> (Some e, w)
           | (None, w) \<Rightarrow> (case called (loader_policy_cmd ops pton (fl 2) policy (wo_maps w)) of (e, x) \<Rightarrow> (e, w\<lparr>wo_maps := x\<rparr>))))"

section \<open>Operator commands\<close>

definition edit_prefixes :: "bool \<Rightarrow> string \<Rightarrow> string list \<Rightarrow> string list" where
  "edit_prefixes removing n ps = sorted_keys (if removing then filter (\<lambda>p. p \<noteq> n) ps else n # ps)"

text \<open>The configuration a command asks for; \<open>None\<close> is a \<^verbatim>\<open>ValueError\<close>.\<close>

definition command_cfg :: "(string \<Rightarrow> string option) \<Rightarrow> controller_cfg \<Rightarrow> string list \<Rightarrow> controller_cfg option" where
  "command_cfg network cfg args =
     (case args of
        [name, arg] \<Rightarrow>
          if name = ''mode'' \<and> arg \<in> set (MODES @ [''auto'']) then Some (cfg\<lparr>co_manual_mode := arg\<rparr>)
          else if name = ''observe'' \<and> arg \<in> {''on'', ''off''} then Some (cfg\<lparr>co_observe := (arg = ''on'')\<rparr>)
          else if name \<in> {''allow'', ''unallow'', ''block'', ''unblock''} then
            (case network arg of
               None \<Rightarrow> None
             | Some n \<Rightarrow>
                 let p = co_policy cfg in Some (cfg\<lparr>co_policy :=
                   (if name \<in> {''allow'', ''unallow''}
                    then p\<lparr>pc_allow_prefixes := edit_prefixes (name = ''unallow'') n (pc_allow_prefixes p)\<rparr>
                    else p\<lparr>pc_block_prefixes := edit_prefixes (name = ''unblock'') n (pc_block_prefixes p)\<rparr>)\<rparr>))
          else None
      | _ \<Rightarrow> None)"

text \<open>
  The loader calls for one map: action, prefix and reason. Python iterates over the two set
  differences in no particular order; a command changes one prefix, so each has at most one element.
\<close>

definition prefix_calls :: "nat \<Rightarrow> string list \<Rightarrow> string list \<Rightarrow> string list \<Rightarrow> (string \<times> string \<times> nat) list" where
  "prefix_calls reason bogons old new =
     concat (map (\<lambda>n. (''del'', n, reason) # (if n \<in> set bogons then [(''add'', n, 5)] else [])) (filter (\<lambda>n. n \<notin> set new) (remdups old))) @
     map (\<lambda>n. (''add'', n, reason)) (filter (\<lambda>n. n \<notin> set old) (remdups new))"

fun run_calls :: "'m lpm_ops \<Rightarrow> (nat \<Rightarrow> string \<Rightarrow> bytes option) \<Rightarrow> (nat \<Rightarrow> exit_code option) \<Rightarrow> string \<Rightarrow> (string \<times> string \<times> nat) list
    \<Rightarrow> 'm xdp_maps \<Rightarrow> exit_code option \<times> 'm xdp_maps" where
  "run_calls ops pton fl name [] x = (None, x)"
| "run_calls ops pton fl name ((action, n, reason) # cs) x =
     (case loader_prefix_cmd ops pton (fl (length cs)) name action n (to_text reason) x of
        (Some e, x) \<Rightarrow> (Some e, x)
      | (None, x) \<Rightarrow> run_calls ops pton fl name cs x)"

definition change_prefixes :: "'m lpm_ops \<Rightarrow> (nat \<Rightarrow> string \<Rightarrow> bytes option) \<Rightarrow> (string \<Rightarrow> nat \<Rightarrow> exit_code option) \<Rightarrow> policy_cfg \<Rightarrow> policy_cfg
    \<Rightarrow> 'm xdp_maps \<Rightarrow> exit_code option \<times> 'm xdp_maps" where
  "change_prefixes ops pton fl old new x =
     (case run_calls ops pton (fl ''allow'') ''allow'' (prefix_calls 1 [] (pc_allow_prefixes old) (pc_allow_prefixes new)) x of
        (Some e, x) \<Rightarrow> (Some e, x)
      | (None, x) \<Rightarrow> run_calls ops pton (fl ''block'') ''block''
          (prefix_calls 11 (pc_bogon_prefixes new) (pc_block_prefixes old) (pc_block_prefixes new)) x)"

text \<open>The body of the \<^verbatim>\<open>try\<close>: withdraw the lease, change the maps, persist, publish, renew the lease.\<close>

definition command_apply :: "'m lpm_ops \<Rightarrow> (nat \<Rightarrow> string \<Rightarrow> bytes option) \<Rightarrow> (string \<Rightarrow> nat \<Rightarrow> exit_code option) \<Rightarrow> (nat \<Rightarrow> bool)
    \<Rightarrow> controller_cfg \<Rightarrow> nat \<Rightarrow> nat \<Rightarrow> controller \<Rightarrow> 'm world \<Rightarrow> failure option \<times> controller \<times> 'm world" where
  "command_apply ops pton fl wr c unix now_ns ct w =
     (case lease (fl ''lease'' 0) ct 0 now_ns w of
        (Some e, w) \<Rightarrow> (Some e, ct, w)
      | (None, w) \<Rightarrow>
     (case change_prefixes ops pton fl (co_policy (ct_cfg ct)) (co_policy c) (wo_maps w) of
        (Some e, x) \<Rightarrow> (Some (CalledProcessError e), ct, w\<lparr>wo_maps := x\<rparr>)
      | (None, x) \<Rightarrow>
          let w = w\<lparr>wo_maps := x\<rparr> in
          if \<not> wr 0 then (Some OSError, ct, w)
          else publish_and_lease (wr 1) (fl ''lease'' 1) unix now_ns (ct\<lparr>ct_cfg := c, ct_mode := chosen_mode c (ct_adaptive ct)\<rparr>)
            (w\<lparr>wo_config_file := c\<rparr>)))"

definition command :: "'m lpm_ops \<Rightarrow> (nat \<Rightarrow> string \<Rightarrow> bytes option) \<Rightarrow> (string \<Rightarrow> string option) \<Rightarrow> (string \<Rightarrow> nat \<Rightarrow> exit_code option) \<Rightarrow> (nat \<Rightarrow> bool)
    \<Rightarrow> string list \<Rightarrow> nat \<Rightarrow> nat \<Rightarrow> controller \<Rightarrow> 'm world \<Rightarrow> failure option \<times> controller \<times> 'm world" where
  "command ops pton network fl wr args unix now_ns ct w =
     (case command_cfg network (ct_cfg ct) args of
        None \<Rightarrow> (Some ValueError, ct, w)
      | Some c \<Rightarrow>
          if \<not> validate_controller c then (Some ValueError, ct, w)
          else case command_apply ops pton fl wr c unix now_ns ct w of
            (Some e, ct, w) \<Rightarrow> (Some e, ct\<lparr>ct_stopping := True\<rparr>, w)
          | (None, ct, w) \<Rightarrow> (None, ct, w))"

text \<open>\<^verbatim>\<open>cleanup\<close>: the lease is withdrawn whether or not the expired document could be published.\<close>

definition cleanup :: "bool \<Rightarrow> exit_code option \<Rightarrow> nat \<Rightarrow> nat \<Rightarrow> controller \<Rightarrow> 'm world \<Rightarrow> failure option \<times> controller \<times> 'm world" where
  "cleanup wr fl unix now_ns ct w =
     (case publish wr True unix ct w of
        (e, ct, w) \<Rightarrow> (case lease fl ct 0 now_ns w of (e', w) \<Rightarrow> (if e' = None then e else e', ct, w)))"

end
