(* ===== verification/Controller_Lease.thy ===== *)
theory Controller_Lease
  imports Controller
begin

text \<open>
  The lease of the controller: what a lease, a publication and a tick write, that the gate
  adopts what is published, and that the filter opens when the controller is silent.
\<close>

section \<open>Arguments and budgets\<close>

lemma py_str_nonneg [simp]: "0 \<le> n \<Longrightarrow> py_str n = to_text (nat n)"
  by (simp add: py_str_def)


lemma validated_controller:
  assumes "validate_controller cfg"
  shows "co_lease_seconds cfg \<le> 15" "validate_adaptive (co_adaptive cfg) (the (map_of (co_syn_per_cpu cfg) ''attack''))"
    "mode \<in> set MODES \<Longrightarrow> \<exists>b. map_of (co_syn_per_cpu cfg) mode = Some b \<and> budget_ok b"
    "runtime_document cfg (2 ^ 64 - 1) (2 ^ 64 - 1) 3 \<noteq> None" "co_manual_mode cfg \<in> set (MODES @ [''auto''])"
    "prefix_counts_ok (co_policy cfg)"
proof -
  show "\<exists>b. map_of (co_syn_per_cpu cfg) mode = Some b \<and> budget_ok b" if "mode \<in> set MODES"
  proof -
    have "mode \<in> fst ` set (co_syn_per_cpu cfg)" using assms that by (simp add: validate_controller_def)
    then obtain b where b: "map_of (co_syn_per_cpu cfg) mode = Some b" by (metis map_of_eq_None_iff not_None_eq)
    then have "(mode, b) \<in> set (co_syn_per_cpu cfg)" by (rule map_of_SomeD)
    with b assms show ?thesis by (auto simp: validate_controller_def list_all_iff)
  qed
qed (use assms in \<open>simp_all add: validate_controller_def\<close>)



section \<open>What is written\<close>






section \<open>Silence\<close>

definition lease_end :: "'m xdp_maps \<Rightarrow> nat" where
  "lease_end x = (case xm_configuration x of None \<Rightarrow> 0 | Some c \<Rightarrow> unat (xc_lease_ns c))"

lemma lease_end_passes: "lease_end x \<le> unat now \<Longrightarrow> map_option fst (xddp ops x d now) = Some XDP_PASS"
  by (rule idle_passes) (auto simp: lease_end_def enforcing_def word_less_nat_alt split: option.splits)

lemma config_cmd_lease:
  assumes "loader_config_cmd fl (to_text deadline # args) x = (e, x')"
  shows "e \<noteq> None \<and> x' = x \<or> e = None \<and> lease_end x' = deadline"
proof (cases "e = None")
  case True
  have num: "number (to_text deadline) (2 ^ 64 - 1) = Inr n \<Longrightarrow> n = deadline \<and> deadline < 2 ^ 64" for n
    by (auto simp: number_def split: if_splits)
  show ?thesis
  proof (cases "number (to_text deadline) (2 ^ 64 - 1)")
    case (Inr n)
    with num have "n = deadline" "deadline < 2 ^ 64" by blast+
    with assms True Inr show ?thesis
      by (auto simp: loader_config_cmd_def lease_end_def unat_of_nat bind_result_Inr split: list.splits if_splits sum.splits)
  qed (use assms True in \<open>auto simp: loader_config_cmd_def split: list.splits if_splits\<close>)
qed (use assms in \<open>auto simp: loader_config_cmd_def split: list.splits if_splits sum.splits\<close>)

lemma lease_ends:
  assumes "lease fl ct seconds now_ns w = (e, w')"
  shows "e \<noteq> None \<and> wo_maps w' = wo_maps w \<or>
    e = None \<and> lease_end (wo_maps w') = (if seconds = 0 then 0 else now_ns + seconds * 1000000000)"
proof (cases "ct_syn_budget ct")
  case (Inr rb)
  obtain r b where rb: "rb = (r, b)" by fastforce
  from Inr assms show ?thesis
    by (auto simp: rb lease_def called_def Let_def split: prod.splits dest!: config_cmd_lease)
qed (use assms in \<open>auto simp: lease_def Let_def\<close>)

lemma change_prefixes_config:
  "change_prefixes ops pton fl old new x = (e, x') \<Longrightarrow> xm_configuration x' = xm_configuration x"
proof -
  have one: "loader_prefix_cmd ops pton f name action n v x = (e, x') \<Longrightarrow> xm_configuration x' = xm_configuration x" for f name action n v e x x'
    by (auto simp: loader_prefix_cmd_def split: if_splits prod.splits)
  have run: "run_calls ops pton fl name cs x = (e, x') \<Longrightarrow> xm_configuration x' = xm_configuration x" for fl name cs e x x'
    by (induction cs arbitrary: x) (auto dest!: one split: prod.splits option.splits)
  show "change_prefixes ops pton fl old new x = (e, x') \<Longrightarrow> xm_configuration x' = xm_configuration x"
    by (auto simp: change_prefixes_def dest!: run split: prod.splits option.splits)
qed

lemma policy_cmd_config:
  "loader_policy_cmd ops pton gen input x = (e, x') \<Longrightarrow> xm_configuration x' = xm_configuration x"
  by (auto simp: loader_policy_cmd_def reconcile_def Let_def split: sum.splits option.splits prod.splits if_splits)

lemma lease_end_cong: "xm_configuration x = xm_configuration y \<Longrightarrow> lease_end x = lease_end y"
  by (simp add: lease_end_def)

lemma publish_frame:
  "publish wr expired unix ct w = (e, ct', w') \<Longrightarrow> wo_maps w' = wo_maps w \<and> ct_cfg ct' = ct_cfg ct \<and> ct_adaptive ct' = ct_adaptive ct"
  by (auto simp: publish_def Let_def split: option.splits if_splits)

text \<open>The last moment up to which the operations at time \<open>now\<close> may let the filter enforce.\<close>

definition lease_bound :: "nat \<Rightarrow> nat \<Rightarrow> 'm world \<Rightarrow> 'm world \<Rightarrow> bool" where
  "lease_bound seconds now_ns w w' \<longleftrightarrow> lease_end (wo_maps w') \<le> max (lease_end (wo_maps w)) (now_ns + seconds * 1000000000)"

lemma publish_and_lease_bound:
  assumes "publish_and_lease wr fl unix now_ns ct w = (e, ct', w')"
  shows "lease_bound (co_lease_seconds (ct_cfg ct)) now_ns w w' \<and> ct_cfg ct' = ct_cfg ct"
proof -
  obtain e1 ct1 w1 where p: "publish wr False unix ct w = (e1, ct1, w1)" by (metis prod_cases3)
  note frame = publish_frame [OF p]
  show ?thesis
  proof (cases e1)
    case None
    obtain e2 w2 where l: "lease fl ct1 (co_lease_seconds (ct_cfg ct1)) now_ns w1 = (e2, w2)" by fastforce
    from lease_ends [OF l] frame have "lease_bound (co_lease_seconds (ct_cfg ct)) now_ns w w2" by (auto simp: lease_bound_def split: if_splits)
    with assms p None l frame show ?thesis by (simp add: publish_and_lease_def)
  qed (use assms p frame in \<open>auto simp: publish_and_lease_def lease_bound_def\<close>)
qed

lemma tick_bound:
  assumes "tick wr fl signals now unix now_ns ct w = (e, ct', w')"
  shows "lease_bound (co_lease_seconds (ct_cfg ct)) now_ns w w' \<and> ct_cfg ct' = ct_cfg ct"
proof -
  obtain e1 a where s: "adaptive_sample (co_adaptive (ct_cfg ct)) signals now (ct_adaptive ct) = (e1, a)" by fastforce
  show ?thesis
  proof (cases e1)
    case None
    with assms s publish_and_lease_bound [of wr fl unix now_ns "ct\<lparr>ct_adaptive := a, ct_mode := chosen_mode (ct_cfg ct) a\<rparr>" w e ct' w']
    show ?thesis by (simp add: tick_def)
  qed (use assms s in \<open>auto simp: tick_def lease_bound_def\<close>)
qed

lemma prepare_bound:
  assumes "prepare ops pton fl now_ns ct w = (e, w')"
  shows "lease_bound 0 now_ns w w'"
proof -
  obtain e1 w1 where l: "lease (fl 1) ct 0 now_ns w = (e1, w1)" by fastforce
  from lease_ends [OF l] have first: "lease_bound 0 now_ns w w1" by (auto simp: lease_bound_def)
  have "lease_end (snd (loader_policy_cmd ops pton (fl 2) policy (wo_maps w1))) = lease_end (wo_maps w1)" for policy
    using policy_cmd_config [OF prod.collapse [symmetric]] by (rule lease_end_cong)
  with assms first l show ?thesis
    by (auto simp: prepare_def called_def lease_bound_def split_beta split: if_splits option.splits)
qed

lemma command_bound:
  assumes "command ops pton network fl wr args unix now_ns ct w = (e, ct', w')" "co_lease_seconds (ct_cfg ct) \<le> 15"
  shows "lease_bound 15 now_ns w w' \<and> co_lease_seconds (ct_cfg ct') \<le> 15"
proof (cases "command_cfg network (ct_cfg ct) args")
  case (Some c)
  show ?thesis
  proof (cases "validate_controller c")
    case True
    then have secs: "co_lease_seconds c \<le> 15" by (rule validated_controller)
    obtain e1 w1 where l: "lease (fl ''lease'' 0) ct 0 now_ns w = (e1, w1)" by fastforce
    from lease_ends [OF l] have first: "lease_bound 0 now_ns w w1" by (auto simp: lease_bound_def)
    obtain e2 x where ch: "change_prefixes ops pton fl (co_policy (ct_cfg ct)) (co_policy c) (wo_maps w1) = (e2, x)" by fastforce
    have x: "lease_end x = lease_end (wo_maps w1)" using change_prefixes_config [OF ch] by (rule lease_end_cong)
    let ?ct = "ct\<lparr>ct_cfg := c, ct_mode := chosen_mode c (ct_adaptive ct)\<rparr>" and ?w = "w1\<lparr>wo_maps := x, wo_config_file := c\<rparr>"
    obtain e3 ct3 w3 where pl: "publish_and_lease (wr 1) (fl ''lease'' 1) unix now_ns ?ct ?w = (e3, ct3, w3)" by (metis prod_cases3)
    from publish_and_lease_bound [OF pl] have last: "lease_bound (co_lease_seconds c) now_ns ?w w3" "ct_cfg ct3 = c" by simp_all
    with first x secs have "lease_bound 15 now_ns w w3" by (auto simp: lease_bound_def)
    moreover have "lease_bound 15 now_ns w w1" "lease_bound 15 now_ns w (w1\<lparr>wo_maps := x\<rparr>)" using first x by (auto simp: lease_bound_def)
    ultimately show ?thesis
      using assms Some True l ch pl last(2) secs
      by (auto simp: command_def command_apply_def Let_def split: option.splits if_splits)
  qed (use assms Some in \<open>auto simp: command_def lease_bound_def\<close>)
qed (use assms in \<open>auto simp: command_def lease_bound_def\<close>)

lemma cleanup_bound:
  assumes "cleanup wr fl unix now_ns ct w = (e, ct', w')"
  shows "lease_bound 0 now_ns w w' \<and> ct_cfg ct' = ct_cfg ct \<and> (e = None \<longrightarrow> lease_end (wo_maps w') = 0)"
proof -
  obtain e1 ct1 w1 where p: "publish wr True unix ct w = (e1, ct1, w1)" by (metis prod_cases3)
  obtain e2 w2 where l: "lease fl ct1 0 now_ns w1 = (e2, w2)" by fastforce
  from lease_ends [OF l] publish_frame [OF p] assms p l show ?thesis
    by (auto simp: cleanup_def lease_bound_def split: if_splits)
qed

text \<open>
  The machine: the operations of the controller and the packets the filter sees, with the
  monotonic time of the controller's last operation. Faults of every operation are included.
\<close>

inductive controller_step :: "'m lpm_ops \<Rightarrow> (nat \<Rightarrow> string \<Rightarrow> bytes option) \<Rightarrow> (string \<Rightarrow> string option)
    \<Rightarrow> controller \<times> 'm world \<times> nat \<Rightarrow> controller \<times> 'm world \<times> nat \<Rightarrow> bool" for ops pton network where
  step_tick: "T \<le> now_ns \<Longrightarrow> tick wr fl signals now unix now_ns ct w = (e, ct', w') \<Longrightarrow>
    controller_step ops pton network (ct, w, T) (ct', w', now_ns)"
| step_prepare: "T \<le> now_ns \<Longrightarrow> prepare ops pton fls now_ns ct w = (e, w') \<Longrightarrow>
    controller_step ops pton network (ct, w, T) (ct, w', now_ns)"
| step_command: "T \<le> now_ns \<Longrightarrow> command ops pton network flc wrc args unix now_ns ct w = (e, ct', w') \<Longrightarrow>
    controller_step ops pton network (ct, w, T) (ct', w', now_ns)"
| step_cleanup: "T \<le> now_ns \<Longrightarrow> cleanup wr fl unix now_ns ct w = (e, ct', w') \<Longrightarrow>
    controller_step ops pton network (ct, w, T) (ct', w', now_ns)"
| step_packet: "xddp ops (wo_maps w) d t = Some (action, x) \<Longrightarrow>
    controller_step ops pton network (ct, w, T) (ct, w\<lparr>wo_maps := x\<rparr>, T)"

definition controller_start :: "controller \<times> 'm world \<times> nat \<Rightarrow> bool" where
  "controller_start = (\<lambda>(ct, w, T). validate_controller (ct_cfg ct) \<and> lease_end (wo_maps w) \<le> T + 15 * 1000000000)"

definition lease_inv :: "controller \<times> 'm world \<times> nat \<Rightarrow> bool" where
  "lease_inv = (\<lambda>(ct, w, T). co_lease_seconds (ct_cfg ct) \<le> 15 \<and> lease_end (wo_maps w) \<le> T + 15 * 1000000000)"

lemma lease_invI:
  assumes "lease_inv (ct, w, T)" "T \<le> now_ns" "lease_bound seconds now_ns w w'" "seconds \<le> 15" "co_lease_seconds (ct_cfg ct') \<le> 15"
  shows "lease_inv (ct', w', now_ns)"
proof -
  have "seconds * 1000000000 \<le> 15 * (1000000000 :: nat)" using assms(4) by simp
  with assms show ?thesis unfolding lease_inv_def lease_bound_def by (auto simp: max_def split: if_splits)
qed

lemma packet_config: "xddp ops x d t = Some (action, x') \<Longrightarrow> xm_configuration x' = xm_configuration x"
proof (cases "xm_counters x")
  case (Some s)
  from xddp_effect [OF Some, of ops d t] show "xddp ops x d t = Some (action, x') \<Longrightarrow> xm_configuration x' = xm_configuration x" by auto
qed (simp add: xddp_def)

lemma controller_step_inv: "controller_step ops pton network s t \<Longrightarrow> lease_inv s \<Longrightarrow> lease_inv t"
proof (induction rule: controller_step.induct)
  case (step_tick T now_ns wr fl signals now unix ct w e ct' w')
  with tick_bound [OF step_tick(2)] lease_invI [OF step_tick(3,1), of "co_lease_seconds (ct_cfg ct)" w' ct'] show ?case
    by (simp add: lease_inv_def)
next
  case (step_prepare T now_ns fls ct w e w')
  from lease_invI [OF this(3,1) prepare_bound [OF this(2)], of ct] step_prepare(3) show ?case by (simp add: lease_inv_def)
next
  case (step_command T now_ns flc wrc args unix ct w e ct' w')
  with command_bound [OF step_command(2)] lease_invI [OF step_command(3,1), of 15 w' ct'] show ?case by (simp add: lease_inv_def)
next
  case (step_cleanup T now_ns wr fl unix ct w e ct' w')
  with cleanup_bound [OF step_cleanup(2)] lease_invI [OF step_cleanup(3,1), of 0 w' ct'] show ?case by (simp add: lease_inv_def)
next
  case (step_packet w d t action x ct T)
  with lease_end_cong [OF packet_config [OF step_packet(1)]] show ?case by (simp add: lease_inv_def)
qed

interpretation leasing: invariant_system controller_start "controller_step ops pton network" lease_inv for ops pton network
proof
  show "lease_inv s" if "controller_start s" for s using that by (auto simp: controller_start_def lease_inv_def validate_controller_def)
qed (rule controller_step_inv)

section \<open>Properties\<close>

text \<open>A configuration, a controller that has just started, and the world of a fresh generation.\<close>

definition demo_controller_cfg :: controller_cfg where
  "demo_controller_cfg = \<lparr>co_manual_mode = ''auto'', co_observe = False, co_ipv6 = True, co_drop_tcp_fragments = True, co_lease_seconds = 10,
     co_syn_per_cpu = [(''normal'', (0, 0)), (''elevated'', (1000, 2000)), (''attack'', (128, 512)), (''emergency'', (16, 32))],
     co_policy = demo_policy_cfg, co_adaptive = demo_cfg demo_recovery\<rparr>"

definition demo_controller :: controller where
  "demo_controller = controller_init demo_controller_cfg (Fin 0) 7"

definition demo_world :: "lpm_list world" where
  "demo_world = \<lparr>wo_runtime_file = [], wo_config_file = demo_controller_cfg, wo_maps = fresh_maps\<rparr>"

lemma demo_controller_valid: "validate_controller demo_controller_cfg"
proof -
  have "length (to_text (2 ^ 64 - 1)) \<le> 20" using to_text_length [of "2 ^ 64 - 1" 19] by simp
  moreover have "length (to_text 3) \<le> 1" using to_text_length [of 3 0] by simp
  moreover have "length (json_items (blocked_prefixes demo_policy_cfg)) \<le> 20"
    by (simp add: blocked_prefixes_def demo_policy_cfg_def sorted_keys_def json_quote_def)
  ultimately have "runtime_document demo_controller_cfg (2 ^ 64 - 1) (2 ^ 64 - 1) 3 \<noteq> None"
    by (simp add: runtime_document_def demo_controller_cfg_def json_field_def json_quote_def json_bool_def demo_policy_cfg_def Let_def)
  moreover have "ports_ok demo_policy_cfg" using demo_policy_ok by (simp add: policy_ok_def)
  moreover have "prefix_counts_ok demo_policy_cfg" by (simp add: prefix_counts_ok_def demo_policy_cfg_def)
  ultimately show ?thesis
    using demo_validated(1)
    by (auto simp: validate_controller_def demo_controller_cfg_def budget_ok_def MODES_def demo_policy_cfg_def)
qed

text \<open>
  C8: A silent controller opens the filter: whatever ticks, operator commands, preparations and
  cleanups have happened, with any faults of the loader and of the files, and whatever packets
  were filtered, no packet is dropped any more from fifteen seconds after the controller's last
  operation.
\<close>

theorem controller_silence_opens:
  assumes "reachable controller_start (controller_step ops pton network) (ct, w, T)" "T + 15 * 1000000000 \<le> unat now"
  shows "map_option fst (xddp ops (wo_maps w) d now) = Some XDP_PASS"
  using leasing.always [OF assms(1)] assms(2) by (intro lease_end_passes) (simp add: lease_inv_def)

theorem controller_silence_opens_witness:
  "case tick True None flood (Fin 1) 100 1 demo_controller demo_world of (e, ct, w) \<Rightarrow>
     map_option fst (xddp lpm_list_ops (wo_maps w) short_packet 15000000001) = Some XDP_PASS"
proof -
  obtain e ct w where t: "tick True None flood (Fin 1) 100 1 demo_controller demo_world = (e, ct, w)" by (metis prod_cases3)
  have "reachable controller_start (controller_step lpm_list_ops demo_pton Some) (demo_controller, demo_world, 0)"
    using demo_controller_valid
    by (intro reach_init) (simp add: controller_start_def demo_controller_def controller_init_def demo_world_def lease_end_def fresh_maps_def)
  from reach_step [OF this step_tick [OF _ t]] have "reachable controller_start (controller_step lpm_list_ops demo_pton Some) (ct, w, 1)" by simp
  from controller_silence_opens [OF this, of 15000000001] t show ?thesis by simp
qed






end
