(* ===== verification/Controller_Commands.thy ===== *)
theory Controller_Commands
  imports Controller_Lease
begin

text \<open>
  The operator's commands change single entries of the prefix maps. Here: that this has the same
  effect as installing the new configuration from scratch, and what a failed command leaves.
\<close>

section \<open>One entry\<close>

text \<open>The entries other than that of a prefix.\<close>

definition entries_but :: "prefix_key \<Rightarrow> (prefix_key \<times> u32) set \<Rightarrow> (prefix_key \<times> u32) set" where
  "entries_but k es = {e \<in> es. \<not> same_entry (fst e) k}"

definition keyed :: "(string \<Rightarrow> prefix_key) \<Rightarrow> (string \<Rightarrow> u32) \<Rightarrow> string set \<Rightarrow> (prefix_key \<times> u32) set" where
  "keyed key f P = (\<lambda>p. (key p, f p)) ` P"

lemma entries_but_keyed:
  assumes "\<And>p. p \<in> P \<Longrightarrow> same_entry (key p) (key n) \<Longrightarrow> p = n"
  shows "entries_but (key n) (keyed key f P) = keyed key f (P - {n})"
  using assms by (auto simp: entries_but_def keyed_def)

lemma keyed_cong: "(\<And>p. p \<in> P \<Longrightarrow> f p = g p) \<Longrightarrow> keyed key f P = keyed key g P"
  by (simp add: keyed_def)

lemma keyed_insert: "insert (key n, v) (keyed key f (P - {n})) = keyed key (f(n := v)) (insert n P)"
  by (auto simp: keyed_def)

context lpm_trie
begin

lemma add_entry:
  assumes "sound m" "loader_prefix_key pton n = Inr (key n)" "reason \<le> 13"
    and "prefix_change ops pton ''add'' n (to_text reason) m = (None, m')"
  shows "sound m' \<and> entries m' = insert (key n, of_nat reason) (entries_but (key n) (entries m))"
  using assms update_ok [OF assms(1), of "key n" "of_nat reason"]
  by (auto simp: prefix_change_def entries_but_def split: sum.splits)

lemma del_entry:
  assumes "sound m" "loader_prefix_key pton n = Inr (key n)" "prefix_change ops pton ''del'' n v m = (None, m')"
  shows "sound m' \<and> entries m' = entries_but (key n) (entries m)"
proof (cases "\<exists>e \<in> entries m. same_entry (fst e) (key n)")
  case True
  then obtain e where e: "e \<in> entries m" "same_entry (fst e) (key n)" by blast
  have only: "f = e" if "f \<in> entries m" "same_entry (fst f) (key n)" for f
  proof (rule distinct_entries [OF assms(1) that(1) e(1)])
    from e(2) have "same_entry (key n) (fst e)" by (subst same_entry_sym)
    with that(2) show "same_entry (fst f) (fst e)" by (rule same_entry_trans)
  qed
  have "entries_but (key n) (entries m) = entries m - {e}" unfolding entries_but_def using only e(2) by blast
  moreover obtain m'' where "lpm_delete ops m (key n) = Inr m''" "sound m''" "entries m'' = entries m - {e}"
    using delete_hit [OF assms(1) e] by blast
  ultimately show ?thesis using assms(2,3) by (simp add: prefix_change_def)
next
  case False
  then have "entries_but (key n) (entries m) = entries m" by (auto simp: entries_but_def)
  moreover from False have "lpm_delete ops m (key n) = Inl ENOENT" by (intro delete_miss [OF assms(1)]) blast
  ultimately show ?thesis using assms by (simp add: prefix_change_def)
qed

end

section \<open>The calls of a command\<close>

fun run_map :: "'m lpm_ops \<Rightarrow> (nat \<Rightarrow> string \<Rightarrow> bytes option) \<Rightarrow> (string \<times> string \<times> nat) list \<Rightarrow> 'm \<Rightarrow> exit_code option \<times> 'm" where
  "run_map ops pton [] m = (None, m)"
| "run_map ops pton ((action, n, reason) # cs) m =
     (case prefix_change ops pton action n (to_text reason) m of (Some e, m) \<Rightarrow> (Some e, m) | (None, m) \<Rightarrow> run_map ops pton cs m)"

lemma run_calls_allow:
  "run_calls ops pton fl ''allow'' cs x = (None, x') \<Longrightarrow> \<exists>m. run_map ops pton cs (xm_allow x) = (None, m) \<and> x' = x\<lparr>xm_allow := m\<rparr>"
  by (induction cs arbitrary: x) (fastforce simp: loader_prefix_cmd_def split: if_splits option.splits prod.splits)+

lemma run_calls_block:
  "run_calls ops pton fl ''block'' cs x = (None, x') \<Longrightarrow> \<exists>m. run_map ops pton cs (xm_block x) = (None, m) \<and> x' = x\<lparr>xm_block := m\<rparr>"
  by (induction cs arbitrary: x) (fastforce simp: loader_prefix_cmd_def split: if_splits option.splits prod.splits)+

lemma distinct_single: "distinct xs \<Longrightarrow> set xs = {n} \<Longrightarrow> xs = [n]"
  by (metis distinct.simps(2) list.set_intros(1) list.exhaust list.simps(15) insert_iff singletonD subset_singletonD set_subset_Cons set_empty)

lemma prefix_calls_same: "set new = set old \<Longrightarrow> prefix_calls reason bogons old new = []"
  by (auto simp: prefix_calls_def filter_empty_conv)

lemma prefix_calls_add:
  assumes "set new = insert n (set old)" "n \<notin> set old"
  shows "prefix_calls reason bogons old new = [(''add'', n, reason)]"
proof -
  have "filter (\<lambda>x. x \<notin> set old) (remdups new) = [n]" by (rule distinct_single) (use assms in auto)
  moreover have "filter (\<lambda>x. x \<notin> set new) (remdups old) = []" using assms by (auto simp: filter_empty_conv)
  ultimately show ?thesis by (simp add: prefix_calls_def)
qed

lemma prefix_calls_del:
  assumes "set new = set old - {n}" "n \<in> set old"
  shows "prefix_calls reason bogons old new = (''del'', n, reason) # (if n \<in> set bogons then [(''add'', n, 5)] else [])"
proof -
  have "filter (\<lambda>x. x \<notin> set new) (remdups old) = [n]" by (rule distinct_single) (use assms in auto)
  moreover have "filter (\<lambda>x. x \<notin> set old) (remdups new) = []" using assms by (auto simp: filter_empty_conv)
  ultimately show ?thesis by (simp add: prefix_calls_def)
qed

lemma edit_prefixes_set [simp]: "set (edit_prefixes removing n ps) = (if removing then set ps - {n} else insert n (set ps))"
  by (auto simp: edit_prefixes_def)

text \<open>The map after the calls for an edited list, whose entries had the reason \<open>f\<close>.\<close>

definition edited :: "bool \<Rightarrow> nat \<Rightarrow> string \<Rightarrow> string set \<Rightarrow> string set \<Rightarrow> (string \<Rightarrow> prefix_key) \<Rightarrow> (string \<Rightarrow> u32) \<Rightarrow> string set
    \<Rightarrow> (prefix_key \<times> u32) set" where
  "edited removing reason n listed bogons key f P =
     (if removing = (n \<notin> listed) then keyed key f P
      else if \<not> removing then keyed key (f(n := of_nat reason)) (insert n P)
      else if n \<in> bogons then keyed key (f(n := 5)) (insert n P)
      else keyed key f (P - {n}))"

context lpm_trie
begin

lemma run_map_edited:
  assumes "sound m" "entries m = keyed key f P" "\<And>p. p \<in> P \<Longrightarrow> same_entry (key p) (key n) \<Longrightarrow> p = n" "reason \<le> 13"
    and "n \<in> set old \<or> \<not> removing \<Longrightarrow> loader_prefix_key pton n = Inr (key n)"
    and "run_map ops pton (prefix_calls reason bogons old (edit_prefixes removing n old)) m = (None, m')"
  shows "sound m' \<and> entries m' = edited removing reason n (set old) (set bogons) key f P"
proof -
  note but = entries_but_keyed [OF assms(3)]
  consider "removing = (n \<notin> set old)" | "\<not> removing" "n \<notin> set old" | "removing" "n \<in> set old" by blast
  then show ?thesis
  proof cases
    case 1
    then have "prefix_calls reason bogons old (edit_prefixes removing n old) = []" by (intro prefix_calls_same) auto
    with 1 assms(1,2,6) show ?thesis by (simp add: edited_def)
  next
    case 2
    then have "prefix_calls reason bogons old (edit_prefixes removing n old) = [(''add'', n, reason)]" by (intro prefix_calls_add) auto
    with assms(6) have "prefix_change ops pton ''add'' n (to_text reason) m = (None, m')" by (simp split: prod.splits option.splits)
    from add_entry [where key = key and n = n, OF assms(1) _ assms(4) this] assms(5) 2 show ?thesis by (simp add: edited_def assms(2) but keyed_insert)
  next
    case 3
    then have calls: "prefix_calls reason bogons old (edit_prefixes removing n old) = (''del'', n, reason) # (if n \<in> set bogons then [(''add'', n, 5)] else [])"
      by (intro prefix_calls_del) auto
    have key: "loader_prefix_key pton n = Inr (key n)" using assms(5) 3 by blast
    from assms(6) calls obtain m1 where m1: "prefix_change ops pton ''del'' n (to_text reason) m = (None, m1)"
      "run_map ops pton (if n \<in> set bogons then [(''add'', n, 5)] else []) m1 = (None, m')"
      by (auto split: prod.splits option.splits)
    from del_entry [where key = key and n = n, OF assms(1) key m1(1)] have s1: "sound m1" "entries m1 = keyed key f (P - {n})" by (simp_all add: assms(2) but)
    show ?thesis
    proof (cases "n \<in> set bogons")
      case True
      with m1(2) have "prefix_change ops pton ''add'' n (to_text 5) m1 = (None, m')" by (simp split: prod.splits option.splits)
      from add_entry [where key = key and n = n, OF s1(1) key _ this] s1(2) have "sound m'" "entries m' = insert (key n, 5) (entries_but (key n) (keyed key f (P - {n})))" by simp_all
      moreover have "entries_but (key n) (keyed key f (P - {n})) = keyed key f (P - {n} - {n})" by (rule entries_but_keyed) (use assms(3) in blast)
      ultimately show ?thesis using 3 True by (simp add: edited_def keyed_insert)
    qed (use m1(2) s1 3 in \<open>simp add: edited_def\<close>)
  qed
qed

end

text \<open>The reason of a prefix of the deny map, given the blocked ones.\<close>

definition deny_reason :: "string list \<Rightarrow> string \<Rightarrow> u32" where
  "deny_reason ps x = (if x \<in> set ps then 11 else 5)"

text \<open>The prefix maps hold exactly a policy, with its reasons.\<close>

definition installed :: "('m \<Rightarrow> (prefix_key \<times> u32) set) \<Rightarrow> ('m \<Rightarrow> bool) \<Rightarrow> (string \<Rightarrow> prefix_key) \<Rightarrow> policy_cfg \<Rightarrow> 'm xdp_maps \<Rightarrow> bool" where
  "installed entries sound key p x \<longleftrightarrow>
     sound (xm_owned x) \<and> entries (xm_owned x) = keyed key (\<lambda>_. 1) (set (pc_owned_prefixes p)) \<and>
     sound (xm_allow x) \<and> entries (xm_allow x) = keyed key (\<lambda>_. 1) (set (pc_allow_prefixes p)) \<and>
     sound (xm_block x) \<and> entries (xm_block x) =
       keyed key (deny_reason (pc_block_prefixes p)) (set (pc_bogon_prefixes p) \<union> set (pc_block_prefixes p))"

lemma edited_allow: "edited removing 1 n (set ps) {} key (\<lambda>_. 1) (set ps) = keyed key (\<lambda>_. 1) (set (edit_prefixes removing n ps))"
proof -
  have "(\<lambda>_ :: string. 1 :: u32)(n := 1) = (\<lambda>_. 1)" by (simp add: fun_eq_iff)
  then show ?thesis by (auto simp: edited_def insert_absorb)
qed

lemma edited_block:
  "edited removing 11 n (set block) (set bogons) key (deny_reason block) (set bogons \<union> set block) =
    keyed key (deny_reason (edit_prefixes removing n block)) (set bogons \<union> set (edit_prefixes removing n block))"
proof -
  consider "removing" "n \<in> set block" "n \<in> set bogons" | "removing" "n \<in> set block" "n \<notin> set bogons"
    | "removing" "n \<notin> set block" | "\<not> removing" "n \<notin> set block" | "\<not> removing" "n \<in> set block" by blast
  then show ?thesis
  proof cases
    case 1
    then have set: "insert n (set bogons \<union> set block) = set bogons \<union> set (edit_prefixes removing n block)" by auto
    have "keyed key ((deny_reason block)(n := 5)) P = keyed key (deny_reason (edit_prefixes removing n block)) P" for P
      using 1 by (intro keyed_cong) (simp add: deny_reason_def)
    with 1 set show ?thesis by (simp add: edited_def)
  qed (simp add: edited_def Un_Diff insert_absorb; rule keyed_cong; auto simp: deny_reason_def)+
qed

section \<open>A command\<close>

text \<open>A command keeps the policy, or it edits the allowed or the blocked prefixes by one.\<close>

definition policy_edit :: "policy_cfg \<Rightarrow> policy_cfg \<Rightarrow> bool" where
  "policy_edit p q \<longleftrightarrow> q = p \<or> (\<exists>removing n. q = p\<lparr>pc_allow_prefixes := edit_prefixes removing n (pc_allow_prefixes p)\<rparr>) \<or>
     (\<exists>removing n. q = p\<lparr>pc_block_prefixes := edit_prefixes removing n (pc_block_prefixes p)\<rparr>)"

lemma policy_editI:
  "policy_edit p p" "policy_edit p (p\<lparr>pc_allow_prefixes := edit_prefixes removing n (pc_allow_prefixes p)\<rparr>)"
  "policy_edit p (p\<lparr>pc_block_prefixes := edit_prefixes removing n (pc_block_prefixes p)\<rparr>)"
  unfolding policy_edit_def by blast+

lemma command_cfg_policy:
  assumes "command_cfg network cfg args = Some c"
  shows "policy_edit (co_policy cfg) (co_policy c)"
proof -
  from assms obtain name arg where args: "args = [name, arg]" by (auto simp: command_cfg_def split: list.splits)
  have pick: "c = a \<or> c = b \<or> (\<exists>n. c = f n)"
    if "(if A then Some a else if B then Some b else if C then (case o' of None \<Rightarrow> None | Some n \<Rightarrow> Some (f n)) else None) = Some c"
    for A B C a b f and o' :: "string option"
    using that by (auto split: if_splits option.splits)
  have set_policy: "co_policy (cfg\<lparr>co_policy := q\<rparr>) = q" for q by simp
  from pick [OF assms [unfolded args command_cfg_def Let_def list.case]] show ?thesis
  proof (elim disjE exE)
    fix n
    let ?p = "co_policy cfg"
    assume c: "c = cfg\<lparr>co_policy := (if name \<in> {''allow'', ''unallow''}
      then ?p\<lparr>pc_allow_prefixes := edit_prefixes (name = ''unallow'') n (pc_allow_prefixes ?p)\<rparr>
      else ?p\<lparr>pc_block_prefixes := edit_prefixes (name = ''unblock'') n (pc_block_prefixes ?p)\<rparr>)\<rparr>"
    have "co_policy c = (if name \<in> {''allow'', ''unallow''}
      then ?p\<lparr>pc_allow_prefixes := edit_prefixes (name = ''unallow'') n (pc_allow_prefixes ?p)\<rparr>
      else ?p\<lparr>pc_block_prefixes := edit_prefixes (name = ''unblock'') n (pc_block_prefixes ?p)\<rparr>)" unfolding c by (rule set_policy)
    then show ?thesis by (metis policy_editI(2,3))
  qed (simp_all add: policy_editI(1))
qed

lemma prefixes_ok_key:
  assumes "prefixes_ok pton key ps" "n \<in> set ps"
  shows "loader_prefix_key pton n = Inr (key n)"
  using assms by (simp add: prefixes_ok_def list_all_iff)

lemma prefixes_ok_unique:
  assumes "prefixes_ok pton key ps" "p \<in> set ps" "q \<in> set ps" "same_entry (key p) (key q)"
  shows "p = q"
  using assms by (simp add: prefixes_ok_def)

lemma change_prefixes_same: "change_prefixes ops pton fl p p x = (None, x)"
  by (simp add: change_prefixes_def prefix_calls_same)

context lpm_trie
begin

lemma run_map_policy:
  assumes "sound m" "entries m = keyed key f P" "reason \<le> 13"
    and "n \<in> set old \<or> \<not> removing \<Longrightarrow> \<exists>ps. prefixes_ok pton key ps \<and> insert n P \<subseteq> set ps"
    and run: "run_map ops pton (prefix_calls reason bogons old (edit_prefixes removing n old)) m = (None, m')"
  shows "sound m' \<and> entries m' = edited removing reason n (set old) (set bogons) key f P"
proof (cases "n \<in> set old \<or> \<not> removing")
  case True
  with assms(4) obtain ps where ps: "prefixes_ok pton key ps" "insert n P \<subseteq> set ps" by blast
  have "loader_prefix_key pton n = Inr (key n)" using prefixes_ok_key [OF ps(1), of n] ps(2) by blast
  moreover have "p = n" if "p \<in> P" "same_entry (key p) (key n)" for p using prefixes_ok_unique [OF ps(1) _ _ that(2)] that(1) ps(2) by blast
  ultimately show ?thesis by (intro run_map_edited [where pton = pton, OF assms(1,2) _ assms(3) _ run])
next
  case False
  then have "prefix_calls reason bogons old (edit_prefixes removing n old) = []" by (intro prefix_calls_same) auto
  with run False assms(1,2) show ?thesis by (simp add: edited_def)
qed

end

lemma change_allow:
  assumes "lpm_trie ops entries sound" "installed entries sound key p x" "policy_ok pton key p" "policy_ok pton key q"
    and q: "q = p\<lparr>pc_allow_prefixes := edit_prefixes removing n (pc_allow_prefixes p)\<rparr>"
    and "change_prefixes ops pton fl p q x = (None, x')"
  shows "installed entries sound key q x'"
proof -
  let ?old = "pc_allow_prefixes p" and ?new = "edit_prefixes removing n (pc_allow_prefixes p)"
  have ok: "prefixes_ok pton key ?old" "prefixes_ok pton key ?new" using assms(3,4) by (simp_all add: policy_ok_def q)
  have all: "\<exists>ps. prefixes_ok pton key ps \<and> insert n (set ?old) \<subseteq> set ps" if "n \<in> set ?old \<or> \<not> removing"
    by (rule exI [of _ "if removing then ?old else ?new"]) (use that ok in auto)
  have "prefix_calls 11 (pc_bogon_prefixes q) (pc_block_prefixes p) (pc_block_prefixes q) = []" by (simp add: q prefix_calls_same)
  with assms(6) have "run_calls ops pton (fl ''allow'') ''allow'' (prefix_calls 1 [] ?old ?new) x = (None, x')"
    by (auto simp: change_prefixes_def q split: prod.splits option.splits)
  from run_calls_allow [OF this] obtain m where m: "run_map ops pton (prefix_calls 1 [] ?old ?new) (xm_allow x) = (None, m)" "x' = x\<lparr>xm_allow := m\<rparr>" by blast
  have "sound (xm_allow x)" "entries (xm_allow x) = keyed key (\<lambda>_. 1) (set ?old)" using assms(2) by (simp_all add: installed_def)
  from lpm_trie.run_map_policy [OF assms(1) this _ all m(1)] have "sound m \<and> entries m = keyed key (\<lambda>_. 1) (set ?new)"
    by (simp add: edited_allow del: edit_prefixes_set One_nat_def)
  with assms(2) m(2) show ?thesis by (simp add: installed_def q del: edit_prefixes_set)
qed

lemma change_block:
  assumes "lpm_trie ops entries sound" "installed entries sound key p x" "policy_ok pton key p" "policy_ok pton key q"
    and q: "q = p\<lparr>pc_block_prefixes := edit_prefixes removing n (pc_block_prefixes p)\<rparr>"
    and "change_prefixes ops pton fl p q x = (None, x')"
  shows "installed entries sound key q x'"
proof -
  let ?old = "pc_block_prefixes p" and ?new = "edit_prefixes removing n (pc_block_prefixes p)" and ?bogons = "pc_bogon_prefixes p"
  have ok: "prefixes_ok pton key (?bogons @ ?old)" "prefixes_ok pton key (?bogons @ ?new)" using assms(3,4) by (simp_all add: policy_ok_def q)
  have all: "\<exists>ps. prefixes_ok pton key ps \<and> insert n (set ?bogons \<union> set ?old) \<subseteq> set ps" if "n \<in> set ?old \<or> \<not> removing"
    by (rule exI [of _ "?bogons @ (if removing then ?old else ?new)"]) (use that ok in auto)
  have "prefix_calls 1 [] (pc_allow_prefixes p) (pc_allow_prefixes q) = []" by (simp add: q prefix_calls_same)
  with assms(6) have "run_calls ops pton (fl ''block'') ''block'' (prefix_calls 11 ?bogons ?old ?new) x = (None, x')"
    by (simp add: change_prefixes_def q)
  from run_calls_block [OF this] obtain m where m: "run_map ops pton (prefix_calls 11 ?bogons ?old ?new) (xm_block x) = (None, m)" "x' = x\<lparr>xm_block := m\<rparr>" by blast
  have "sound (xm_block x)" "entries (xm_block x) = keyed key (deny_reason ?old) (set ?bogons \<union> set ?old)"
    using assms(2) by (simp_all add: installed_def)
  from lpm_trie.run_map_policy [OF assms(1) this _ all m(1)]
  have "sound m \<and> entries m = keyed key (deny_reason ?new) (set ?bogons \<union> set ?new)"
    by (simp add: edited_block del: edit_prefixes_set)
  with assms(2) m(2) show ?thesis by (simp add: installed_def q del: edit_prefixes_set)
qed

lemma lease_maps: "lease fl ct seconds now_ns w = (e, w') \<Longrightarrow> \<exists>c. w' = w\<lparr>wo_maps := (wo_maps w)\<lparr>xm_configuration := c\<rparr>\<rparr>"
proof -
  have config: "\<exists>c. x' = x\<lparr>xm_configuration := c\<rparr>" if "loader_config_cmd fl args x = (e, x')" for args e and x x' :: "'a xdp_maps"
  proof (cases "x' = x")
    case True
    then show ?thesis by (intro exI [of _ "xm_configuration x"]) simp
  qed (use that in \<open>auto simp: loader_config_cmd_def split: list.splits if_splits sum.splits\<close>)
  assume l: "lease fl ct seconds now_ns w = (e, w')"
  show ?thesis
  proof (cases "ct_syn_budget ct")
    case (Inl e')
    with l show ?thesis by (intro exI [of _ "xm_configuration (wo_maps w)"]) (auto simp: lease_def Let_def)
  next
    case (Inr rb)
    obtain r b where "rb = (r, b)" by fastforce
    with Inr l show ?thesis by (auto simp: lease_def called_def Let_def split: prod.splits dest!: config)
  qed
qed

lemma publish_and_lease_maps:
  assumes "publish_and_lease wr fl unix now_ns ct w = (e, ct', w')"
  shows "(\<exists>c. wo_maps w' = (wo_maps w)\<lparr>xm_configuration := c\<rparr>) \<and> ct_cfg ct' = ct_cfg ct \<and> wo_config_file w' = wo_config_file w \<and>
    (e \<noteq> None \<longrightarrow> wo_maps w' = wo_maps w)"
proof -
  obtain e1 ct1 w1 where p: "publish wr False unix ct w = (e1, ct1, w1)" by (metis prod_cases3)
  then have w1: "wo_maps w1 = wo_maps w" "ct_cfg ct1 = ct_cfg ct" "wo_config_file w1 = wo_config_file w"
    by (auto simp: publish_def Let_def split: option.splits if_splits)
  show ?thesis
  proof (cases e1)
    case None
    obtain e2 w2 where l: "lease fl ct1 (co_lease_seconds (ct_cfg ct1)) now_ns w1 = (e2, w2)" by fastforce
    with assms p None have "e = e2" "ct' = ct1" "w' = w2" by (simp_all add: publish_and_lease_def)
    moreover from lease_maps [OF l] obtain c where "w2 = w1\<lparr>wo_maps := (wo_maps w1)\<lparr>xm_configuration := c\<rparr>\<rparr>" by blast
    then have "wo_maps w2 = (wo_maps w)\<lparr>xm_configuration := c\<rparr>" "wo_config_file w2 = wo_config_file w" using w1 by simp_all
    moreover have "e2 \<noteq> None \<longrightarrow> wo_maps w2 = wo_maps w" using lease_ends [OF l] w1(1) by auto
    ultimately show ?thesis using w1(2) by blast
  next
    case (Some _)
    with assms p w1 show ?thesis by (auto simp: publish_and_lease_def intro!: exI [of _ "xm_configuration (wo_maps w)"])
  qed
qed

lemma installed_config [simp]: "installed entries sound key p (x\<lparr>xm_configuration := c\<rparr>) = installed entries sound key p x"
  by (simp add: installed_def)

lemma change_installed:
  assumes "lpm_trie ops entries sound" "installed entries sound key p x" "policy_ok pton key p" "policy_ok pton key q" "policy_edit p q"
    and "change_prefixes ops pton fl p q x = (None, x')"
  shows "installed entries sound key q x'"
  using assms(5) unfolding policy_edit_def
proof (elim disjE exE)
  assume "q = p"
  with assms(2,6) change_prefixes_same show ?thesis by (metis prod.inject)
qed (use change_allow [OF assms(1-4)] change_block [OF assms(1-4)] assms(6) in blast)+

section \<open>Properties\<close>

text \<open>
  C10: An operator's command that changes single entries of the kernel's maps ends like a fresh
  installation of the new configuration: from maps that hold exactly the current policy, a
  successful command leaves exactly the new one, with the reason of a bogon restored when its
  manual block is lifted, in force and on disk; a failed one leaves the maps as they were or
  a filter that passes every packet.
\<close>

theorem command_installs:
  assumes "lpm_trie ops entries sound" "installed entries sound key (co_policy (ct_cfg ct)) (wo_maps w)"
    and "policy_ok pton key (co_policy (ct_cfg ct))"
    and "\<And>c. command_cfg network (ct_cfg ct) args = Some c \<Longrightarrow> policy_ok pton key (co_policy c)"
    and "command ops pton network fl wr args unix now_ns ct w = (e, ct', w')"
  shows "if e = None
    then command_cfg network (ct_cfg ct) args = Some (ct_cfg ct') \<and> wo_config_file w' = ct_cfg ct' \<and>
      installed entries sound key (co_policy (ct_cfg ct')) (wo_maps w')
    else wo_maps w' = wo_maps w \<or> (\<forall>d now. map_option fst (xddp ops (wo_maps w') d now) = Some XDP_PASS)"
proof (cases "command_cfg network (ct_cfg ct) args")
  case (Some c)
  show ?thesis
  proof (cases "validate_controller c")
    case True
    note edit = command_cfg_policy [OF Some]
    obtain e1 w1 where l: "lease (fl ''lease'' 0) ct 0 now_ns w = (e1, w1)" by fastforce
    obtain e2 x where ch: "change_prefixes ops pton fl (co_policy (ct_cfg ct)) (co_policy c) (wo_maps w1) = (e2, x)" by fastforce
    let ?ct = "ct\<lparr>ct_cfg := c, ct_mode := chosen_mode c (ct_adaptive ct)\<rparr>" and ?w = "w1\<lparr>wo_maps := x, wo_config_file := c\<rparr>"
    obtain e3 ct3 w3 where pl: "publish_and_lease (wr 1) (fl ''lease'' 1) unix now_ns ?ct ?w = (e3, ct3, w3)" by (metis prod_cases3)
    note end3 = publish_and_lease_maps [OF pl]
    show ?thesis
    proof (cases e1)
      case None
      with lease_ends [OF l] have open1: "lease_end (wo_maps w1) = 0" by simp
      have "lease_end x = 0" using lease_end_cong [OF change_prefixes_config [OF ch]] open1 by simp
      then have idle: "map_option fst (xddp ops x d now) = Some XDP_PASS" for d now by (intro lease_end_passes) simp
      have "installed entries sound key (co_policy (ct_cfg ct)) (wo_maps w1)" using lease_maps [OF l] assms(2) by auto
      from change_installed [OF assms(1) this assms(3,4) edit] ch Some have inst: "e2 = None \<Longrightarrow> installed entries sound key (co_policy c) x" by blast
      have three: "e3 = None \<Longrightarrow> e2 = None \<Longrightarrow> installed entries sound key (co_policy c) (wo_maps w3)" "ct_cfg ct3 = c" "wo_config_file w3 = c"
        "e3 \<noteq> None \<Longrightarrow> wo_maps w3 = x" using end3 inst by auto
      from assms(5) Some True l ch pl None three idle show ?thesis
        by (auto simp: command_def command_apply_def Let_def split: option.splits if_splits)
    next
      case (Some e')
      with lease_ends [OF l] have "wo_maps w1 = wo_maps w" by simp
      with assms(5) \<open>command_cfg network (ct_cfg ct) args = Some c\<close> True l Some show ?thesis by (auto simp: command_def command_apply_def)
    qed
  qed (use assms(5) Some in \<open>auto simp: command_def\<close>)
qed (use assms(5) in \<open>auto simp: command_def\<close>)

text \<open>Blocking a bogon by hand, on the maps of \<open>demo_policy_cfg\<close>.\<close>

definition demo_installed :: "lpm_list world" where
  "demo_installed = demo_world\<lparr>wo_maps := fresh_maps\<lparr>xm_owned := [(demo_key ''203.0.113.0/24'', 1)], xm_allow := [],
     xm_block := [(demo_key ''10.0.0.0/8'', 5)]\<rparr>\<rparr>"

lemma demo_installed_ok: "installed set lpm_list_ok demo_key demo_policy_cfg (wo_maps demo_installed)"
  by (simp add: installed_def demo_installed_def keyed_def demo_policy_cfg_def deny_reason_def lpm_list_ok_def)

lemma demo_block_cfg:
  "command_cfg Some demo_controller_cfg [''block'', ''10.0.0.0/8''] =
     Some (demo_controller_cfg\<lparr>co_policy := demo_policy_cfg\<lparr>pc_block_prefixes := [''10.0.0.0/8'']\<rparr>\<rparr>)"
  by (simp add: command_cfg_def demo_controller_cfg_def demo_policy_cfg_def edit_prefixes_def sorted_keys_def MODES_def)

lemma demo_block_ok: "policy_ok demo_pton demo_key (demo_policy_cfg\<lparr>pc_block_prefixes := [''10.0.0.0/8'']\<rparr>)"
  using demo_policy_ok by (simp add: policy_ok_def ports_ok_def prefixes_ok_def demo_policy_cfg_def)

theorem command_installs_witness:
  "case command lpm_list_ops demo_pton Some (\<lambda>_ _. None) (\<lambda>_. True) [''block'', ''10.0.0.0/8''] 100 1 demo_controller demo_installed of
     (e, ct, w) \<Rightarrow>
       if e = None then pc_block_prefixes (co_policy (ct_cfg ct)) = [''10.0.0.0/8''] \<and>
         installed set lpm_list_ok demo_key (co_policy (ct_cfg ct)) (wo_maps w)
       else wo_maps w = wo_maps demo_installed \<or> (\<forall>d now. map_option fst (xddp lpm_list_ops (wo_maps w) d now) = Some XDP_PASS)"
proof -
  obtain e ct w where r: "command lpm_list_ops demo_pton Some (\<lambda>_ _. None) (\<lambda>_. True) [''block'', ''10.0.0.0/8''] 100 1 demo_controller demo_installed = (e, ct, w)"
    by (metis prod_cases3)
  have cfg: "ct_cfg demo_controller = demo_controller_cfg" "co_policy demo_controller_cfg = demo_policy_cfg"
    by (simp_all add: demo_controller_def controller_init_def demo_controller_cfg_def)
  have "policy_ok demo_pton demo_key (co_policy c)" if "command_cfg Some (ct_cfg demo_controller) [''block'', ''10.0.0.0/8''] = Some c" for c
    using that demo_block_ok unfolding cfg demo_block_cfg by auto
  from command_installs [where key = demo_key, OF lpml.lpm_trie_axioms _ _ this r] demo_installed_ok demo_policy_ok
  have "if e = None then command_cfg Some demo_controller_cfg [''block'', ''10.0.0.0/8''] = Some (ct_cfg ct) \<and>
      installed set lpm_list_ok demo_key (co_policy (ct_cfg ct)) (wo_maps w)
    else wo_maps w = wo_maps demo_installed \<or> (\<forall>d now. map_option fst (xddp lpm_list_ops (wo_maps w) d now) = Some XDP_PASS)"
    unfolding cfg by presburger
  with r show ?thesis unfolding demo_block_cfg by (auto dest: sym split: if_splits)
qed

end
