(* ===== verification/Spec2Isabelle.thy ===== *)
theory Spec2Isabelle
  imports Framing Packets Proxy_V2 Limiter_Inv Backend Runtime Relay_Deadlines Cache Metrics_Http Config_Validate Gate_Session
    Xdp_Syn Xdp_Wire Controller_Commands
begin

text \<open>
  Verification library of XDDP, which protects a Minecraft server in three places: the XDP
  program under src/xdp drops packets in the kernel, the gate, the Rust program under
  src/gate/src, is a TCP gateway that reads a client's first packets, applies rate limits and
  policy, answers status requests itself, and relays what is left to the backend, and the
  controller under src/controller watches the telemetry of both and tells them by a
  short lease what to enforce.

  \<^bold>\<open>How the gate is put together.\<close> main.rs accepts connections and runs one handler per
  connection. A handler takes permits of shared semaphores, learns the client's identity
  (from the socket or from a PROXY v2 header, incoming_proxy.rs), asks the live policy
  (runtime.rs) and the limiter (limiter.rs) for admission, reads frames and packets
  (protocol.rs), and then either answers from the status cache (cache.rs) or passes the
  backend protection (backend.rs), dials, and relays (relay.rs) until one side ends.
  Background tasks refresh the cache, watch the policy file, and sweep the limiter's
  tables. config.rs validates the configuration once; metrics.rs counts and serves the
  counters over HTTP.

  \<^bold>\<open>How the three programs interact.\<close> The gate and the filter share no state. Once a second
  the controller samples counters, chooses one of four modes (core.py), writes the
  gate's policy file and then, through the loader (loader.c), the filter's configuration
  with its lease. The prefix and port maps of the filter are installed from the configuration
  (policy.py) and changed by operator commands while the lease is withdrawn. Without a live lease
  the filter passes everything.

  \<^bold>\<open>Theories of the gate, in the order of the code.\<close>

  \<^item> Prelude, Text, Float64, Net, Utf8, Config_Types, Metrics: results with errors as values,
    reachability and the contract \<open>invariant_system\<close> of every state machine below, IEEE
    double arithmetic with rounding, addresses and networks, UTF-8, the configuration
    structs and the counter vector (config.rs, metrics.rs).
  \<^item> Varint, Framing, Packets: protocol.rs. \<open>varint\<close>, \<open>put_varint\<close>, \<open>frame\<close>, \<open>read_frame\<close> with
    its deadlines and byte budget over a reader that is a parameter (locales
    \<open>byte_source\<close> and \<open>prompt_source\<close>), the cursor and the packet parsers. Shown: round
    trips, soundness of a read frame, the budget on every outcome, and that the read
    phases never cut off an acceptable packet.
  \<^item> Proxy_V2: incoming_proxy.rs and the sender of cache.rs. Shown: fail-closed identity,
    round trip between sender and receiver, trust of mapped addresses.
  \<^item> Limiter, Limiter_Buckets, Limiter_Tables, Limiter_Ops, Limiter_Inv: limiter.rs. Token
    buckets as a \<open>quota\<close>, sharded tables as a \<open>keyed_store\<close>, the decisions of \<open>accept\<close> and
    \<open>event\<close> on every branch, and a state machine in which every operation that locks the
    two tables one after the other is two steps. Shown: exact accounting, the caps, that
    sweeping spares connections, that only client fault is scored, that rejections are
    free, and that buckets never overspend.
  \<^item> Backend: backend.rs. Shown: the dial budget (a second \<open>quota\<close>), one probe at a time,
    opening on exactly the threshold, recovery.
  \<^item> Runtime: runtime.rs. Shown: the prefix index is a linear scan, replays are harmless,
    and the policy in force refines what the document states.
  \<^item> Relay, Relay_Copy, Relay_Deadlines: relay.rs. \<open>Budget\<close>, \<open>Monitored\<close>, \<open>Guarded\<close> and \<open>Activity\<close>,
    then \<^verbatim>\<open>protected_copy\<close> as a task: \<open>relay_poll\<close> is one poll of its nested \<^verbatim>\<open>select!\<close>, with the
    branch order, the calls of tokio's copy on the two streams and the shared counters as
    arguments, and \<open>relay_run\<close> its life. Shown: the upload budget in exact integer credit,
    the stall guard, that every timeout is counted once and has its reason, and that a
    half-closed or silent connection is over when its deadline has come.
  \<^item> Cache: cache.rs. Shown: responses fit their limit for every version, a healthy backend
    is cached.
  \<^item> Metrics_Http: \<open>render\<close> and the endpoint of metrics.rs. Shown: a scrape of the rendered text
    gives back every counter, and the answer to a request does not depend on the pieces it
    arrives in.
  \<^item> Config_Validate: \<open>Config::load\<close> and \<open>Config::validate\<close>. Shown: what validation
    establishes for the other components, and one configuration it lets pass although
    its error message says otherwise.
  \<^item> Gate, Gate_Inv, Gate_Session and this theory: main.rs. A handler is a sequence of
    segments between its suspension points (\<open>seg_identity\<close>, \<open>seg_handshake\<close>, and so on,
    one per await of \<^verbatim>\<open>handle\<close>); \<open>resume\<close> runs the segment that follows an outcome of the
    awaited operation, and in the relay \<open>seg_relay\<close> runs a wake-up of the connection's
    \<open>relay\<close> on the shared counters; \<open>main_mode\<close> is the command line; \<open>gate_close\<close> drops everything a handler holds in the order of the
    source; \<open>gate_step\<close> interleaves handlers, accepts, the refresh task, the watcher, the
    maintenance task and the shutdown. Shown here: permits and gauges are exact in every
    reachable state, the limiter's and the backend's invariants hold for the tickets and
    attempts of the handlers that are alive, sockets are never the bottleneck, nothing
    unvetted reaches the backend and what reaches it is what the client sent, handlers
    are never stuck, end or come to their relay, a silent client's relay ends, shutdown
    releases everything, and observation mode serves logins.

  \<^bold>\<open>Theories of the filter and the controller.\<close>

  \<^item> Xdp_Parse, Xdp_Lpm, Xdp_Filter: parse.h, shared.h and xdp_ddos.bpf.c. Every load of the packet
    goes through \<open>rd_u8\<close>, which is \<open>None\<close> outside it; the kernel's LPM tries are a parameter \<open>lpm_ops\<close>
    with the laws of the locale \<open>lpm_trie\<close> (instance \<open>lpm_list_ops\<close>); \<open>xddp\<close> is the program on
    the maps, the packet and the time, with counters and budgets as wrapping words.
  \<^item> Xdp_Safety, Xdp_Syn, Xdp_Wire: what it guarantees. Shown: memory safety and exact counting,
    fail-open drops, the SYN budget of a CPU over a whole packet sequence, and the verdict on
    a well-formed TCP packet given by its fields, EMERGENCY included.
  \<^item> Adaptive, Adaptive_Inv: class \<^verbatim>\<open>Adaptive\<close> of core.py and the validation of its configuration. Shown:
    no sample raises for a validated configuration, EMERGENCY has a deadline and is not re-entered
    before its rearm time, every mode change has its reason; and one accepted configuration,
    \<^verbatim>\<open>"recovery": null\<close>, with which the controller dies instead.
  \<^item> Loader: the commands of loader.c that change maps, on their textual input. Controller_Policy:
    policy.py. Shown: the loader reads the controller's document back and installs exactly
    that policy, and replacing it fails open.
  \<^item> Controller, Controller_Lease, Controller_Commands: ddosctl.py. Publication, lease, tick,
    preparation, operator commands and cleanup with the faults of their writes. Shown: gate and
    filter enforce the mode of the same tick, a silent controller opens the filter within
    fifteen seconds, and a command that edits single map entries ends like a fresh
    installation.

  \<^bold>\<open>Modelling choices.\<close> Errors are values of a sum or option type, one constructor per
  variant of the source. Instants and durations are nanoseconds as natural numbers, so
  that subtraction saturates as \<^verbatim>\<open>saturating_duration_since\<close> does and addition does not
  overflow. Counters of metrics.rs and VarInts are machine words; \<^verbatim>\<open>usize\<close> fields are
  natural numbers with wrapping written out where the source relies on it; f64 is a
  rational or an exceptional value with correct rounding. Hash functions, JSON, the
  ipnet crate, \<^verbatim>\<open>2f64.powf\<close> and the streams are parameters; what is relied on is a locale
  or a named hypothesis, and each has a concrete instance. Locks are held within a step.
  Loops over streams carry a measure (bytes left to read), so no fuel is used anywhere (the bound in
  \<open>clear_prefixes\<close> is the source's own); the loop of \<^verbatim>\<open>Activity::expired\<close>, which could spin on a clock that has run for \<open>2 ^ 64\<close>
  milliseconds, is a partial function whose value \<open>None\<close> is shown not to occur before that.
  Within a segment the several semaphores of a handler are acquired in one step; the
  source acquires them one after the other without suspending.

  \<^bold>\<open>Not modelled.\<close> Signal handling, log output and the printing of \<^verbatim>\<open>--state-sizes\<close> in main.rs,
  which change no state; the inside of tokio's scheduler, timers and bidirectional copy,
  which is not code of the repository (what it may do in a poll is an argument of the
  model); in src/xdp, attaching, detaching and loading the program and the checks of a pinned
  generation (calls of libbpf whose outcome is an argument), the printing of statistics and the
  pass-through program; in src/controller, the reading of telemetry (a tick's signals are its
  argument), the history database, sockets and processes, and the checks of file names and
  URLs in the configuration; the deployment scripts and systemd units.
\<close>

section \<open>The gate as a whole\<close>

abbreviation gate_runs_on :: "('a, 'b) ipnet_ops \<Rightarrow> 'j json_ops \<Rightarrow> (bytes \<Rightarrow> ('a, 'b) wire option) \<Rightarrow> (f64 \<Rightarrow> f64)
    \<Rightarrow> ('a, 'b, 'j) config \<Rightarrow> ('a, 'b, 'j) gsys \<Rightarrow> bool" where
  "gate_runs_on ops js parse powf2 cfg s \<equiv> gate_reachable ops js parse powf2 cfg s \<and>
     validate ops js cfg = Inr () \<and> length (lim_mode_multipliers (cfg_limits cfg)) = 4"

lemma gate_runs_limits:
  assumes "gate_runs_on ops js parse powf2 cfg s"
  shows "limits_ok (cfg_limits cfg)" "lim_total_sockets (cfg_limits cfg) \<le> 100000"
    "lim_prelogin (cfg_limits cfg) + lim_admitted (cfg_limits cfg) + lim_backend (cfg_limits cfg) \<le> lim_total_sockets (cfg_limits cfg)"
    "0 < lim_backend (cfg_limits cfg)"
  using assms valid_limits [of ops js cfg] by simp_all

lemma gate_runs_inv:
  assumes "gate_runs_on ops js parse powf2 cfg s"
  shows "gate_inv cfg s" "gate_ok cfg (gs_refresh s = RefreshPolling) (gs_gate s) (gs_conns s)"
proof -
  show "gate_inv cfg s" by (rule gate_reachable_inv) (use assms gate_runs_limits [OF assms] in auto)
  then show "gate_ok cfg (gs_refresh s = RefreshPolling) (gs_gate s) (gs_conns s)" by (simp add: gate_inv_def)
qed

lemma demo_runs: "demo_reachable s \<Longrightarrow> gate_runs_on cidr_ops empty_json (\<lambda>_. None) (\<lambda>x. x) shipped_config s"
  by (simp add: shipped_config_valid demo_limits)

lemma held_le: "held P M \<le> size M"
  by (simp add: held_def size_filter_mset_lesseq)

text \<open>
  C1: No permit and no gauge leaks: in every state that a gate with a validated
  configuration can reach, over all interleavings of its handlers, the refresh task, the
  watcher, the maintenance task and the shutdown, the free permits of each of the five
  semaphores and the handlers that hold one add up to the configured number, and the
  gauges of \<^verbatim>\<open>active_connections\<close>, \<^verbatim>\<open>active_prelogin\<close>, \<^verbatim>\<open>backend_connections\<close>,
  \<^verbatim>\<open>admitted_clients\<close> and \<^verbatim>\<open>active_status\<close> are exactly the handlers in those phases.
\<close>

theorem gate_accounting:
  assumes "gate_runs_on ops js parse powf2 cfg s"
  shows "let g = gs_gate s; M = gs_conns s; lm = cfg_limits cfg; polling = of_bool (gs_refresh s = RefreshPolling) in
    gt_sockets g + size M + held on_backend M + polling = lim_total_sockets lm \<and>
    gt_prelogin g + held (\<lambda>ph. ph \<noteq> InRelay) M = lim_prelogin lm \<and>
    gt_admitted g + held on_backend M = lim_admitted lm \<and> gt_backend g + held on_backend M = lim_backend lm - 1 \<and>
    gt_status g + held in_status M = status_slots lm \<and>
    unat (metrics_get (gt_met g) 1) = size M \<and> unat (metrics_get (gt_met g) 2) = held (\<lambda>ph. ph \<noteq> InRelay) M \<and>
    unat (metrics_get (gt_met g) 3) = held on_backend M + polling \<and>
    unat (metrics_get (gt_met g) 30) = held (\<lambda>ph. ph = InRelay) M \<and> unat (metrics_get (gt_met g) 36) = held in_status M"
proof -
  note ok = gate_runs_inv(2) [OF assms]
  note p = gate_okD(2) [OF ok, unfolded permits_ok_def]
  have "lim_total_sockets (cfg_limits cfg) \<le> 100000" by (rule gate_runs_limits(2) [OF assms])
  then have "unat (of_nat n :: u64) = n" if "n \<le> lim_total_sockets (cfg_limits cfg)" for n
    using that by (simp add: unsigned_of_nat take_bit_nat_eq_self)
  moreover have "held P (gs_conns s) \<le> lim_total_sockets (cfg_limits cfg)" "size (gs_conns s) \<le> lim_total_sockets (cfg_limits cfg)"
    "held on_backend (gs_conns s) + of_bool (gs_refresh s = RefreshPolling) \<le> lim_total_sockets (cfg_limits cfg)" for P
    using p held_le [of P "gs_conns s"] by linarith+
  ultimately show ?thesis using p gate_okD(3) [OF ok, unfolded gauges_ok_def] by (simp only: Let_def)
qed

theorem gate_accounting_witness:
  "\<exists>s :: (cidr4, cidr6, unit) gsys. size (gs_conns s) = 1 \<and> held on_backend (gs_conns s) = 1 \<and>
     gt_sockets (gs_gate s) + of_bool (gs_refresh s = RefreshPolling) = 9998 \<and> gt_admitted (gs_gate s) = 4095 \<and>
     unat (metrics_get (gt_met (gs_gate s)) 1) = 1"
proof -
  obtain s c a where s: "demo_reachable s" "gs_conns s = {#c#}" "cn_phase c = AwaitBackend a"
    using demo_dialing by blast
  then show ?thesis
    using gate_accounting [OF demo_runs [OF s(1)]] by - (rule exI [of _ s], simp add: Let_def demo_limits)
qed



text \<open>
  C3: The per-source caps hold for the gate as it runs: counted over the handlers that are
  alive and the client addresses they were identified with, no normalised address has
  more than \<^verbatim>\<open>connections_ip\<close> connections, \<^verbatim>\<open>prelogin_ip\<close> of them before the relay or
  \<^verbatim>\<open>status_ip\<close> status sessions, and no prefix more than \<^verbatim>\<open>connections_prefix\<close> connections or
  \<^verbatim>\<open>prelogin_prefix\<close> of them before the relay (a cap of zero is off).
\<close>

theorem gate_caps:
  assumes "gate_runs_on ops js parse powf2 cfg s"
  shows "let M = gs_conns s; lm = cfg_limits cfg;
      on_addr = (\<lambda>k c. cn_phase c \<noteq> AwaitIdentity \<and> normalize (sock_ip (cn_peer c)) = k);
      on_net = (\<lambda>k c. cn_phase c \<noteq> AwaitIdentity \<and> prefix_of lm (sock_ip (cn_peer c)) = k) in
    \<forall>k. cap_held (lim_connections_ip lm) (cnt (on_addr k) M) \<and>
      cap_held (lim_prelogin_ip lm) (cnt (\<lambda>c. on_addr k c \<and> cn_phase c \<noteq> InRelay) M) \<and>
      cap_held (lim_status_ip lm) (cnt (\<lambda>c. on_addr k c \<and> in_status (cn_phase c)) M) \<and>
      cap_held (lim_connections_prefix lm) (cnt (on_net k) M) \<and>
      cap_held (lim_prelogin_prefix lm) (cnt (\<lambda>c. on_net k c \<and> cn_phase c \<noteq> InRelay) M)"
proof -
  note ok = gate_runs_inv(2) [OF assms]
  have cap: "capped (cfg_limits cfg) (tickets_of (gs_conns s))"
    using gate_okD(4) [OF ok] by (simp add: limiter_ok_def lsys_inv_def)
  have id: "identified (cfg_limits cfg) c" if "c \<in># gs_conns s" for c
    using gate_okD(7) [OF ok that] by (simp add: conn_ok_def)
  have le: "cap_held m (cnt Q (gs_conns s))"
    if "cap_held m (cnt P (tickets_of (gs_conns s)))"
      and "\<And>c. identified (cfg_limits cfg) c \<Longrightarrow> Q c \<Longrightarrow> \<exists>t. cn_ticket c = Some t \<and> P (t, Live)" for P Q m
    using cap_held_le [OF that(1)] cnt_tickets [of "gs_conns s" Q P] that(2) id by blast
  note cap = cap [unfolded capped_def, rule_format]
  show ?thesis unfolding Let_def
  proof (intro allI conjI)
    fix k
    show "cap_held (lim_connections_ip (cfg_limits cfg))
        (cnt (\<lambda>c. cn_phase c \<noteq> AwaitIdentity \<and> normalize (sock_ip (cn_peer c)) = k) (gs_conns s))"
      by (rule le [where P = "on_ip k"]) (simp_all add: cap identified_def split: option.splits)
    show "cap_held (lim_prelogin_ip (cfg_limits cfg))
        (cnt (\<lambda>c. (cn_phase c \<noteq> AwaitIdentity \<and> normalize (sock_ip (cn_peer c)) = k) \<and> cn_phase c \<noteq> InRelay) (gs_conns s))"
      by (rule le [where P = "pending_ip k"]) (auto simp: cap identified_def split: option.splits)
    show "cap_held (lim_status_ip (cfg_limits cfg))
        (cnt (\<lambda>c. (cn_phase c \<noteq> AwaitIdentity \<and> normalize (sock_ip (cn_peer c)) = k) \<and> in_status (cn_phase c)) (gs_conns s))"
      by (rule le [where P = "status_ip k"]) (auto simp: cap identified_def simp del: status_ip.simps split: option.splits,
        simp add: identified_def)
    show "cap_held (lim_connections_prefix (cfg_limits cfg))
        (cnt (\<lambda>c. cn_phase c \<noteq> AwaitIdentity \<and> prefix_of (cfg_limits cfg) (sock_ip (cn_peer c)) = k) (gs_conns s))"
      by (rule le [where P = "on_prefix k"]) (simp_all add: cap identified_def split: option.splits)
    show "cap_held (lim_prelogin_prefix (cfg_limits cfg))
        (cnt (\<lambda>c. (cn_phase c \<noteq> AwaitIdentity \<and> prefix_of (cfg_limits cfg) (sock_ip (cn_peer c)) = k) \<and> cn_phase c \<noteq> InRelay) (gs_conns s))"
      by (rule le [where P = "pending_prefix k"]) (auto simp: cap identified_def split: option.splits)
  qed
qed

theorem gate_caps_witness:
  "\<exists>s :: (cidr4, cidr6, unit) gsys. gs_conns s \<noteq> {#} \<and>
     cap_held (lim_connections_ip shipped_limits)
       (cnt (\<lambda>c. cn_phase c \<noteq> AwaitIdentity \<and> normalize (sock_ip (cn_peer c)) = IpV4 263) (gs_conns s))"
proof -
  obtain s c where s: "demo_reachable s" "gs_conns s = {#c#}"
    using demo_greeted by blast
  then show ?thesis
    using gate_caps [OF demo_runs [OF s(1)]] by - (rule exI [of _ s], simp add: Let_def demo_limits)
qed

text \<open>
  C6: Nothing reaches the backend unvetted: a handler that dials or relays holds the bytes
  of a handshake with next state 2 and of a login, both of which parsed under the
  configured protocol with the same version; it holds a ticket for its client's address;
  and the dials in flight and the free dial slots add up to the configured number.
\<close>

theorem backend_vetted:
  assumes "gate_runs_on ops js parse powf2 cfg s" "c \<in># gs_conns s" "on_backend (cn_phase c)"
  shows "(\<exists>f h. fr_wire f = cn_handshake_wire c \<and> handshake (frame_body f) (cfg_protocol cfg) = Inr h \<and>
      hs_state h = 2 \<and> hs_version h = cn_version c) \<and>
    (\<exists>f. fr_wire f = cn_login_wire c \<and> login (frame_body f) (cn_version c) (cfg_protocol cfg) = Inr ()) \<and>
    (\<exists>t. cn_ticket c = Some t \<and> tk_ip t = normalize (sock_ip (cn_peer c))) \<and>
    bx_slots (gt_prot (gs_gate s)) + size (flights_of (gs_conns s)) =
      dial_slots (cfg_backend_protection cfg) (lim_backend (cfg_limits cfg) - 1)"
proof -
  note ok = gate_runs_inv(2) [OF assms(1)]
  have c: "identified (cfg_limits cfg) c" "vetted (cfg_protocol cfg) c"
    using gate_okD(7) [OF ok assms(2)] by (simp_all add: conn_ok_def)
  have "\<exists>t. cn_ticket c = Some t \<and> tk_ip t = normalize (sock_ip (cn_peer c))"
    using c(1) assms(3) by (auto simp: identified_def split: option.splits)
  moreover have "bx_slots (gt_prot (gs_gate s)) + size (flights_of (gs_conns s)) =
      dial_slots (cfg_backend_protection cfg) (lim_backend (cfg_limits cfg) - 1)"
    using gate_okD(5) [OF ok] by (auto simp: dials_ok_def backend_inv_def)
  ultimately show ?thesis
    using c(2) assms(3) handshake_state unfolding vetted_def handshake_seen_def login_seen_def by metis
qed

theorem backend_vetted_witness:
  "\<exists>f h. fr_wire f = fr_wire demo_handshake \<and> handshake (frame_body f) shipped_protocol = Inr h \<and> hs_state h = 2"
proof -
  obtain s c a where s: "demo_reachable s" "gs_conns s = {#c#}" "cn_phase c = AwaitBackend a"
    "cn_handshake_wire c = fr_wire demo_handshake"
    using demo_dialing by blast
  then have "c \<in># gs_conns s" "on_backend (cn_phase c)" by simp_all
  from backend_vetted [OF demo_runs [OF s(1)] this] s(4) show ?thesis by (auto simp: demo_limits)
qed

text \<open>
  C11: The backend sees the client's own bytes: when a handler has read a handshake and a
  login from its client's stream and starts to dial, what it writes to the backend is
  the PROXY header for the identified addresses (when configured) followed by exactly
  the bytes that it took from the stream, in order and complete, however the stream was
  split and whatever the other handlers did between the two reads; and those bytes are
  within the connection's byte budget.
\<close>

theorem client_bytes_forwarded:
  assumes "byte_source rd pending" "cn_phase c = AwaitHandshake"
    and "serve rd ops powf2 g c unix now1 now2 w = Some (g1, Some c1, w1)" "cn_phase c1 = AwaitLogin"
    and "serve rd ops powf2 g2 c1 unix' now3 now4 w1 = Some (g3, Some c2, w2)"
  shows "(\<exists>a. cn_phase c2 = AwaitBackend a) \<and>
    (\<exists>bytes. pending w = bytes @ pending w2 \<and> cn_left c = cn_left c2 + length bytes \<and>
      backend_preamble cfg c2 = (if cfg_proxy_v2 cfg
        then map_option (\<lambda>h. h @ bytes) (proxy_header (cn_peer c) (cn_dst c)) else Some bytes))"
proof -
  note 1 = byte_source.handshake_served [OF assms(1,2,3,4)]
  note 2 = byte_source.login_served [OF assms(1,4,5)]
  have "pending w = (cn_handshake_wire c2 @ cn_login_wire c2) @ pending w2 \<and>
      cn_left c = cn_left c2 + length (cn_handshake_wire c2 @ cn_login_wire c2)" using 1 2 by auto
  moreover have "cn_peer c2 = cn_peer c" "cn_dst c2 = cn_dst c" using 1 2 by auto
  ultimately show ?thesis using 2 by (auto simp: backend_preamble_def)
qed

theorem client_bytes_forwarded_witness:
  "\<exists>(c :: conn) (c2 :: conn). backend_preamble (shipped_config\<lparr>cfg_proxy_v2 := False\<rparr>) c2 =
     Some (frame (frame_body demo_handshake) @ frame (frame_body demo_login)) \<and>
     cn_left c = cn_left c2 + length (frame (frame_body demo_handshake) @ frame (frame_body demo_login))"
proof -
  obtain g c g1 c1 w1 g3 c2 w2 where r: "cn_phase c = AwaitHandshake"
    "serve mem_ops cidr_ops (\<lambda>x. x) (g :: (cidr4, cidr6, unit) gate) c 0 0 0
       (frame (frame_body demo_handshake) @ frame (frame_body demo_login) @ [42], [2, 1]) = Some (g1, Some c1, w1)"
    "cn_phase c1 = AwaitLogin" "serve mem_ops cidr_ops (\<lambda>x. x) g1 c1 0 0 0 w1 = Some (g3, Some c2, w2)" "fst w2 = [42]"
    using demo_streamed by blast
  from client_bytes_forwarded [OF mem.byte_source_axioms r(1-4), of "shipped_config\<lparr>cfg_proxy_v2 := False\<rparr>"] r(5)
  show ?thesis by - (rule exI [of _ c], rule exI [of _ c2], auto)
qed

text \<open>
  C25: Every handler comes to an end or to its relay: whatever the shared state, the outcomes
  and the clock readings it meets, no handler is still waiting after it has been resumed
  six times, the wake-ups of its relay aside.
\<close>

theorem handler_ends:
  "survives ops powf2 c xs = None \<or> length (filter (\<lambda>(_, out, _). \<not> wakes_relay out) xs) < 6"
proof (cases "survives ops powf2 c xs")
  case (Some c')
  from survives_rank [OF this] rank_bounds [of "cn_phase c'"] rank_bounds [of "cn_phase c"] show ?thesis by linarith
qed simp



text \<open>
  C24: A silent client does not hold its connection: once the backend has answered the dial
  and the relay has begun, with an idle timeout configured, whatever the rest of the gate
  does between the wake-ups of the relay and however much the backend sends, the handler has
  returned by the first wake-up that comes \<^verbatim>\<open>client_idle_ms\<close> after the client's last data.
\<close>

theorem silent_client_closed:
  assumes "seg_backend powf2 g c t a io_ok t0 = (g', Some c')" "metrics_wf (gt_met g)"
    and "0 < to_client_idle_ms (cfg_timeouts (gt_cfg g))"
    and "relay_env t0 (to_client_idle_ms (cfg_timeouts (gt_cfg g))) (map relay_wakeup ws)" "ws \<noteq> []"
    and "last_data t0 (map relay_wakeup ws) + from_millis (to_client_idle_ms (cfg_timeouts (gt_cfg g)))
      \<le> wk_now (last (map relay_wakeup ws))"
  shows "closes ops powf2 c' (map relay_resume ws)"
proof -
  let ?t = "cfg_timeouts (gt_cfg g)"
  obtain m where m: "metrics_wf m" and c': "cn_phase c' = InRelay" "cn_relay c' = Some (begin_relay (gt_cfg g) m t0)"
    using seg_backend_next [of powf2 g c t a io_ok t0 c'] assms(1,2) by auto
  have "\<exists>x r. relay_run (relay_new (cfg_upload (gt_cfg g)) (to_relay_stall_ms ?t) (to_half_close_ms ?t) (to_client_idle_ms ?t) m t0)
      (map relay_wakeup ws) = Some (Ready x, r)"
    by (rule relay_ends [OF m assms(4)]) (use silent_pending [OF m assms(4) _ assms(3)] assms(5,6) in fastforce)
  with closes_relay [OF c'] show ?thesis by (auto simp: begin_relay_def Let_def)
qed

theorem silent_client_closed_witness:
  "\<exists>(g :: (cidr4, cidr6, unit) gate) c t a g' c'. seg_backend (\<lambda>x. x) g c t a True 5 = (g', Some c') \<and>
     closes cidr_ops (\<lambda>x. x) c' (map relay_resume
       [(g, \<lparr>wk_idle_first = True, wk_eof_first = False, wk_transfer = ([ReadCall ClientSide 8 (Ready (Inr [1]))], None),
          wk_again = ([], None), wk_now = 0, wk_met = []\<rparr>, 0, 6),
        (g, \<lparr>wk_idle_first = False, wk_eof_first = False, wk_transfer = ([ReadCall ServerSide 8 (Ready (Inr [2]))], None),
          wk_again = ([], None), wk_now = 0, wk_met = []\<rparr>, 0, 2000006)])"
proof -
  obtain g0 :: "(cidr4, cidr6, unit) gate" where "gate_new empty_json shipped_config (\<lambda>_. 0) (\<lambda>_. 0) 0 = Some g0"
    using demo_gate by blast
  then have g0: "gt_met g0 = metrics_new" by (auto simp: gate_new_def)
  let ?g = "g0\<lparr>gt_cfg := shipped_config\<lparr>cfg_proxy_v2 := False, cfg_timeouts := shipped_timeouts\<lparr>to_client_idle_ms := 2\<rparr>\<rparr>\<rparr>"
  let ?t = "ticket_new (IpV4 263) (IpV4 256)" and ?a = "\<lparr>at_generation = 0, at_finished = False\<rparr>"
  obtain g' c' where sb: "seg_backend (\<lambda>x. x) ?g demo_conn ?t ?a True 5 = (g', Some c')"
    by (simp add: seg_backend_def backend_preamble_def Let_def case_prod_beta)
  show ?thesis
    by (rule exI [of _ ?g], rule exI [of _ demo_conn], rule exI [of _ ?t], rule exI [of _ ?a], rule exI [of _ g'], rule exI [of _ c'],
        rule conjI [OF sb], rule silent_client_closed [OF sb])
      (simp_all add: g0 relay_env_def relay_clock_def relay_wakeup_def wk_calls_def as_millis_def last_data_def from_millis_def)
qed



text \<open>
  C21: A login in observation mode is served: in a reachable state of a gate with a
  validated configuration, when the client's login packet parses, its address is not
  blocked and the policy observes, an admission and a backend slot are free, a dial slot
  is free, the circuit does not block and the dial budget pays, the handler goes on to
  dial; no rate bucket, penalty, missing entry or exhausted socket pool stops it.
\<close>

theorem observed_login_dials:
  assumes "gate_runs_on ops js parse powf2 cfg s" "gs_conns s = add_mset c M" "cn_phase c = AwaitLogin"
    and "login (frame_body f) (cn_version c) (cfg_protocol cfg) = Inr ()"
    and "runtime_policy ops (gt_rt (gs_gate s)) (sock_ip (cn_peer c)) unix now = (p, False)" "p_observe p"
    and "gt_admitted (gs_gate s) \<noteq> 0" "gt_backend (gs_gate s) \<noteq> 0" "bx_slots (gt_prot (gs_gate s)) \<noteq> 0"
    and "\<not> circuit_blocks (bx_state (gt_prot (gs_gate s))) now"
    and "fst (dial_budget (bp_attempts (bx_cfg (gt_prot (gs_gate s)))) now (bx_state (gt_prot (gs_gate s))))"
  shows "\<exists>g' c' a. resume ops powf2 (gs_gate s) c (FrameRead (Inr f) left) unix now = Some (g', Some c') \<and>
    cn_phase c' = AwaitBackend a \<and> cn_login_wire c' = fr_wire f"
proof -
  have ok: "gate_ok cfg (gs_refresh s = RefreshPolling) (gs_gate s) (add_mset c M)"
    using gate_runs_inv(2) [OF assms(1)] assms(2) by simp
  obtain t where t: "cn_ticket c = Some t"
    using gate_okD(7) [OF ok, of c] assms(3) by (auto simp: conn_ok_def identified_def split: option.splits)
  have sock: "gt_sockets (gs_gate s) \<noteq> 0"
    by (rule sockets_spare [OF ok gate_runs_limits(3,4) [OF assms(1)]]) (simp add: assms(8))
  from login_dials [OF ok assms(3) t assms(4-8) sock assms(9-11)] show ?thesis by fastforce
qed

theorem observed_login_dials_witness:
  "\<exists>g c g' c' a. resume cidr_ops (\<lambda>x. x) (g :: (cidr4, cidr6, unit) gate) c (FrameRead (Inr demo_login) 32755) 0 0 = Some (g', Some c') \<and>
     cn_phase c' = AwaitBackend a \<and> cn_login_wire c' = fr_wire demo_login"
proof -
  obtain s c t where s: "demo_reachable s" "gs_conns s = {#c#}" "demo_calm (gs_gate s)"
    and c: "cn_phase c = AwaitLogin" "cn_ticket c = Some t" "cn_version c = 757"
    using demo_greeted by blast
  have f: "login (frame_body demo_login) (cn_version c) (cfg_protocol shipped_config) = Inr ()"
    using demo_login_parses c(3) by (simp add: demo_limits)
  have pol: "runtime_policy cidr_ops (gt_rt (gs_gate s)) (sock_ip (cn_peer c)) 0 0 = (demo_policy, False)" "p_observe demo_policy"
    using s(3) by (simp_all add: demo_policy_holds demo_calm_def) (simp add: demo_policy_def)
  have "gs_conns s = add_mset c {#}" using s(2) by simp
  from observed_login_dials [OF demo_runs [OF s(1)] this c(1) f pol] demo_slots [OF s(1,2) c(1)] demo_dial_ready [OF s(3)]
  show ?thesis by fastforce
qed

end
